(* ===== verification/Prelude.thy ===== *)
theory Prelude
  imports Main "HOL-Library.Sublist"
begin

text \<open>
  Vocabulary shared by every theory of the development.

  A Python \<^verbatim>\<open>str\<close> is a sequence of Unicode code points, so a text is a list of natural
  numbers (\<open>ustr\<close>) and \<open>lit ''abc''\<close> is an ASCII literal of the source. Lengths, slices and
  comparisons then count what Python counts, also outside ASCII.

  The theory also holds the generic list and option lemmas the components share, and the
  collections \<open>text_simps\<close> (evaluation of text literals) and \<open>py_defs\<close> (definitions that
  automation may unfold).
\<close>

type_synonym ustr = "nat list"

named_theorems text_simps \<open>evaluation of text literals\<close>
named_theorems py_defs \<open>definitions of the model that proofs unfold together\<close>

definition lit :: "string \<Rightarrow> ustr" where
  "lit s = map of_char s"

lemma lit_Nil [simp]: "lit [] = []"
  by (simp add: lit_def)

lemma lit_Cons [text_simps]: "lit (c # s) = of_char c # lit s"
  by (simp add: lit_def)

lemma lit_append: "lit (s @ t) = lit s @ lit t"
  by (simp add: lit_def)

lemma lit_inject [simp]: "lit s = lit t \<longleftrightarrow> s = t"
  by (simp add: lit_def inj_map_eq_map inj_of_char)

lemma lit_eq_Nil [simp]: "lit s = [] \<longleftrightarrow> s = []" "[] = lit s \<longleftrightarrow> s = []"
  by (simp_all add: lit_def)

lemma length_lit [simp]: "length (lit s) = length s"
  by (simp add: lit_def)

lemma set_lit_less: "c \<in> set (lit s) \<Longrightarrow> c < 256"
  by (auto simp: lit_def)

subsection \<open>Substrings\<close>

text \<open>\<open>k in s\<close> of Python, on texts.\<close>

abbreviation in_text :: "ustr \<Rightarrow> ustr \<Rightarrow> bool" where
  "in_text k s \<equiv> sublist k s"

text \<open>An occurrence that avoids a separator lies on one side of it.\<close>

lemma sublist_avoids_sep:
  assumes "sublist k (xs @ b # ys)" and "b \<notin> set k"
  shows "sublist k xs \<or> sublist k ys"
proof -
  from assms(1) obtain ps ss where eq: "xs @ b # ys = ps @ k @ ss"
    by (auto simp: sublist_def)
  show ?thesis
  proof (cases "length (ps @ k) \<le> length xs")
    case True
    then have "\<exists>us. xs = (ps @ k) @ us"
      using eq by (auto simp: append_eq_append_conv2)
    then show ?thesis by (auto simp: sublist_def)
  next
    case False
    have "length ps > length xs"
    proof (rule ccontr)
      assume le: "\<not> length ps > length xs"
      with False have at: "(ps @ k @ ss) ! length xs = k ! (length xs - length ps)"
        and bound: "length xs - length ps < length k"
        by (auto simp: nth_append)
      have "b = (ps @ k @ ss) ! length xs" by (simp flip: eq)
      with at bound have "b \<in> set k" by simp
      with assms(2) show False ..
    qed
    then have "take (length xs) ps = xs" and "drop (length xs) ps @ k @ ss = b # ys"
      using arg_cong [OF eq, of "take (length xs)"] arg_cong [OF eq, of "drop (length xs)"]
      by simp_all
    moreover have "drop (length xs) ps \<noteq> []"
      using \<open>length ps > length xs\<close> by simp
    ultimately obtain us where "ps = xs @ b # us"
      by (metis append_Cons append_take_drop_id list.exhaust list.inject)
    with eq have "ys = us @ k @ ss" by simp
    then show ?thesis by (auto simp: sublist_def)
  qed
qed

text \<open>An occurrence that does not start with the leading element lies behind it.\<close>

lemma sublist_drop_head:
  assumes "sublist k (b # ys)" and "k = [] \<or> hd k \<noteq> b"
  shows "sublist k ys"
  using assms by (cases k) (auto simp: sublist_code)

lemma sublist_drop_replicate:
  assumes "sublist k (replicate n b @ ys)" and "k = [] \<or> hd k \<noteq> b"
  shows "sublist k ys"
  using assms(1)
proof (induction n)
  case (Suc n)
  from Suc.prems have "sublist k (b # (replicate n b @ ys))" by simp
  then have "sublist k (replicate n b @ ys)" using assms(2) by (rule sublist_drop_head)
  then show ?case by (rule Suc.IH)
qed simp

lemma sublist_appendI1: "sublist k xs \<Longrightarrow> sublist k (xs @ ys)"
  by (meson prefixI prefix_imp_sublist sublist_order.order.trans)

lemma sublist_appendI2: "sublist k ys \<Longrightarrow> sublist k (xs @ ys)"
  by (meson suffixI suffix_imp_sublist sublist_order.order.trans)

lemma sublist_around_sep:
  assumes "b \<notin> set k"
  shows "sublist k (xs @ b # ys) \<longleftrightarrow> sublist k xs \<or> sublist k ys"
proof
  assume "sublist k (xs @ b # ys)"
  then show "sublist k xs \<or> sublist k ys" using assms by (rule sublist_avoids_sep)
next
  have "sublist k ys \<Longrightarrow> sublist k ((xs @ [b]) @ ys)" by (rule sublist_appendI2)
  moreover assume "sublist k xs \<or> sublist k ys"
  ultimately show "sublist k (xs @ b # ys)" by (auto intro: sublist_appendI1)
qed

subsection \<open>Options and lists\<close>

text \<open>\<open>x or y\<close> on an optional value.\<close>

fun or_else :: "'a option \<Rightarrow> 'a \<Rightarrow> 'a" where
  "or_else None d = d"
| "or_else (Some x) d = x"

text \<open>
  A \<^verbatim>\<open>dict\<close> whose insertion order matters is an association list with distinct keys:
  assignment replaces in place or appends.
\<close>

fun dict_set :: "'k \<Rightarrow> 'v \<Rightarrow> ('k \<times> 'v) list \<Rightarrow> ('k \<times> 'v) list" where
  "dict_set k v [] = [(k, v)]"
| "dict_set k v ((k', v') # d) = (if k = k' then (k, v) # d else (k', v') # dict_set k v d)"

definition dict_of :: "('k \<times> 'v) list \<Rightarrow> ('k \<times> 'v) list" where
  "dict_of kvs = fold (\<lambda>(k, v) d. dict_set k v d) kvs []"

lemma map_of_dict_set [simp]: "map_of (dict_set k v d) = (map_of d)(k \<mapsto> v)"
  by (induction d) (auto simp: fun_eq_iff)

lemma map_fst_dict_set:
  "map fst (dict_set k v d) = (if k \<in> set (map fst d) then map fst d else map fst d @ [k])"
  by (induction d) (auto simp del: set_map)

lemma keys_dict_set: "fst ` set (dict_set k v d) = insert k (fst ` set d)"
proof -
  have "set (map fst (dict_set k v d)) = insert k (set (map fst d))"
    unfolding map_fst_dict_set by auto
  then show ?thesis by simp
qed

lemma distinct_dict_set: "distinct (map fst d) \<Longrightarrow> distinct (map fst (dict_set k v d))"
  by (simp add: map_fst_dict_set)

lemma dict_set_fresh: "k \<notin> fst ` set d \<Longrightarrow> dict_set k v d = d @ [(k, v)]"
  by (induction d) auto

lemma dict_fold_fresh:
  "distinct (map fst kvs) \<Longrightarrow> fst ` set kvs \<inter> fst ` set d = {} \<Longrightarrow>
   fold (\<lambda>(k, v) d. dict_set k v d) kvs d = d @ kvs"
proof (induction kvs arbitrary: d)
  case (Cons kv kvs)
  then show ?case by (cases kv) (force simp: dict_set_fresh)
qed simp

text \<open>A display with distinct keys is already a dictionary.\<close>

lemma dict_of_distinct: "distinct (map fst kvs) \<Longrightarrow> dict_of kvs = kvs"
  by (simp add: dict_of_def dict_fold_fresh)

lemma distinct_dict_fold:
  "distinct (map fst d) \<Longrightarrow> distinct (map fst (fold (\<lambda>(k, v) d. dict_set k v d) kvs d))"
  by (induction kvs arbitrary: d) (auto simp: distinct_dict_set)

lemma distinct_dict_of: "distinct (map fst (dict_of kvs))"
  by (simp add: dict_of_def distinct_dict_fold)

end
