(* ===== verification/PyText.thy ===== *)
theory PyText
  imports Prelude
begin

text \<open>
  The \<^verbatim>\<open>str\<close> operations of the Python standard library that the program uses, on code
  point lists: \<^verbatim>\<open>strip\<close>, \<^verbatim>\<open>lower\<close>, \<^verbatim>\<open>split\<close>, \<^verbatim>\<open>join\<close>, \<^verbatim>\<open>splitlines\<close>, \<^verbatim>\<open>startswith\<close>,
  \<^verbatim>\<open>textwrap.indent\<close>, decimal rendering of integers. The white space, line boundary and
  lower case tables are those of CPython 3.11 (the version the project pins); the one
  deviation is that \<open>lower\<close> maps a word-final capital sigma like any other capital sigma.

  The second half proves the laws the component theories rest on: stripping is idempotent,
  splitting loses nothing, and a keyword without line boundaries occurs in an indented text
  exactly when it occurs in the text itself.
\<close>

subsection \<open>White space and stripping\<close>

definition is_space :: "nat \<Rightarrow> bool" where
  "is_space c \<longleftrightarrow>
     9 \<le> c \<and> c \<le> 13 \<or> 28 \<le> c \<and> c \<le> 32 \<or>
     c \<in> set [133, 160, 5760, 8232, 8233, 8239, 8287, 12288] \<or> 8192 \<le> c \<and> c \<le> 8202"

definition lstrip :: "ustr \<Rightarrow> ustr" where
  "lstrip s = dropWhile is_space s"

definition rstrip :: "ustr \<Rightarrow> ustr" where
  "rstrip s = rev (dropWhile is_space (rev s))"

definition strip :: "ustr \<Rightarrow> ustr" where
  "strip s = rstrip (lstrip s)"

subsection \<open>Lower case\<close>

text \<open>
  Rows \<open>(first, last, step, delta)\<close> of simple lower case mappings outside ASCII: every
  \<open>step\<close>-th code point from \<open>first\<close> to \<open>last\<close> moves by \<open>delta\<close>.  The capital sigma always
  becomes the small one: the final form Python picks at the end of a word is left out, since
  lower case serves keyword searches only and no keyword holds either.
\<close>

definition lower_table :: "(nat \<times> nat \<times> nat \<times> int) list" where
  "lower_table =
    [(192, 214, 1, 32), (216, 222, 1, 32), (256, 302, 2, 1), (306, 310, 2, 1),
     (313, 327, 2, 1), (330, 374, 2, 1), (376, 376, 1, -121), (377, 381, 2, 1),
     (385, 385, 1, 210), (386, 388, 2, 1), (390, 390, 1, 206), (391, 391, 1, 1),
     (393, 394, 1, 205), (395, 395, 1, 1), (398, 398, 1, 79), (399, 399, 1, 202),
     (400, 400, 1, 203), (401, 401, 1, 1), (403, 403, 1, 205), (404, 404, 1, 207),
     (406, 406, 1, 211), (407, 407, 1, 209), (408, 408, 1, 1), (412, 412, 1, 211),
     (413, 413, 1, 213), (415, 415, 1, 214), (416, 420, 2, 1), (422, 422, 1, 218),
     (423, 423, 1, 1), (425, 425, 1, 218), (428, 428, 1, 1), (430, 430, 1, 218),
     (431, 431, 1, 1), (433, 434, 1, 217), (435, 437, 2, 1), (439, 439, 1, 219),
     (440, 440, 1, 1), (444, 444, 1, 1), (452, 452, 1, 2), (453, 453, 1, 1),
     (455, 455, 1, 2), (456, 456, 1, 1), (458, 458, 1, 2), (459, 475, 2, 1),
     (478, 494, 2, 1), (497, 497, 1, 2), (498, 500, 2, 1), (502, 502, 1, -97),
     (503, 503, 1, -56), (504, 542, 2, 1), (544, 544, 1, -130), (546, 562, 2, 1),
     (570, 570, 1, 10795), (571, 571, 1, 1), (573, 573, 1, -163), (574, 574, 1, 10792),
     (577, 577, 1, 1), (579, 579, 1, -195), (580, 580, 1, 69), (581, 581, 1, 71),
     (582, 590, 2, 1), (880, 882, 2, 1), (886, 886, 1, 1), (895, 895, 1, 116),
     (902, 902, 1, 38), (904, 906, 1, 37), (908, 908, 1, 64), (910, 911, 1, 63),
     (913, 929, 1, 32), (931, 939, 1, 32), (975, 975, 1, 8), (984, 1006, 2, 1),
     (1012, 1012, 1, -60), (1015, 1015, 1, 1), (1017, 1017, 1, -7), (1018, 1018, 1, 1),
     (1021, 1023, 1, -130), (1024, 1039, 1, 80), (1040, 1071, 1, 32), (1120, 1152, 2, 1),
     (1162, 1214, 2, 1), (1216, 1216, 1, 15), (1217, 1229, 2, 1), (1232, 1326, 2, 1),
     (1329, 1366, 1, 48), (4256, 4293, 1, 7264), (4295, 4295, 1, 7264),
     (4301, 4301, 1, 7264), (5024, 5103, 1, 38864), (5104, 5109, 1, 8),
     (7312, 7354, 1, -3008), (7357, 7359, 1, -3008), (7680, 7828, 2, 1),
     (7838, 7838, 1, -7615), (7840, 7934, 2, 1), (7944, 7951, 1, -8), (7960, 7965, 1, -8),
     (7976, 7983, 1, -8), (7992, 7999, 1, -8), (8008, 8013, 1, -8), (8025, 8031, 2, -8),
     (8040, 8047, 1, -8), (8072, 8079, 1, -8), (8088, 8095, 1, -8), (8104, 8111, 1, -8),
     (8120, 8121, 1, -8), (8122, 8123, 1, -74), (8124, 8124, 1, -9), (8136, 8139, 1, -86),
     (8140, 8140, 1, -9), (8152, 8153, 1, -8), (8154, 8155, 1, -100), (8168, 8169, 1, -8),
     (8170, 8171, 1, -112), (8172, 8172, 1, -7), (8184, 8185, 1, -128),
     (8186, 8187, 1, -126), (8188, 8188, 1, -9), (8486, 8486, 1, -7517),
     (8490, 8490, 1, -8383), (8491, 8491, 1, -8262), (8498, 8498, 1, 28),
     (8544, 8559, 1, 16), (8579, 8579, 1, 1), (9398, 9423, 1, 26), (11264, 11311, 1, 48),
     (11360, 11360, 1, 1), (11362, 11362, 1, -10743), (11363, 11363, 1, -3814),
     (11364, 11364, 1, -10727), (11367, 11371, 2, 1), (11373, 11373, 1, -10780),
     (11374, 11374, 1, -10749), (11375, 11375, 1, -10783), (11376, 11376, 1, -10782),
     (11378, 11378, 1, 1), (11381, 11381, 1, 1), (11390, 11391, 1, -10815),
     (11392, 11490, 2, 1), (11499, 11501, 2, 1), (11506, 11506, 1, 1),
     (42560, 42604, 2, 1), (42624, 42650, 2, 1), (42786, 42798, 2, 1),
     (42802, 42862, 2, 1), (42873, 42875, 2, 1), (42877, 42877, 1, -35332),
     (42878, 42886, 2, 1), (42891, 42891, 1, 1), (42893, 42893, 1, -42280),
     (42896, 42898, 2, 1), (42902, 42920, 2, 1), (42922, 42922, 1, -42308),
     (42923, 42923, 1, -42319), (42924, 42924, 1, -42315), (42925, 42925, 1, -42305),
     (42926, 42926, 1, -42308), (42928, 42928, 1, -42258), (42929, 42929, 1, -42282),
     (42930, 42930, 1, -42261), (42931, 42931, 1, 928), (42932, 42946, 2, 1),
     (42948, 42948, 1, -48), (42949, 42949, 1, -42307), (42950, 42950, 1, -35384),
     (42951, 42953, 2, 1), (42960, 42960, 1, 1), (42966, 42968, 2, 1),
     (42997, 42997, 1, 1), (65313, 65338, 1, 32), (66560, 66599, 1, 40),
     (66736, 66771, 1, 40), (66928, 66938, 1, 39), (66940, 66954, 1, 39),
     (66956, 66962, 1, 39), (66964, 66965, 1, 39), (68736, 68786, 1, 64),
     (71840, 71871, 1, 32), (93760, 93791, 1, 32), (125184, 125217, 1, 34)]"

definition lower_cp :: "nat \<Rightarrow> ustr" where
  "lower_cp c =
     (if c < 128 then (if 65 \<le> c \<and> c \<le> 90 then [c + 32] else [c])
      else if c = 304 then [105, 775]
      else (case find (\<lambda>(a, b, st, d). a \<le> c \<and> c \<le> b \<and> (c - a) mod st = 0) lower_table of
              None \<Rightarrow> [c]
            | Some (a, b, st, d) \<Rightarrow> [nat (int c + d)]))"

definition lower :: "ustr \<Rightarrow> ustr" where
  "lower s = concat (map lower_cp s)"

subsection \<open>Splitting and joining\<close>

text \<open>\<^verbatim>\<open>s.split()\<close>: the maximal runs without white space.\<close>

function split_ws :: "ustr \<Rightarrow> ustr list" where
  "split_ws s =
     (case dropWhile is_space s of
        [] \<Rightarrow> []
      | c # t \<Rightarrow>
          takeWhile (\<lambda>x. \<not> is_space x) (c # t) # split_ws (dropWhile (\<lambda>x. \<not> is_space x) t))"
  by pat_completeness auto
termination
proof (relation "measure length", simp, goal_cases)
  case (1 s c t)
  have "length (dropWhile (\<lambda>x. \<not> is_space x) t) \<le> length t"
    by (rule length_dropWhile_le)
  also have "\<dots> < length (dropWhile is_space s)" using 1 by simp
  also have "\<dots> \<le> length s" by (rule length_dropWhile_le)
  finally show ?case by simp
qed

declare split_ws.simps [simp del]

text \<open>\<^verbatim>\<open>sep.join(parts)\<close>.\<close>

fun join :: "ustr \<Rightarrow> ustr list \<Rightarrow> ustr" where
  "join sep [] = []"
| "join sep [x] = x"
| "join sep (x # y # xs) = x @ sep @ join sep (y # xs)"

abbreviation newline :: ustr where
  "newline \<equiv> [10]"

text \<open>A text literal of several lines, as the source writes it between triple quotes.\<close>

definition lines :: "string list \<Rightarrow> ustr" where
  "lines ls = join newline (map lit ls)"

definition is_break :: "nat \<Rightarrow> bool" where
  "is_break c \<longleftrightarrow> 10 \<le> c \<and> c \<le> 13 \<or> 28 \<le> c \<and> c \<le> 30 \<or> c \<in> set [133, 8232, 8233]"

text \<open>
  \<^verbatim>\<open>s.splitlines(keepends=True)\<close>: the argument \<open>acc\<close> holds the current line, reversed.
  A carriage return followed by a line feed is one boundary.
\<close>

fun lines_acc :: "ustr \<Rightarrow> ustr \<Rightarrow> ustr list" where
  "lines_acc acc [] = (if acc = [] then [] else [rev acc])"
| "lines_acc acc (c # s) =
     (if is_break c \<and> \<not> (c = 13 \<and> s \<noteq> [] \<and> hd s = 10)
      then rev (c # acc) # lines_acc [] s
      else lines_acc (c # acc) s)"

definition splitlines_keep :: "ustr \<Rightarrow> ustr list" where
  "splitlines_keep s = lines_acc [] s"

text \<open>\<^verbatim>\<open>textwrap.indent(text, prefix)\<close>: lines of white space only are left alone.\<close>

definition indent_line :: "ustr \<Rightarrow> ustr \<Rightarrow> ustr" where
  "indent_line pre l = (if strip l \<noteq> [] then pre @ l else l)"

definition indent :: "ustr \<Rightarrow> ustr \<Rightarrow> ustr" where
  "indent s pre = concat (map (indent_line pre) (splitlines_keep s))"

subsection \<open>Integers as text\<close>

fun show_nat :: "nat \<Rightarrow> ustr" where
  "show_nat n = (if n < 10 then [48 + n] else show_nat (n div 10) @ [48 + n mod 10])"

declare show_nat.simps [simp del]

definition show_int :: "int \<Rightarrow> ustr" where
  "show_int i = (if i < 0 then lit ''-'' @ show_nat (nat (- i)) else show_nat (nat i))"

definition is_digit :: "nat \<Rightarrow> bool" where
  "is_digit c \<longleftrightarrow> 48 \<le> c \<and> c \<le> 57"

definition digits_val :: "ustr \<Rightarrow> nat" where
  "digits_val ds = foldl (\<lambda>n d. 10 * n + (d - 48)) 0 ds"

subsection \<open>Laws of stripping\<close>

lemma dropWhile_hd: "dropWhile P s \<noteq> [] \<Longrightarrow> \<not> P (hd (dropWhile P s))"
  by (rule hd_dropWhile)

lemma strip_Nil [simp]: "strip [] = []"
  by (simp add: strip_def lstrip_def rstrip_def)

lemma rstrip_decomp: "\<exists>w. s = rstrip s @ w \<and> (\<forall>c \<in> set w. is_space c)"
proof -
  have "rev s = takeWhile is_space (rev s) @ dropWhile is_space (rev s)" by simp
  then have "s = rstrip s @ rev (takeWhile is_space (rev s))"
    unfolding rstrip_def by (metis rev_append rev_rev_ident)
  moreover have "\<forall>c \<in> set (rev (takeWhile is_space (rev s))). is_space c"
    by (auto dest: set_takeWhileD)
  ultimately show ?thesis by blast
qed

lemma lstrip_decomp: "\<exists>v. s = v @ lstrip s \<and> (\<forall>c \<in> set v. is_space c)"
  unfolding lstrip_def by (metis set_takeWhileD takeWhile_dropWhile_id)

lemma strip_decomp:
  "\<exists>v w. s = v @ strip s @ w \<and> (\<forall>c \<in> set v. is_space c) \<and> (\<forall>c \<in> set w. is_space c)"
  unfolding strip_def by (metis append_assoc lstrip_decomp rstrip_decomp)

lemma hd_lstrip: "lstrip s \<noteq> [] \<Longrightarrow> \<not> is_space (hd (lstrip s))"
  by (simp add: lstrip_def hd_dropWhile)

lemma last_rstrip: "rstrip s \<noteq> [] \<Longrightarrow> \<not> is_space (last (rstrip s))"
  by (simp add: rstrip_def last_rev hd_dropWhile)

lemma hd_rstrip: "rstrip s \<noteq> [] \<Longrightarrow> hd (rstrip s) = hd s"
  by (metis hd_append2 rstrip_decomp)

lemma strip_ends:
  assumes "strip s \<noteq> []"
  shows "\<not> is_space (hd (strip s))" "\<not> is_space (last (strip s))"
proof -
  from assms have ne: "rstrip (lstrip s) \<noteq> []" by (simp add: strip_def)
  then have "lstrip s \<noteq> []" by (auto simp: rstrip_def)
  with ne show "\<not> is_space (hd (strip s))"
    by (simp add: strip_def hd_rstrip hd_lstrip)
  from ne show "\<not> is_space (last (strip s))"
    by (simp add: strip_def last_rstrip)
qed

text \<open>A text that starts and ends with other characters is left alone.\<close>

lemma strip_fixed:
  assumes "s = [] \<or> \<not> is_space (hd s) \<and> \<not> is_space (last s)"
  shows "strip s = s"
proof (cases "s = []")
  case False
  with assms have "lstrip s = s"
    by (cases s) (auto simp: lstrip_def)
  moreover from assms False have "rstrip s = s"
    by (cases s rule: rev_cases) (auto simp: rstrip_def)
  ultimately show ?thesis by (simp add: strip_def)
qed simp

lemma strip_strip [simp]: "strip (strip s) = strip s"
  using strip_ends strip_fixed by blast

lemma set_strip: "set (strip s) \<subseteq> set s"
proof -
  obtain v w where "s = v @ strip s @ w" using strip_decomp [of s] by blast
  then have "set s = set v \<union> set (strip s) \<union> set w" by (metis Un_assoc set_append)
  then show ?thesis by blast
qed

lemma strip_eq_Nil: "strip s = [] \<longleftrightarrow> (\<forall>c \<in> set s. is_space c)"
proof
  assume "strip s = []"
  then show "\<forall>c \<in> set s. is_space c" using strip_decomp [of s] by auto
next
  assume *: "\<forall>c \<in> set s. is_space c"
  show "strip s = []"
  proof (rule ccontr)
    assume ne: "strip s \<noteq> []"
    then have "hd (strip s) \<in> set s" using set_strip [of s] by auto
    then show False using * strip_ends(1) [OF ne] by blast
  qed
qed

lemma strip_pad:
  assumes "\<forall>c \<in> set v. is_space c" "\<forall>c \<in> set w. is_space c"
    and "s = [] \<or> \<not> is_space (hd s) \<and> \<not> is_space (last s)"
  shows "strip (v @ s @ w) = s"
proof (cases "s = []")
  case True
  with assms show ?thesis by (auto simp: strip_eq_Nil)
next
  case False
  with assms have "lstrip (v @ s @ w) = s @ w"
    by (cases s) (auto simp: lstrip_def dropWhile_append2)
  moreover have "rstrip (s @ w) = s"
  proof -
    have "dropWhile is_space (rev w @ rev s) = dropWhile is_space (rev s)"
      by (rule dropWhile_append2) (use assms(2) in auto)
    then have "dropWhile is_space (rev (s @ w)) = dropWhile is_space (rev s)" by simp
    also have "\<dots> = rev s"
      using assms(3) False by (cases s rule: rev_cases) auto
    finally show ?thesis by (simp add: rstrip_def)
  qed
  ultimately show ?thesis by (simp add: strip_def)
qed

subsection \<open>Laws of lower case\<close>

lemma lower_Nil [simp]: "lower [] = []"
  by (simp add: lower_def)

lemma lower_Cons: "lower (c # s) = lower_cp c @ lower s"
  by (simp add: lower_def)

lemma lower_append [simp]: "lower (s @ t) = lower s @ lower t"
  by (simp add: lower_def)

lemma lower_concat: "lower (concat ss) = concat (map lower ss)"
  by (induction ss) auto

lemma lower_cp_ascii: "c < 128 \<Longrightarrow> lower_cp c = [if 65 \<le> c \<and> c \<le> 90 then c + 32 else c]"
  by (simp add: lower_cp_def)

lemma is_break_iff: "is_break c \<longleftrightarrow> c \<in> set [10, 11, 12, 13, 28, 29, 30, 133, 8232, 8233]"
  by (auto simp: is_break_def)

lemma lower_cp_wide_break:
  "lower_cp 133 = [133]" "lower_cp 8232 = [8232]" "lower_cp 8233 = [8233]"
  by (simp_all add: lower_cp_def lower_table_def)

lemma lower_break: "is_break b \<Longrightarrow> lower [b] = [b]"
  by (auto simp: is_break_iff lower_Cons lower_cp_ascii lower_cp_wide_break)

lemma lower_spaces [simp]: "lower (replicate n 32) = replicate n 32"
  by (induction n) (simp_all add: lower_Cons lower_cp_ascii)

subsection \<open>Laws of line splitting and indentation\<close>

lemma concat_lines_acc: "concat (lines_acc acc s) = rev acc @ s"
  by (induction acc s rule: lines_acc.induct) auto

lemma concat_splitlines_keep [simp]: "concat (splitlines_keep s) = s"
  by (simp add: splitlines_keep_def concat_lines_acc)

definition ends_in_break :: "ustr \<Rightarrow> bool" where
  "ends_in_break l \<longleftrightarrow> l \<noteq> [] \<and> is_break (last l)"

lemma lines_acc_breaks: "l \<in> set (butlast (lines_acc acc s)) \<Longrightarrow> ends_in_break l"
  by (induction acc s rule: lines_acc.induct) (auto simp: ends_in_break_def split: if_splits)

lemma splitlines_breaks: "l \<in> set (butlast (splitlines_keep s)) \<Longrightarrow> ends_in_break l"
  by (simp add: splitlines_keep_def lines_acc_breaks)

lemma lower_ends_in_break: "ends_in_break l \<Longrightarrow> ends_in_break (lower l)"
  by (cases l rule: rev_cases) (auto simp: ends_in_break_def lower_break)

text \<open>
  The law behind the security argument of the normaliser: padding the start of lines with
  spaces neither creates nor hides a keyword that has no line boundary in it and does not
  start with a space.
\<close>

lemma sublist_padded_lines:
  assumes "list_all2 (\<lambda>l' l. \<exists>n. l' = replicate n 32 @ l) ls' ls"
    and "\<forall>l \<in> set (butlast ls). ends_in_break l"
    and "\<forall>c \<in> set k. \<not> is_break c" and "k = [] \<or> hd k \<noteq> 32"
  shows "sublist k (concat ls') \<longleftrightarrow> sublist k (concat ls)"
  using assms(1,2)
proof (induction rule: list_all2_induct)
  case (Cons l' ls' l ls)
  obtain n where l': "l' = replicate n 32 @ l" using Cons.hyps(1) by blast
  have pad: "sublist k (replicate n 32 @ m) \<longleftrightarrow> sublist k m" for m
    using assms(4) sublist_drop_replicate sublist_appendI2 by metis
  show ?case
  proof (cases "ls = []")
    case True
    with Cons.hyps(2) l' pad show ?thesis by simp
  next
    case False
    with Cons.prems have br: "ends_in_break l" and rest: "\<forall>l \<in> set (butlast ls). ends_in_break l"
      by auto
    from br obtain u b where l: "l = u @ [b]" and b: "is_break b"
      by (metis append_butlast_last_id ends_in_break_def)
    then have nb: "b \<notin> set k" using assms(3) by auto
    have split: "sublist k (xs @ b # ys) \<longleftrightarrow> sublist k xs \<or> sublist k ys" for xs ys
      by (rule sublist_around_sep [OF nb])
    have "sublist k (concat (l' # ls')) \<longleftrightarrow> sublist k ((replicate n 32 @ u) @ b # concat ls')"
      by (simp add: l' l)
    also have "\<dots> \<longleftrightarrow> sublist k u \<or> sublist k (concat ls')"
      by (simp only: split pad)
    also have "\<dots> \<longleftrightarrow> sublist k (concat (l # ls))"
      using Cons.IH [OF rest] split [of u "concat ls"] by (simp add: l)
    finally show ?thesis .
  qed
qed simp

lemma indent_padded:
  "list_all2 (\<lambda>l' l. \<exists>n. l' = replicate n 32 @ l) (map (indent_line (replicate n 32)) ls) ls"
  by (induction ls) (auto simp: indent_line_def intro: exI [of _ n] exI [of _ 0])

lemma sublist_indent:
  assumes "\<forall>c \<in> set k. \<not> is_break c" and "k = [] \<or> hd k \<noteq> 32"
  shows "in_text k (indent s (replicate n 32)) \<longleftrightarrow> in_text k s"
  using sublist_padded_lines [OF indent_padded _ assms, of "splitlines_keep s" n]
  by (simp add: indent_def splitlines_breaks)

lemma indent_padded_lower:
  "list_all2 (\<lambda>l' l. \<exists>n. l' = replicate n 32 @ l)
     (map (lower \<circ> indent_line (replicate n 32)) ls) (map lower ls)"
  by (induction ls) (auto simp: indent_line_def intro: exI [of _ n] exI [of _ 0])

lemma sublist_lower_indent:
  assumes "\<forall>c \<in> set k. \<not> is_break c" and "k = [] \<or> hd k \<noteq> 32"
  shows "in_text k (lower (indent s (replicate n 32))) \<longleftrightarrow> in_text k (lower s)"
proof -
  have low: "lower s = concat (map lower (splitlines_keep s))"
    by (simp flip: lower_concat)
  have "\<forall>l \<in> set (butlast (map lower (splitlines_keep s))). ends_in_break l"
    by (auto simp flip: map_butlast intro: lower_ends_in_break splitlines_breaks)
  from sublist_padded_lines [OF indent_padded_lower this assms, of n] show ?thesis
    by (simp add: indent_def lower_concat low)
qed

lemma indent_Nil [simp]: "indent [] pre = []"
  by (simp add: indent_def splitlines_keep_def)

subsection \<open>Laws of joining, splitting and numbers\<close>

lemma sublist_join: "x \<in> set xs \<Longrightarrow> in_text x (join sep xs)"
  by (induction sep xs rule: join.induct) (auto intro: sublist_appendI1 sublist_appendI2)

lemma join_Nil_iff: "join sep xs = [] \<longleftrightarrow> xs = [] \<or> (xs = [[]] \<or> (sep = [] \<and> concat xs = []))"
  by (induction sep xs rule: join.induct) auto

lemma split_ws_Nil [simp]: "split_ws [] = []"
  by (simp add: split_ws.simps)

lemma split_ws_words: "w \<in> set (split_ws s) \<Longrightarrow> w \<noteq> [] \<and> (\<forall>c \<in> set w. \<not> is_space c)"
proof (induction s rule: split_ws.induct)
  case (1 s)
  show ?case
  proof (cases "dropWhile is_space s")
    case Nil
    with "1.prems" show ?thesis by (simp add: split_ws.simps [of s])
  next
    case (Cons c t)
    then have "\<not> is_space c" by (metis dropWhile_hd list.discI list.sel(1))
    define v where "v = split_ws (dropWhile (\<lambda>x. \<not> is_space x) t)"
    have IH: "w \<in> set v \<Longrightarrow> w \<noteq> [] \<and> (\<forall>c \<in> set w. \<not> is_space c)"
      unfolding v_def by (rule "1.IH" [OF Cons])
    have "split_ws s = (c # takeWhile (\<lambda>x. \<not> is_space x) t) # v"
      using Cons \<open>\<not> is_space c\<close> by (simp add: split_ws.simps [of s] v_def)
    with "1.prems" have "w = c # takeWhile (\<lambda>x. \<not> is_space x) t \<or> w \<in> set v" by simp
    then show ?thesis
      using IH \<open>\<not> is_space c\<close> by (auto dest: set_takeWhileD)
  qed
qed

lemma show_nat_nonempty [simp]: "show_nat n \<noteq> []"
  by (subst show_nat.simps) simp

lemma show_nat_digits: "c \<in> set (show_nat n) \<Longrightarrow> is_digit c"
proof (induction n rule: show_nat.induct)
  case (1 n)
  then show ?case
    by (cases "n < 10") (auto simp: show_nat.simps [of n] is_digit_def)
qed

lemma digits_val_snoc: "digits_val (ds @ [d]) = 10 * digits_val ds + (d - 48)"
  by (simp add: digits_val_def)

lemma digits_val_show_nat [simp]: "digits_val (show_nat n) = n"
proof (induction n rule: show_nat.induct)
  case (1 n)
  show ?case
  proof (cases "n < 10")
    case True
    then show ?thesis by (simp add: show_nat.simps [of n] digits_val_def)
  next
    case False
    then have "digits_val (show_nat n) = 10 * digits_val (show_nat (n div 10)) + n mod 10"
      by (simp add: show_nat.simps [of n] digits_val_snoc)
    with 1 False show ?thesis by simp
  qed
qed

text \<open>The decimal rendering has no superfluous zero in front.\<close>

lemma hd_show_nat: "hd (show_nat n) = 48 \<Longrightarrow> n = 0"
proof (induction n rule: show_nat.induct)
  case (1 n)
  show ?case
  proof (cases "n < 10")
    case True
    with 1 show ?thesis by (simp add: show_nat.simps [of n])
  next
    case False
    with 1 have "n div 10 = 0" by (simp add: show_nat.simps [of n])
    with False show ?thesis by simp
  qed
qed

lemma hd_show_nat_not_minus: "hd (show_nat n) \<noteq> 45"
proof -
  have "hd (show_nat n) \<in> set (show_nat n)" by simp
  then show ?thesis using show_nat_digits by (fastforce simp: is_digit_def)
qed

lemma show_nat_inject [simp]: "show_nat m = show_nat n \<longleftrightarrow> m = n"
  by (metis digits_val_show_nat)

lemma minus_show_nat: "lit ''-'' @ show_nat m \<noteq> show_nat n"
proof
  assume "lit ''-'' @ show_nat m = show_nat n"
  then have "hd (show_nat n) = hd (lit ''-'' @ show_nat m)" by simp
  also have "\<dots> = 45" by (simp add: lit_Cons)
  finally show False using hd_show_nat_not_minus by blast
qed

lemma show_int_inject: "show_int i = show_int j \<longleftrightarrow> i = j"
  using minus_show_nat [of "nat (- i)" "nat j"] minus_show_nat [of "nat (- j)" "nat i"]
  by (auto simp: show_int_def split: if_splits)

end
