(* ===== verification/PyDecimal.thy ===== *)
theory PyDecimal
  imports Complex_Main PyText
begin

text \<open>
  \<^verbatim>\<open>decimal.Decimal\<close> as the cost guard uses it: finite values \<open>c * 10 ^ e\<close>, addition and
  subtraction rounded half-even to the 28 digits of the default context, exact comparison and
  the standard text form. The exponent range of the context (\<^verbatim>\<open>Emin\<close>, \<^verbatim>\<open>Emax\<close>) and the sign
  of a zero are not modelled.

  The lemmas bound the rounding error, show that sums below 28 digits are exact, and that
  adding a non-negative amount never decreases a value, rounding included.
\<close>

datatype decimal = Dec (dec_coeff: int) (dec_exp: int)

definition dec_val :: "decimal \<Rightarrow> rat" where
  "dec_val d = of_int (dec_coeff d) * 10 powi dec_exp d"

definition dec_prec :: nat where
  "dec_prec = 28"

fun ndigits :: "nat \<Rightarrow> nat" where
  "ndigits n = (if n < 10 then 1 else Suc (ndigits (n div 10)))"

declare ndigits.simps [simp del]

text \<open>Division rounded to the nearest integer, ties to even (\<^verbatim>\<open>ROUND_HALF_EVEN\<close>).\<close>

definition half_even_div :: "nat \<Rightarrow> nat \<Rightarrow> nat" where
  "half_even_div n d =
     (let q = n div d; r = n mod d
      in if 2 * r < d \<or> 2 * r = d \<and> even q then q else q + 1)"

definition dec_fix :: "decimal \<Rightarrow> decimal" where
  "dec_fix d =
     (let n = nat \<bar>dec_coeff d\<bar>; k = ndigits n; j = k - dec_prec; m = half_even_div n (10 ^ j)
      in if k \<le> dec_prec then d
         else if m = 10 ^ dec_prec
              then Dec (sgn (dec_coeff d) * 10 ^ (dec_prec - 1)) (dec_exp d + int j + 1)
              else Dec (sgn (dec_coeff d) * int m) (dec_exp d + int j))"

text \<open>The coefficient of a value written with the exponent \<open>e\<close>, which is at most its own.\<close>

definition dec_scaled :: "int \<Rightarrow> decimal \<Rightarrow> int" where
  "dec_scaled e d = dec_coeff d * 10 ^ nat (dec_exp d - e)"

definition dec_add :: "decimal \<Rightarrow> decimal \<Rightarrow> decimal" where
  "dec_add a b =
     (let e = min (dec_exp a) (dec_exp b) in dec_fix (Dec (dec_scaled e a + dec_scaled e b) e))"

definition dec_sub :: "decimal \<Rightarrow> decimal \<Rightarrow> decimal" where
  "dec_sub a b =
     (let e = min (dec_exp a) (dec_exp b) in dec_fix (Dec (dec_scaled e a - dec_scaled e b) e))"

definition dec_less :: "decimal \<Rightarrow> decimal \<Rightarrow> bool" where
  "dec_less a b = (let e = min (dec_exp a) (dec_exp b) in dec_scaled e a < dec_scaled e b)"

definition dec_zero :: decimal where
  "dec_zero = Dec 0 0"

definition show_signed :: "int \<Rightarrow> ustr" where
  "show_signed i = (if i < 0 then show_int i else lit ''+'' @ show_int i)"

text \<open>\<^verbatim>\<open>str(d)\<close>.\<close>

definition dec_str :: "decimal \<Rightarrow> ustr" where
  "dec_str d =
     (let ds = show_nat (nat \<bar>dec_coeff d\<bar>); n = int (length ds);
          left = dec_exp d + n;
          dot = (if dec_exp d \<le> 0 \<and> left > -6 then left else 1);
          zeros = (\<lambda>k. replicate (nat k) 48);
          body = (if dot \<le> 0 then lit ''0.'' @ zeros (- dot) @ ds
                  else if dot \<ge> n then ds @ zeros (dot - n)
                  else take (nat dot) ds @ lit ''.'' @ drop (nat dot) ds);
          ex = (if left = dot then [] else lit ''E'' @ show_signed (left - dot))
      in (if dec_coeff d < 0 then lit ''-'' else []) @ body @ ex)"

subsection \<open>Digit counts and rounding division\<close>

lemma ndigits_bounds: "n < 10 ^ ndigits n \<and> (0 < n \<longrightarrow> 10 ^ (ndigits n - 1) \<le> n)"
proof (induction n rule: ndigits.induct)
  case (1 n)
  show ?case
  proof (cases "n < 10")
    case True
    then show ?thesis by (simp add: ndigits.simps [of n])
  next
    case False
    let ?m = "n div 10"
    from False have m: "0 < ?m" and nd: "ndigits n = Suc (ndigits ?m)"
      by (simp_all add: ndigits.simps [of n])
    from 1 False m have IH: "?m < 10 ^ ndigits ?m" "10 ^ (ndigits ?m - 1) \<le> ?m" by auto
    have pos: "0 < ndigits ?m" by (simp add: ndigits.simps [of ?m])
    have "n < 10 * 10 ^ ndigits ?m" using IH(1) by (simp add: div_less_iff_less_mult mult.commute)
    moreover have "10 * 10 ^ (ndigits ?m - 1) \<le> n"
      using IH(2) mult_le_mono2 [OF IH(2), of 10] by (meson div_times_less_eq_dividend le_trans times_div_less_eq_dividend)
    moreover have "10 * 10 ^ (ndigits ?m - 1) = (10::nat) ^ ndigits ?m"
      using pos by (cases "ndigits ?m") simp_all
    ultimately show ?thesis by (simp add: nd)
  qed
qed

lemma ndigits_upper: "n < 10 ^ ndigits n"
  using ndigits_bounds by blast

lemma ndigits_lower: "0 < n \<Longrightarrow> 10 ^ (ndigits n - 1) \<le> n"
  using ndigits_bounds by blast

lemma ndigits_pos: "0 < ndigits n"
  by (simp add: ndigits.simps [of n])

lemma ndigits_le: "n < 10 ^ k \<Longrightarrow> 0 < k \<Longrightarrow> ndigits n \<le> k"
proof (rule ccontr)
  assume n: "n < 10 ^ k" and k: "0 < k" and "\<not> ndigits n \<le> k"
  then have "k \<le> ndigits n - 1" and "0 < n"
    by (auto simp: ndigits.simps [of n] split: if_splits)
  then have "(10::nat) ^ k \<le> 10 ^ (ndigits n - 1)" by (intro power_increasing) auto
  with ndigits_lower [OF \<open>0 < n\<close>] n show False by linarith
qed

lemma half_even_div_cases: "half_even_div n d = n div d \<or> half_even_div n d = n div d + 1"
  by (simp add: half_even_div_def Let_def)

lemma half_even_div_ge: "n div d \<le> half_even_div n d"
  using half_even_div_cases [of n d] by auto

text \<open>The rounded quotient is within half a unit of the exact one.\<close>

lemma half_even_div_error:
  assumes "0 < d"
  shows "2 * \<bar>int (half_even_div n d) * int d - int n\<bar> \<le> int d"
proof -
  define q r where "q = n div d" and "r = n mod d"
  have n: "int n = int q * int d + int r"
    unfolding q_def r_def by (metis div_mult_mod_eq of_nat_add of_nat_mult)
  have "r < d" using assms by (simp add: r_def)
  moreover have "half_even_div n d = (if 2 * r < d \<or> 2 * r = d \<and> even q then q else q + 1)"
    by (simp add: half_even_div_def Let_def q_def r_def)
  ultimately show ?thesis by (auto simp: n algebra_simps)
qed

subsection \<open>Values\<close>

lemma dec_scaled_val:
  assumes "e \<le> dec_exp d"
  shows "of_int (dec_scaled e d) * 10 powi e = dec_val d"
proof -
  have "(10::rat) ^ nat (dec_exp d - e) * 10 powi e = 10 powi (dec_exp d - e) * 10 powi e"
    using assms by (simp add: power_int_def)
  also have "\<dots> = 10 powi dec_exp d" by (simp flip: power_int_add)
  finally show ?thesis by (simp add: dec_scaled_def dec_val_def mult.assoc)
qed

lemma dec_less_val: "dec_less a b \<longleftrightarrow> dec_val a < dec_val b"
proof -
  define e where "e = min (dec_exp a) (dec_exp b)"
  have "dec_val a = of_int (dec_scaled e a) * 10 powi e"
    and "dec_val b = of_int (dec_scaled e b) * 10 powi e"
    by (simp_all add: dec_scaled_val e_def)
  moreover have "(0::rat) < 10 powi e" by simp
  ultimately show ?thesis
    by (simp add: dec_less_def Let_def flip: e_def)
qed

text \<open>
  Python orders decimals by value, so \<^verbatim>\<open>Decimal("1.0")\<close> and \<^verbatim>\<open>Decimal("1.00")\<close> are below each other: a
  preorder of the library.
\<close>

instantiation decimal :: preorder
begin

definition less_eq_decimal :: "decimal \<Rightarrow> decimal \<Rightarrow> bool" where
  "less_eq_decimal a b \<longleftrightarrow> \<not> dec_less b a"

definition less_decimal :: "decimal \<Rightarrow> decimal \<Rightarrow> bool" where
  "less_decimal a b \<longleftrightarrow> dec_less a b"

instance
  by standard (auto simp: less_eq_decimal_def less_decimal_def dec_less_val)

end

lemma dec_le_val: "a \<le> b \<longleftrightarrow> dec_val a \<le> dec_val b" for a b :: decimal
  by (auto simp: less_eq_decimal_def dec_less_val)

lemma dec_lt_val: "a < b \<longleftrightarrow> dec_val a < dec_val b" for a b :: decimal
  by (simp add: less_decimal_def dec_less_val)

lemma dec_val_zero [simp]: "dec_val dec_zero = 0"
  by (simp add: dec_val_def dec_zero_def)

lemma dec_val_nonneg: "0 \<le> dec_val d \<longleftrightarrow> 0 \<le> dec_coeff d"
proof -
  have pos: "(0::rat) < 10 powi dec_exp d" by simp
  show ?thesis
    using mult_le_cancel_right_pos [OF pos, of 0 "of_int (dec_coeff d)"] by (simp add: dec_val_def)
qed

text \<open>Values that fit the context's 28 digits: what every rounded operation returns.\<close>

definition dec_wf :: "decimal \<Rightarrow> bool" where
  "dec_wf d \<longleftrightarrow> nat \<bar>dec_coeff d\<bar> < 10 ^ dec_prec"

lemma dec_wf_zero [simp]: "dec_wf dec_zero"
  by (simp add: dec_wf_def dec_zero_def dec_prec_def)

text \<open>The three outcomes of rounding, with the rounded coefficient named.\<close>

lemma dec_fix_cases:
  obtains (exact) "ndigits (nat \<bar>dec_coeff d\<bar>) \<le> dec_prec" "dec_fix d = d"
  | (rounded) j m where "dec_prec + j = ndigits (nat \<bar>dec_coeff d\<bar>)" "0 < j"
      "m = half_even_div (nat \<bar>dec_coeff d\<bar>) (10 ^ j)" "dec_prec + j \<le> ndigits (nat \<bar>dec_coeff d\<bar>)"
      "dec_val (dec_fix d) = of_int (sgn (dec_coeff d) * int m) * 10 powi (dec_exp d + int j)"
      "dec_fix d = Dec (sgn (dec_coeff d) * int m) (dec_exp d + int j) \<and> m < 10 ^ dec_prec \<or>
       dec_fix d = Dec (sgn (dec_coeff d) * 10 ^ (dec_prec - 1)) (dec_exp d + int j + 1)"
proof (cases "ndigits (nat \<bar>dec_coeff d\<bar>) \<le> dec_prec")
  case True
  then show ?thesis by (intro exact) (simp_all add: dec_fix_def Let_def)
next
  case False
  define n where "n = nat \<bar>dec_coeff d\<bar>"
  define j where "j = ndigits n - dec_prec"
  define m where "m = half_even_div n (10 ^ j)"
  from False have j: "dec_prec + j = ndigits n" "0 < j" by (simp_all add: j_def n_def)
  have "n < 10 ^ dec_prec * 10 ^ j"
    using ndigits_upper [of n] by (simp add: j(1) flip: power_add)
  then have "n div 10 ^ j < 10 ^ dec_prec" by (simp add: less_mult_imp_div_less)
  then have m_le: "m \<le> 10 ^ dec_prec"
    using half_even_div_cases [of n "10 ^ j"] by (auto simp: m_def)
  have fixed: "dec_fix d =
      (if m = 10 ^ dec_prec then Dec (sgn (dec_coeff d) * 10 ^ (dec_prec - 1)) (dec_exp d + int j + 1)
       else Dec (sgn (dec_coeff d) * int m) (dec_exp d + int j))"
    using False by (simp add: dec_fix_def Let_def n_def j_def m_def)
  have carry: "(10::rat) ^ (dec_prec - 1) * 10 powi (dec_exp d + int j + 1) =
      10 ^ dec_prec * 10 powi (dec_exp d + int j)"
    by (simp add: power_int_add dec_prec_def)
  show ?thesis
  proof (rule rounded [of j m])
    show "dec_val (dec_fix d) = of_int (sgn (dec_coeff d) * int m) * 10 powi (dec_exp d + int j)"
      using carry by (simp add: fixed dec_val_def mult.assoc)
  qed (use j m_le fixed in \<open>auto simp: n_def m_def\<close>)
qed

lemma dec_fix_wf: "dec_wf (dec_fix d)"
proof (cases d rule: dec_fix_cases)
  case exact
  have "nat \<bar>dec_coeff d\<bar> < 10 ^ ndigits (nat \<bar>dec_coeff d\<bar>)" by (rule ndigits_upper)
  also have "(10::nat) ^ ndigits (nat \<bar>dec_coeff d\<bar>) \<le> 10 ^ dec_prec"
    using exact(1) by (intro power_increasing) auto
  finally show ?thesis using exact(2) by (simp add: dec_wf_def)
next
  case (rounded j m)
  have "nat \<bar>sgn (dec_coeff d) * int m\<bar> \<le> m" "nat \<bar>sgn (dec_coeff d) * 10 ^ (dec_prec - 1)\<bar> \<le> 10 ^ (dec_prec - 1)"
    by (auto simp: sgn_if abs_mult nat_power_eq)
  moreover have "(10::nat) ^ (dec_prec - 1) < 10 ^ dec_prec" by (simp add: dec_prec_def)
  ultimately show ?thesis using rounded(6) unfolding dec_wf_def
    by (metis decimal.sel(1) le_less_trans)
qed

lemma dec_fix_exact:
  assumes "nat \<bar>dec_coeff d\<bar> < 10 ^ dec_prec"
  shows "dec_fix d = d"
proof -
  have "ndigits (nat \<bar>dec_coeff d\<bar>) \<le> dec_prec"
    using assms by (intro ndigits_le) (simp_all add: dec_prec_def)
  then show ?thesis by (simp add: dec_fix_def Let_def)
qed

subsection \<open>Addition\<close>

definition dec_sum :: "decimal \<Rightarrow> decimal \<Rightarrow> decimal" where
  "dec_sum a b =
     (let e = min (dec_exp a) (dec_exp b) in Dec (dec_scaled e a + dec_scaled e b) e)"

lemma dec_add_sum: "dec_add a b = dec_fix (dec_sum a b)"
  by (simp add: dec_add_def dec_sum_def Let_def)

lemma dec_sum_val: "dec_val (dec_sum a b) = dec_val a + dec_val b"
  by (simp add: dec_sum_def Let_def dec_val_def [of "Dec _ _"] distrib_right dec_scaled_val)

lemma dec_add_wf: "dec_wf (dec_add a b)"
  by (simp add: dec_add_sum dec_fix_wf)

lemma dec_add_exact:
  "nat \<bar>dec_coeff (dec_sum a b)\<bar> < 10 ^ dec_prec \<Longrightarrow> dec_val (dec_add a b) = dec_val a + dec_val b"
  by (simp add: dec_add_sum dec_fix_exact dec_sum_val)

text \<open>
  Adding a non-negative amount to a value of at most 28 digits never decreases it, although
  the sum may be rounded down.  In units of the common exponent the value is
  \<open>t * 10 ^ p\<close> with \<open>t < 10 ^ 28\<close>; if it exceeds the smallest 28-digit coefficient of the
  rounded sum then it is itself a multiple of the rounding unit.
\<close>

lemma half_even_div_keeps_lower_bound:
  assumes t: "t < 10 ^ P" and A: "t * 10 ^ p \<le> n" and P: "0 < P"
    and n: "10 ^ (P + j - 1) \<le> n" and j: "0 < j"
  shows "t * 10 ^ p \<le> half_even_div n (10 ^ j) * 10 ^ j"
proof (cases "j \<le> p")
  case True
  then have "t * 10 ^ p = (t * 10 ^ (p - j)) * 10 ^ j"
    by (simp flip: power_add add: mult.assoc)
  moreover have "t * 10 ^ (p - j) \<le> n div 10 ^ j"
    using A calculation by (metis div_le_mono nonzero_mult_div_cancel_right power_not_zero zero_neq_numeral)
  ultimately show ?thesis using half_even_div_ge [of n "10 ^ j"]
    by (metis le_trans mult_le_mono1)
next
  case False
  then have "t * 10 ^ p \<le> t * 10 ^ (j - 1)"
    by (intro mult_le_mono2 power_increasing) auto
  also have "\<dots> \<le> 10 ^ P * 10 ^ (j - 1)" using t by (intro mult_le_mono1) simp
  also have "\<dots> = 10 ^ (P - 1) * (10 ^ j :: nat)"
    using P j by (simp flip: power_add)
  also have "\<dots> \<le> half_even_div n (10 ^ j) * 10 ^ j"
  proof (rule mult_le_mono1)
    have "(10::nat) ^ (P - 1) * 10 ^ j \<le> n" using n P by (simp flip: power_add)
    then have "(10::nat) ^ (P - 1) \<le> n div 10 ^ j"
      by (metis div_le_mono nonzero_mult_div_cancel_right power_not_zero zero_neq_numeral)
    also note half_even_div_ge
    finally show "(10::nat) ^ (P - 1) \<le> half_even_div n (10 ^ j)" .
  qed
  finally show ?thesis .
qed

lemma dec_add_mono:
  assumes a: "dec_wf a" "0 \<le> dec_coeff a" and b: "0 \<le> dec_coeff b"
  shows "dec_val a \<le> dec_val (dec_add a b)"
proof -
  let ?s = "dec_sum a b"
  define e where "e = min (dec_exp a) (dec_exp b)"
  define t p where "t = nat (dec_coeff a)" and "p = nat (dec_exp a - e)"
  have A: "dec_scaled e a = int (t * 10 ^ p)"
    using a(2) by (simp add: dec_scaled_def t_def p_def)
  have B: "0 \<le> dec_scaled e b" using b by (simp add: dec_scaled_def)
  have s: "dec_coeff ?s = dec_scaled e a + dec_scaled e b" "dec_exp ?s = e"
    by (simp_all add: dec_sum_def Let_def e_def)
  define n where "n = nat \<bar>dec_coeff ?s\<bar>"
  have n: "int n = dec_coeff ?s" using A B s by (simp add: n_def)
  have "int (t * 10 ^ p) \<le> int n" using A B s n by simp
  then have An: "t * 10 ^ p \<le> n" by (simp only: of_nat_le_iff)
  show ?thesis
  proof (cases ?s rule: dec_fix_cases)
    case exact
    then show ?thesis
      using b by (simp add: dec_add_sum dec_sum_val dec_val_nonneg)
  next
    case (rounded j m)
    have tP: "t < 10 ^ dec_prec" using a by (simp add: dec_wf_def t_def)
    have "0 < n" using rounded(1,2) n_def by (auto simp: dec_prec_def ndigits.simps [of 0])
    then have "10 ^ (dec_prec + j - 1) \<le> n"
      using ndigits_lower [of n] rounded(1) by (simp add: n_def)
    then have "t * 10 ^ p \<le> m * 10 ^ j"
      using half_even_div_keeps_lower_bound [OF tP An _ _ rounded(2)] rounded(3)
      by (simp add: n_def dec_prec_def)
    then have le: "(of_nat (t * 10 ^ p) :: rat) \<le> of_nat (m * 10 ^ j)"
      by (rule of_nat_mono)
    have "dec_val a = of_nat (t * 10 ^ p) * 10 powi e"
      using dec_scaled_val [of e a] A by (simp add: e_def)
    also have "\<dots> \<le> of_nat (m * 10 ^ j) * 10 powi e"
      using le by (intro mult_right_mono) auto
    also have "\<dots> = dec_val (dec_add a b)"
      using \<open>0 < n\<close> n by (simp add: dec_add_sum rounded(5) s(2) power_int_add)
    finally show ?thesis .
  qed
qed

lemma dec_add_coeff_nonneg:
  assumes "dec_wf a" "0 \<le> dec_coeff a" "0 \<le> dec_coeff b"
  shows "0 \<le> dec_coeff (dec_add a b)"
proof -
  have "0 \<le> dec_val a" using assms(2) by (simp add: dec_val_nonneg)
  also have "\<dots> \<le> dec_val (dec_add a b)" using assms by (rule dec_add_mono)
  finally show ?thesis by (simp add: dec_val_nonneg)
qed

lemma dec_fix_error:
  "2 * \<bar>dec_val (dec_fix d) - dec_val d\<bar> \<le>
     10 powi (dec_exp d + int (ndigits (nat \<bar>dec_coeff d\<bar>)) - int dec_prec) \<or>
   dec_fix d = d"
proof (cases d rule: dec_fix_cases)
  case exact
  then show ?thesis by simp
next
  case (rounded j m)
  define n where "n = nat \<bar>dec_coeff d\<bar>"
  have "2 * \<bar>int m * 10 ^ j - int n\<bar> \<le> 10 ^ j"
    using half_even_div_error [of "10 ^ j" n] by (simp add: rounded(3) n_def)
  then have err: "2 * \<bar>of_nat m * 10 ^ j - of_nat n\<bar> \<le> (10::rat) ^ j"
    by (metis (mono_tags) of_int_abs of_int_diff of_int_le_iff of_int_mult of_int_numeral of_int_of_nat_eq of_int_power)
  have coeff: "(of_int (dec_coeff d) :: rat) = of_int (sgn (dec_coeff d)) * of_nat n"
    by (simp add: n_def sgn_if)
  have nz: "dec_coeff d \<noteq> 0" using rounded(1,2) by (auto simp: dec_prec_def ndigits.simps [of 0])
  have "dec_val (dec_fix d) - dec_val d =
      of_int (sgn (dec_coeff d)) * (of_nat m * 10 ^ j - of_nat n) * 10 powi dec_exp d"
    by (simp add: rounded(5) dec_val_def [of d] coeff power_int_add algebra_simps)
  then have "\<bar>dec_val (dec_fix d) - dec_val d\<bar> = \<bar>of_nat m * 10 ^ j - of_nat n\<bar> * 10 powi dec_exp d"
    using nz by (simp add: abs_mult sgn_if)
  then have "2 * \<bar>dec_val (dec_fix d) - dec_val d\<bar> \<le> 10 ^ j * 10 powi dec_exp d"
    using mult_right_mono [OF err, of "10 powi dec_exp d"] by (simp add: mult.assoc)
  also have "\<dots> = 10 powi (dec_exp d + int j)" by (simp add: power_int_add)
  also have "dec_exp d + int j = dec_exp d + int (ndigits (nat \<bar>dec_coeff d\<bar>)) - int dec_prec"
    using rounded(1) by simp
  finally show ?thesis ..
qed

end
