(* ===== verification/PyFloat.thy ===== *)
theory PyFloat
  imports PyDecimal
begin

text \<open>
  Python floats: IEEE 754 binary64 values with round-to-nearest-even.  \<open>Fin s m e\<close> is
  \<open>(-1) ^ s * m * 2 ^ e\<close> with at most 53 bits in \<open>m\<close> and \<open>-1074 \<le> e \<le> 971\<close>; a zero is
  \<open>Fin s 0 0\<close>.  Arithmetic is exact rational arithmetic followed by one rounding
  (\<open>fl_of_ratio\<close>), and \<open>fl_repr\<close> is the shortest decimal that reads back as the same float,
  which is what \<^verbatim>\<open>str(x)\<close> and \<^verbatim>\<open>json.dumps\<close> print.
\<close>

datatype pyfloat = Fin bool nat int | Inf bool | NaN

fun bitlen :: "nat \<Rightarrow> nat" where
  "bitlen n = (if n = 0 then 0 else Suc (bitlen (n div 2)))"

declare bitlen.simps [simp del]

text \<open>\<open>n / d\<close> in units of \<open>2 ^ e\<close>, rounded half-even.\<close>

definition scale_div :: "nat \<Rightarrow> nat \<Rightarrow> int \<Rightarrow> nat" where
  "scale_div n d e = half_even_div (n * 2 ^ nat (- e)) (d * 2 ^ nat e)"

text \<open>
  The exponent of the last place: with \<open>l\<close> the difference of the bit lengths,
  \<open>2 ^ (l - 1) < n / d < 2 ^ (l + 1)\<close>, so one comparison decides the binade.
\<close>

definition ulp_exp :: "nat \<Rightarrow> nat \<Rightarrow> int" where
  "ulp_exp n d =
     (let e = int (bitlen n) - int (bitlen d) - 53
      in max (- 1074) (if d * 2 ^ nat e * 2 ^ 53 \<le> n * 2 ^ nat (- e) then e + 1 else e))"

definition fl_of_ratio :: "bool \<Rightarrow> nat \<Rightarrow> nat \<Rightarrow> pyfloat" where
  "fl_of_ratio s n d =
     (let e0 = ulp_exp n d; m0 = scale_div n d e0;
          (m, e) = (if m0 = 2 ^ 53 then (2 ^ 52, e0 + 1) else (m0, e0))
      in if m0 = 0 then Fin s 0 0 else if e > 971 then Inf s else Fin s m e)"

definition fl_of_int :: "int \<Rightarrow> pyfloat" where
  "fl_of_int i = fl_of_ratio (i < 0) (nat \<bar>i\<bar>) 1"

text \<open>The literal \<open>n * 10 ^ k\<close>.\<close>

definition fl_of_dec :: "bool \<Rightarrow> nat \<Rightarrow> int \<Rightarrow> pyfloat" where
  "fl_of_dec s n k = fl_of_ratio s (n * 10 ^ nat k) (10 ^ nat (- k))"

definition fl_zero :: pyfloat where
  "fl_zero = Fin False 0 0"

fun fl_num :: "pyfloat \<Rightarrow> nat" where
  "fl_num (Fin s m e) = m * 2 ^ nat e"
| "fl_num _ = 0"

fun fl_den :: "pyfloat \<Rightarrow> nat" where
  "fl_den (Fin s m e) = 2 ^ nat (- e)"
| "fl_den _ = 1"

fun fl_neg :: "pyfloat \<Rightarrow> bool" where
  "fl_neg (Fin s m e) = s"
| "fl_neg (Inf s) = s"
| "fl_neg NaN = False"

fun fl_val :: "pyfloat \<Rightarrow> rat" where
  "fl_val (Fin s m e) = (if s then -1 else 1) * of_nat m * 2 powi e"
| "fl_val _ = 0"

text \<open>\<^verbatim>\<open>bool(x)\<close>: only the zeros are false.\<close>

fun fl_truthy :: "pyfloat \<Rightarrow> bool" where
  "fl_truthy (Fin s m e) = (m \<noteq> 0)"
| "fl_truthy _ = True"

text \<open>\<^verbatim>\<open>a / b\<close> of two integers, with a positive divisor.\<close>

definition fl_div_int :: "int \<Rightarrow> nat \<Rightarrow> pyfloat" where
  "fl_div_int a b = fl_of_ratio (a < 0) (nat \<bar>a\<bar>) b"

fun fl_mul :: "pyfloat \<Rightarrow> pyfloat \<Rightarrow> pyfloat" where
  "fl_mul (Fin s m e) (Fin s' m' e') =
     fl_of_ratio (s \<noteq> s') (m * m' * 2 ^ nat (e + e')) (2 ^ nat (- (e + e')))"
| "fl_mul (Inf s) (Fin s' m' e') = (if m' = 0 then NaN else Inf (s \<noteq> s'))"
| "fl_mul (Fin s m e) (Inf s') = (if m = 0 then NaN else Inf (s \<noteq> s'))"
| "fl_mul (Inf s) (Inf s') = Inf (s \<noteq> s')"
| "fl_mul NaN _ = NaN"
| "fl_mul _ NaN = NaN"

fun fl_signed :: "bool \<Rightarrow> nat \<Rightarrow> int" where
  "fl_signed s m = (if s then - int m else int m)"

fun fl_add :: "pyfloat \<Rightarrow> pyfloat \<Rightarrow> pyfloat" where
  "fl_add (Fin s m e) (Fin s' m' e') =
     (let f = min e e';
          c = fl_signed s (m * 2 ^ nat (e - f)) + fl_signed s' (m' * 2 ^ nat (e' - f))
      in if c = 0 then Fin (s \<and> s') 0 0
         else fl_of_ratio (c < 0) (nat \<bar>c\<bar> * 2 ^ nat f) (2 ^ nat (- f)))"
| "fl_add (Inf s) (Fin s' m' e') = Inf s"
| "fl_add (Fin s m e) (Inf s') = Inf s'"
| "fl_add (Inf s) (Inf s') = (if s = s' then Inf s else NaN)"
| "fl_add NaN _ = NaN"
| "fl_add _ NaN = NaN"

text \<open>\<^verbatim>\<open>x <= y\<close>; false when either side is not a number.\<close>

fun fl_le :: "pyfloat \<Rightarrow> pyfloat \<Rightarrow> bool" where
  "fl_le (Fin s m e) (Fin s' m' e') = (fl_val (Fin s m e) \<le> fl_val (Fin s' m' e'))"
| "fl_le (Inf s) (Fin s' m' e') = s"
| "fl_le (Fin s m e) (Inf s') = (\<not> s')"
| "fl_le (Inf s) (Inf s') = (s \<or> \<not> s')"
| "fl_le _ _ = False"

subsection \<open>Shortest decimal text\<close>

text \<open>The decimal exponent \<open>E\<close> with \<open>10 ^ (E - 1) \<le> n / d < 10 ^ E\<close>.\<close>

definition dec_point :: "nat \<Rightarrow> nat \<Rightarrow> int" where
  "dec_point n d =
     (if d \<le> n then int (ndigits (n div d))
      else 1 - int (ndigits ((d + n - 1) div n - 1)))"

text \<open>
  The decimals of \<open>k\<close> digits next to the value, below and above; the nearer one that reads
  back as the float is chosen.
\<close>

definition repr_try :: "pyfloat \<Rightarrow> nat \<Rightarrow> (nat \<times> int) option" where
  "repr_try x k =
     (let n = fl_num x; d = fl_den x; u = dec_point n d - int k;
          a = n * 10 ^ nat (- u); b = d * 10 ^ nat u;
          lo = a div b; hi = lo + 1;
          ok = (\<lambda>c. fl_of_dec (fl_neg x) c u = x);
          near_lo = (2 * (a mod b) < b \<or> 2 * (a mod b) = b \<and> even lo)
      in if ok lo \<and> (near_lo \<or> \<not> ok hi) then Some (lo, u)
         else if ok hi then Some (hi, u) else None)"

fun repr_search :: "pyfloat \<Rightarrow> nat list \<Rightarrow> nat \<times> int" where
  "repr_search x [] = (0, 0)"
| "repr_search x (k # ks) = (case repr_try x k of Some r \<Rightarrow> r | None \<Rightarrow> repr_search x ks)"

definition strip_zeros :: "ustr \<Rightarrow> ustr" where
  "strip_zeros ds = rev (dropWhile (\<lambda>c. c = 48) (rev ds))"

definition repr_digits :: "pyfloat \<Rightarrow> ustr \<times> int" where
  "repr_digits x =
     (let (c, u) = repr_search x [1..<18]; ds = show_nat c
      in (strip_zeros ds, u + int (length ds)))"

definition show_exp :: "int \<Rightarrow> ustr" where
  "show_exp e =
     (if e < 0 then lit ''-'' else lit ''+'') @
     (let ds = show_nat (nat \<bar>e\<bar>) in if length ds < 2 then 48 # ds else ds)"

fun fl_repr :: "pyfloat \<Rightarrow> ustr" where
  "fl_repr NaN = lit ''nan''"
| "fl_repr (Inf s) = (if s then lit ''-inf'' else lit ''inf'')"
| "fl_repr (Fin s m e) =
     (if s then lit ''-'' else []) @
     (if m = 0 then lit ''0.0''
      else let (ds, p) = repr_digits (Fin s m e); n = int (length ds) in
        if -4 < p \<and> p \<le> 16 then
          (if p \<le> 0 then lit ''0.'' @ replicate (nat (- p)) 48 @ ds
           else if n \<le> p then ds @ replicate (nat (p - n)) 48 @ lit ''.0''
           else take (nat p) ds @ lit ''.'' @ drop (nat p) ds)
        else hd ds # (if n = 1 then [] else lit ''.'' @ tl ds) @ lit ''e'' @ show_exp (p - 1))"

text \<open>The format \<^verbatim>\<open>{x:.0f}\<close>.\<close>

fun fl_fixed0 :: "pyfloat \<Rightarrow> ustr" where
  "fl_fixed0 NaN = lit ''nan''"
| "fl_fixed0 (Inf s) = (if s then lit ''-inf'' else lit ''inf'')"
| "fl_fixed0 (Fin s m e) =
     (if s then lit ''-'' else []) @
     show_nat (half_even_div (fl_num (Fin s m e)) (fl_den (Fin s m e)))"

subsection \<open>The rounding error\<close>

lemma scale_div_error:
  assumes "0 < d"
  shows "2 * \<bar>of_nat (scale_div n d e) * 2 powi e - of_nat n / of_nat d\<bar> \<le> (2 powi e :: rat)"
proof -
  define N D where "N = n * 2 ^ nat (- e)" and "D = d * 2 ^ nat e"
  define m where "m = scale_div n d e"
  have D: "0 < D" using assms by (simp add: D_def)
  have "2 * \<bar>int m * int D - int N\<bar> \<le> int D"
    using half_even_div_error [OF D, of N] by (simp add: m_def scale_div_def N_def D_def)
  then have "2 * \<bar>of_nat m * of_nat D - of_nat N\<bar> \<le> (of_nat D :: rat)"
    by (metis (mono_tags) of_int_abs of_int_diff of_int_le_iff of_int_mult of_int_numeral of_int_of_nat_eq)
  moreover have "of_nat m * of_nat D - of_nat N = of_nat D * (of_nat m - of_nat N / (of_nat D :: rat))"
    using D by (simp add: right_diff_distrib mult.commute)
  ultimately have "of_nat D * (2 * \<bar>of_nat m - of_nat N / of_nat D\<bar>) \<le> of_nat D * (1 :: rat)"
    by (simp add: abs_mult mult.left_commute)
  then have "2 * \<bar>of_nat m - of_nat N / of_nat D\<bar> \<le> (1 :: rat)"
    using D by (simp add: mult_le_cancel_left)
  then have "2 powi e * (2 * \<bar>of_nat m - of_nat N / of_nat D\<bar>) \<le> (2 powi e * 1 :: rat)"
    by (intro mult_left_mono) auto
  moreover have "of_nat n / of_nat d = (2 powi e :: rat) * (of_nat N / of_nat D)"
  proof (cases "0 \<le> e")
    case True
    then show ?thesis using assms by (simp add: N_def D_def power_int_def)
  next
    case False
    then show ?thesis using assms by (simp add: N_def D_def power_int_def field_simps)
  qed
  then have "of_nat m * 2 powi e - of_nat n / of_nat d =
      (2 powi e :: rat) * (of_nat m - of_nat N / of_nat D)"
    by (simp add: right_diff_distrib mult.commute)
  ultimately show ?thesis by (simp add: m_def abs_mult mult.left_commute)
qed

end
