(* ===== verification/PyExn.thy ===== *)
theory PyExn
  imports PyDecimal
begin

text \<open>
  Exceptions as values, and computations that read and change a world \<open>'w\<close> and may raise.
  The constructors are the exception classes the program raises, catches or tells apart;
  \<open>OtherError\<close> carries the class name and message of any other one.
\<close>

datatype exn =
    FileNotFoundError ustr
  | OSError ustr
  | UnicodeError ustr
  | JSONDecodeError ustr
  | AttributeError ustr
  | TypeError ustr
  | ValueError ustr
  | KeyError ustr
  | RuntimeError ustr
  | ZeroDivisionError ustr
  | ValidationError ustr "ustr list"  \<comment> \<open>pydantic: model name and offending fields\<close>
  | ConfigurationError ustr
  | DiagnosticError ustr
  | LLMTimeoutError ustr
  | LLMProviderError ustr
  | CostGuardError decimal decimal decimal ustr
      \<comment> \<open>\<open>current_spent\<close>, \<open>attempted_amount\<close>, \<open>budget_limit\<close>, \<open>currency\<close>\<close>
  | ReadTimeout ustr
  | OtherError ustr ustr

type_synonym 'a result = "exn + 'a"

type_synonym ('w, 'a) io = "'w \<Rightarrow> 'a result \<times> 'w"

definition io_return :: "'a \<Rightarrow> ('w, 'a) io" where
  "io_return x = (\<lambda>w. (Inr x, w))"

definition io_raise :: "exn \<Rightarrow> ('w, 'a) io" where
  "io_raise e = (\<lambda>w. (Inl e, w))"

definition io_bind :: "('w, 'a) io \<Rightarrow> ('a \<Rightarrow> ('w, 'b) io) \<Rightarrow> ('w, 'b) io" where
  "io_bind m f = (\<lambda>w. case m w of (Inl e, w') \<Rightarrow> (Inl e, w') | (Inr x, w') \<Rightarrow> f x w')"

text \<open>A pure result that may be an exception.\<close>

definition io_lift :: "'a result \<Rightarrow> ('w, 'a) io" where
  "io_lift r = (\<lambda>w. (r, w))"

text \<open>
  \<^verbatim>\<open>try: m except ...: h\<close>: the handler answers \<open>None\<close> for exceptions it does not catch.
  The changes \<open>m\<close> made to the world before it raised stay.
\<close>

definition io_catch :: "('w, 'a) io \<Rightarrow> (exn \<Rightarrow> ('w, 'a) io option) \<Rightarrow> ('w, 'a) io" where
  "io_catch m h =
     (\<lambda>w. case m w of
        (Inr x, w') \<Rightarrow> (Inr x, w')
      | (Inl e, w') \<Rightarrow> (case h e of None \<Rightarrow> (Inl e, w') | Some m' \<Rightarrow> m' w'))"

definition res_bind :: "'a result \<Rightarrow> ('a \<Rightarrow> 'b result) \<Rightarrow> 'b result" where
  "res_bind r f = (case r of Inl e \<Rightarrow> Inl e | Inr x \<Rightarrow> f x)"

lemma res_bind_simps [simp]: "res_bind (Inl e) f = Inl e" "res_bind (Inr x) f = f x"
  by (simp_all add: res_bind_def)

lemma io_return_apply [simp]: "io_return x w = (Inr x, w)"
  by (simp add: io_return_def)

lemma io_raise_apply [simp]: "io_raise e w = (Inl e, w)"
  by (simp add: io_raise_def)

lemma io_lift_apply [simp]: "io_lift r w = (r, w)"
  by (simp add: io_lift_def)

lemma io_bind_Inr [simp]: "m w = (Inr x, w') \<Longrightarrow> io_bind m f w = f x w'"
  by (simp add: io_bind_def)

lemma io_bind_Inl [simp]: "m w = (Inl e, w') \<Longrightarrow> io_bind m f w = (Inl e, w')"
  by (simp add: io_bind_def)

lemma io_bind_return [simp]: "io_bind (io_return x) f = f x"
  by (simp add: io_bind_def fun_eq_iff)

lemma io_bind_raise [simp]: "io_bind (io_raise e) f = io_raise e"
  by (simp add: io_bind_def fun_eq_iff)

lemma io_bind_assoc: "io_bind (io_bind m f) g = io_bind m (\<lambda>x. io_bind (f x) g)"
  by (simp add: io_bind_def fun_eq_iff split: prod.splits sum.splits)

lemma io_catch_Inr [simp]: "m w = (Inr x, w') \<Longrightarrow> io_catch m h w = (Inr x, w')"
  by (simp add: io_catch_def)

lemma io_catch_Inl_None [simp]: "m w = (Inl e, w') \<Longrightarrow> h e = None \<Longrightarrow> io_catch m h w = (Inl e, w')"
  by (simp add: io_catch_def)

lemma io_catch_Inl_Some [simp]: "m w = (Inl e, w') \<Longrightarrow> h e = Some m' \<Longrightarrow> io_catch m h w = m' w'"
  by (simp add: io_catch_def)

text \<open>Case analysis on how a sequence ends.\<close>

lemma io_bind_cases:
  assumes "io_bind m f w = (r, w'')"
  obtains (raised) e where "m w = (Inl e, w'')" "r = Inl e"
  | (went_on) x w' where "m w = (Inr x, w')" "f x w' = (r, w'')"
  using assms by (auto simp: io_bind_def split: prod.splits sum.splits)

subsection \<open>What a computation does to the world\<close>

text \<open>
  \<open>io_steps I R m\<close>: from every world of the invariant \<open>I\<close>, \<open>m\<close> ends in one that satisfies
  \<open>I\<close> again and is related to the first by \<open>R\<close>, whether \<open>m\<close> returns or raises.  The rules
  \<open>io_steps_intros\<close> reduce a program to its primitive calls.
\<close>

definition io_steps :: "('w \<Rightarrow> bool) \<Rightarrow> ('w \<Rightarrow> 'w \<Rightarrow> bool) \<Rightarrow> ('w, 'a) io \<Rightarrow> bool" where
  "io_steps I R m \<longleftrightarrow> (\<forall>w. I w \<longrightarrow> I (snd (m w)) \<and> R w (snd (m w)))"

definition preorder :: "('w \<Rightarrow> 'w \<Rightarrow> bool) \<Rightarrow> bool" where
  "preorder R \<longleftrightarrow> (\<forall>w. R w w) \<and> (\<forall>u v w. R u v \<longrightarrow> R v w \<longrightarrow> R u w)"

named_theorems io_steps_intros \<open>rules that take a computation apart\<close>

lemma io_stepsD:
  assumes "io_steps I R m" "I w" "m w = (r, w')"
  shows "I w'" "R w w'"
  using assms by (auto simp: io_steps_def)

lemma io_steps_return [io_steps_intros]: "preorder R \<Longrightarrow> io_steps I R (io_return x)"
  by (simp add: io_steps_def preorder_def)

lemma io_steps_raise [io_steps_intros]: "preorder R \<Longrightarrow> io_steps I R (io_raise e)"
  by (simp add: io_steps_def preorder_def)

lemma io_steps_lift [io_steps_intros]: "preorder R \<Longrightarrow> io_steps I R (io_lift r)"
  by (simp add: io_steps_def preorder_def)

lemma io_steps_bind [io_steps_intros]:
  assumes "preorder R" "io_steps I R m" "\<And>x. io_steps I R (f x)"
  shows "io_steps I R (io_bind m f)"
  unfolding io_steps_def
proof (intro allI impI)
  fix w assume I: "I w"
  obtain r w' where m: "m w = (r, w')" by (cases "m w")
  show "I (snd (io_bind m f w)) \<and> R w (snd (io_bind m f w))"
  proof (cases r)
    case (Inl e)
    with assms I m show ?thesis by (auto simp: io_steps_def)
  next
    case (Inr x)
    with assms(2) I m have w': "I w'" "R w w'" by (auto dest: io_stepsD)
    with assms(3) [of x] have "I (snd (f x w'))" "R w' (snd (f x w'))" by (auto simp: io_steps_def)
    with assms(1) w' m Inr show ?thesis by (auto simp: preorder_def)
  qed
qed

lemma io_steps_catch [io_steps_intros]:
  assumes "preorder R" "io_steps I R m" "\<And>e m'. h e = Some m' \<Longrightarrow> io_steps I R m'"
  shows "io_steps I R (io_catch m h)"
  unfolding io_steps_def
proof (intro allI impI)
  fix w assume I: "I w"
  obtain r w' where m: "m w = (r, w')" by (cases "m w")
  with assms(2) I have w': "I w'" "R w w'" by (auto dest: io_stepsD)
  show "I (snd (io_catch m h w)) \<and> R w (snd (io_catch m h w))"
  proof (cases r)
    case (Inl e)
    show ?thesis
    proof (cases "h e")
      case (Some m')
      with assms(3) w' have "I (snd (m' w'))" "R w' (snd (m' w'))" by (auto simp: io_steps_def)
      with assms(1) w' m Inl Some show ?thesis by (auto simp: preorder_def)
    qed (use m w' Inl in simp)
  qed (use m w' in simp)
qed

lemma preorder_True [simp]: "preorder (\<lambda>_ _. True)"
  by (simp add: preorder_def)

lemma preorder_le: "preorder (\<lambda>u v. (f u :: 'b :: order) \<le> f v)"
  by (auto simp: preorder_def)

lemma preorder_implies: "preorder (\<lambda>u v. p u \<longrightarrow> p v)"
  by (auto simp: preorder_def)

lemma preorder_conj: "preorder R \<Longrightarrow> preorder S \<Longrightarrow> preorder (\<lambda>u v. R u v \<and> S u v)"
  unfolding preorder_def by blast

lemma preorder_same: "preorder (\<lambda>u v. f u = f v)"
  by (auto simp: preorder_def)

end
