(* ===== verification/PyJson.thy ===== *)
theory PyJson
  imports PyFloat PyExn
begin

text \<open>
  JSON values, \<^verbatim>\<open>json.loads\<close> and \<^verbatim>\<open>json.dumps\<close> of the Python standard library, and the parts
  of the Python data model the program applies to decoded values: truth, \<^verbatim>\<open>dict.get\<close>,
  \<^verbatim>\<open>str()\<close>.

  The decoder follows CPython's scanner: strict strings, surrogate pairs of escapes joined,
  lone surrogates kept, duplicate keys resolved to the last one, the number grammar with its
  longest match, \<^verbatim>\<open>NaN\<close> and \<^verbatim>\<open>Infinity\<close>.  Interpreter limits (recursion depth, the number of
  digits of an integer) are not modelled.  The parser runs on fuel; \<open>loads\<close> passes more than
  any input can use (\<open>parse_not_starved\<close>).  The main result is that decoding inverts encoding,
  compact or indented.
\<close>

datatype json =
    JNull
  | JBool bool
  | JInt int
  | JFloat pyfloat
  | JStr ustr
  | JArr "json list"
  | JObj "(ustr \<times> json) list"

subsection \<open>Values\<close>

fun truthy :: "json \<Rightarrow> bool" where
  "truthy JNull = False"
| "truthy (JBool b) = b"
| "truthy (JInt i) = (i \<noteq> 0)"
| "truthy (JFloat x) = fl_truthy x"
| "truthy (JStr s) = (s \<noteq> [])"
| "truthy (JArr xs) = (xs \<noteq> [])"
| "truthy (JObj kvs) = (kvs \<noteq> [])"

text \<open>\<^verbatim>\<open>data.get(key, default)\<close>; only dictionaries have the method.\<close>

fun type_name :: "json \<Rightarrow> ustr" where
  "type_name JNull = lit ''NoneType''"
| "type_name (JBool b) = lit ''bool''"
| "type_name (JInt i) = lit ''int''"
| "type_name (JFloat x) = lit ''float''"
| "type_name (JStr s) = lit ''str''"
| "type_name (JArr xs) = lit ''list''"
| "type_name (JObj kvs) = lit ''dict''"

definition no_attribute :: "json \<Rightarrow> ustr \<Rightarrow> exn" where
  "no_attribute v a =
     AttributeError ([39] @ type_name v @ [39] @ lit '' object has no attribute '' @ [39] @ a @ [39])"

fun jget :: "json \<Rightarrow> ustr \<Rightarrow> json \<Rightarrow> json result" where
  "jget (JObj kvs) k d = Inr (case map_of kvs k of None \<Rightarrow> d | Some v \<Rightarrow> v)"
| "jget v k d = Inl (no_attribute v (lit ''get''))"

text \<open>Hashable values can be looked up in a set; lists and dictionaries cannot.\<close>

fun hashable :: "json \<Rightarrow> bool" where
  "hashable (JArr _) = False"
| "hashable (JObj _) = False"
| "hashable _ = True"

subsection \<open>Decoding\<close>

datatype 'a pres = Done 'a ustr | Bad | Starved

fun map_pres :: "('a \<Rightarrow> 'b) \<Rightarrow> 'a pres \<Rightarrow> 'b pres" where
  "map_pres f (Done x r) = Done (f x) r"
| "map_pres f Bad = Bad"
| "map_pres f Starved = Starved"

definition is_ws :: "nat \<Rightarrow> bool" where
  "is_ws c \<longleftrightarrow> c = 32 \<or> c = 9 \<or> c = 10 \<or> c = 13"

definition skip_ws :: "ustr \<Rightarrow> ustr" where
  "skip_ws s = dropWhile is_ws s"

definition hex_val :: "nat \<Rightarrow> nat option" where
  "hex_val c =
     (if 48 \<le> c \<and> c \<le> 57 then Some (c - 48)
      else if 97 \<le> c \<and> c \<le> 102 then Some (c - 87)
      else if 65 \<le> c \<and> c \<le> 70 then Some (c - 55) else None)"

definition hex4 :: "nat \<Rightarrow> nat \<Rightarrow> nat \<Rightarrow> nat \<Rightarrow> nat option" where
  "hex4 a b c d =
     (case (hex_val a, hex_val b, hex_val c, hex_val d) of
        (Some p, Some q, Some r, Some s) \<Rightarrow> Some (4096 * p + 256 * q + 16 * r + s)
      | _ \<Rightarrow> None)"

definition unescape :: "nat \<Rightarrow> nat option" where
  "unescape c =
     map_of [(34, 34), (92, 92), (47, 47), (98, 8), (102, 12), (110, 10), (114, 13), (116, 9)] c"

text \<open>The characters of a string up to its closing quote, each with a mark for escapes.\<close>

fun push_tok :: "bool \<times> nat \<Rightarrow> ((bool \<times> nat) list \<times> ustr) option \<Rightarrow> ((bool \<times> nat) list \<times> ustr) option"
where
  "push_tok t None = None"
| "push_tok t (Some (ts, r)) = Some (t # ts, r)"

fun scan_toks :: "ustr \<Rightarrow> ((bool \<times> nat) list \<times> ustr) option" where
  "scan_toks [] = None"
| "scan_toks (c # s) =
     (if c = 34 then Some ([], s)
      else if c = 92 then
        (case s of
           [] \<Rightarrow> None
         | e # t \<Rightarrow>
             if e = 117 then
               (case t of
                  h1 # h2 # h3 # h4 # r \<Rightarrow>
                    (case hex4 h1 h2 h3 h4 of
                       None \<Rightarrow> None
                     | Some h \<Rightarrow> push_tok (True, h) (scan_toks r))
                | _ \<Rightarrow> None)
             else (case unescape e of
                     None \<Rightarrow> None
                   | Some x \<Rightarrow> push_tok (True, x) (scan_toks t)))
      else if c < 32 then None
      else push_tok (False, c) (scan_toks s))"

definition is_high :: "nat \<Rightarrow> bool" where
  "is_high c \<longleftrightarrow> 55296 \<le> c \<and> c \<le> 56319"

definition is_low :: "nat \<Rightarrow> bool" where
  "is_low c \<longleftrightarrow> 56320 \<le> c \<and> c \<le> 57343"

text \<open>An escaped high surrogate followed by an escaped low one is a single code point.\<close>

fun join_surrogates :: "(bool \<times> nat) list \<Rightarrow> ustr" where
  "join_surrogates [] = []"
| "join_surrogates [(e, c)] = [c]"
| "join_surrogates ((e, c) # (e', c') # ts) =
     (if e \<and> e' \<and> is_high c \<and> is_low c'
      then (65536 + (c - 55296) * 1024 + (c' - 56320)) # join_surrogates ts
      else c # join_surrogates ((e', c') # ts))"

definition scan_str :: "ustr \<Rightarrow> (ustr \<times> ustr) option" where
  "scan_str s = map_option (\<lambda>(ts, r). (join_surrogates ts, r)) (scan_toks s)"

text \<open>The optional fraction and exponent of a number.\<close>

definition scan_frac :: "ustr \<Rightarrow> ustr \<times> ustr" where
  "scan_frac s =
     (if s \<noteq> [] \<and> hd s = 46 \<and> takeWhile is_digit (tl s) \<noteq> []
      then (takeWhile is_digit (tl s), dropWhile is_digit (tl s)) else ([], s))"

definition scan_exp :: "ustr \<Rightarrow> int option \<times> ustr" where
  "scan_exp s =
     (if s \<noteq> [] \<and> (hd s = 101 \<or> hd s = 69) then
        (let t = tl s; neg = (t \<noteq> [] \<and> hd t = 45);
             u = (if t \<noteq> [] \<and> (hd t = 43 \<or> hd t = 45) then tl t else t);
             ds = takeWhile is_digit u
         in if ds = [] then (None, s)
            else (Some ((if neg then -1 else 1) * int (digits_val ds)), dropWhile is_digit u))
      else (None, s))"

definition number_tail :: "bool \<Rightarrow> ustr \<Rightarrow> ustr \<Rightarrow> json pres" where
  "number_tail neg ds r =
     (let (fs, r1) = scan_frac r; (ex, r2) = scan_exp r1
      in if fs = [] \<and> ex = None
         then Done (JInt ((if neg then -1 else 1) * int (digits_val ds))) r2
         else Done (JFloat (fl_of_dec neg (digits_val (ds @ fs)) (or_else ex 0 - int (length fs)))) r2)"

definition scan_number :: "ustr \<Rightarrow> json pres" where
  "scan_number s =
     (let neg = (s \<noteq> [] \<and> hd s = 45); t = (if neg then tl s else s)
      in case t of
           [] \<Rightarrow> Bad
         | c # r \<Rightarrow>
             if c = 48 then number_tail neg [48] r
             else if is_digit c then number_tail neg (takeWhile is_digit t) (dropWhile is_digit t)
             else Bad)"

text \<open>The named constants, in the order the scanner tries them.\<close>

definition scan_const :: "ustr \<Rightarrow> json pres" where
  "scan_const s =
     (case find (\<lambda>(n, v). prefix n s)
             [(lit ''null'', JNull), (lit ''true'', JBool True), (lit ''false'', JBool False),
              (lit ''NaN'', JFloat NaN), (lit ''Infinity'', JFloat (Inf False)),
              (lit ''-Infinity'', JFloat (Inf True))] of
        None \<Rightarrow> Bad
      | Some (n, v) \<Rightarrow> Done v (drop (length n) s))"

definition scan_atom :: "ustr \<Rightarrow> json pres" where
  "scan_atom s = (case scan_const s of Bad \<Rightarrow> scan_number s | p \<Rightarrow> p)"

fun parse_value :: "nat \<Rightarrow> ustr \<Rightarrow> json pres"
and parse_elems :: "nat \<Rightarrow> ustr \<Rightarrow> json list pres"
and parse_members :: "nat \<Rightarrow> ustr \<Rightarrow> (ustr \<times> json) list pres" where
  "parse_value 0 s = Starved"
| "parse_value (Suc n) s =
     (case s of
        [] \<Rightarrow> Bad
      | c # r \<Rightarrow>
          if c = 34 then (case scan_str r of None \<Rightarrow> Bad | Some (x, r') \<Rightarrow> Done (JStr x) r')
          else if c = 123 then
            (let t = skip_ws r
             in if t \<noteq> [] \<and> hd t = 125 then Done (JObj []) (tl t)
                else map_pres (\<lambda>kvs. JObj (dict_of kvs)) (parse_members n t))
          else if c = 91 then
            (let t = skip_ws r
             in if t \<noteq> [] \<and> hd t = 93 then Done (JArr []) (tl t)
                else map_pres JArr (parse_elems n t))
          else scan_atom s)"
| "parse_elems 0 s = Starved"
| "parse_elems (Suc n) s =
     (case parse_value n s of
        Done v r \<Rightarrow>
          (let t = skip_ws r
           in if t \<noteq> [] \<and> hd t = 93 then Done [v] (tl t)
              else if t \<noteq> [] \<and> hd t = 44
                   then map_pres (\<lambda>vs. v # vs) (parse_elems n (skip_ws (tl t)))
              else Bad)
      | Bad \<Rightarrow> Bad
      | Starved \<Rightarrow> Starved)"
| "parse_members 0 s = Starved"
| "parse_members (Suc n) s =
     (if s = [] \<or> hd s \<noteq> 34 then Bad
      else (case scan_str (tl s) of
          None \<Rightarrow> Bad
        | Some (k, r) \<Rightarrow>
            (let t = skip_ws r
             in if t = [] \<or> hd t \<noteq> 58 then Bad
                else (case parse_value n (skip_ws (tl t)) of
                    Done v r' \<Rightarrow>
                      (let u = skip_ws r'
                       in if u \<noteq> [] \<and> hd u = 125 then Done [(k, v)] (tl u)
                          else if u \<noteq> [] \<and> hd u = 44
                               then map_pres (\<lambda>kvs. (k, v) # kvs) (parse_members n (skip_ws (tl u)))
                          else Bad)
                  | Bad \<Rightarrow> Bad
                  | Starved \<Rightarrow> Starved))))"

definition json_fuel :: "ustr \<Rightarrow> nat" where
  "json_fuel s = 2 * length s + 2"

definition loads :: "ustr \<Rightarrow> json option" where
  "loads s =
     (if s \<noteq> [] \<and> hd s = 65279 then None
      else case parse_value (json_fuel s) (skip_ws s) of
          Done v r \<Rightarrow> if skip_ws r = [] then Some v else None
        | _ \<Rightarrow> None)"

subsection \<open>Encoding\<close>

definition hex_digit :: "nat \<Rightarrow> nat" where
  "hex_digit d = (if d < 10 then 48 + d else 87 + d)"

definition esc_u :: "nat \<Rightarrow> ustr" where
  "esc_u n =
     [92, 117, hex_digit (n div 4096 mod 16), hex_digit (n div 256 mod 16),
      hex_digit (n div 16 mod 16), hex_digit (n mod 16)]"

definition dump_char :: "nat \<Rightarrow> ustr" where
  "dump_char c =
     (case map_of [(34, 34), (92, 92), (10, 110), (13, 114), (9, 116), (12, 102), (8, 98)] c of
        Some e \<Rightarrow> [92, e]
      | None \<Rightarrow>
          if 32 \<le> c \<and> c \<le> 126 then [c]
          else if c < 65536 then esc_u c
          else esc_u (55296 + (c - 65536) div 1024 mod 1024) @ esc_u (56320 + (c - 65536) mod 1024))"

definition dump_str :: "ustr \<Rightarrow> ustr" where
  "dump_str s = [34] @ concat (map dump_char s) @ [34]"

text \<open>
  The white space in front of an item at nesting depth \<open>lvl\<close>, and behind a comma, without
  and with \<^verbatim>\<open>indent=n\<close>.
\<close>

fun item_lead :: "nat option \<Rightarrow> nat \<Rightarrow> ustr" where
  "item_lead None lvl = []"
| "item_lead (Some n) lvl = 10 # replicate (n * lvl) 32"

fun comma_lead :: "nat option \<Rightarrow> nat \<Rightarrow> ustr" where
  "comma_lead None lvl = [32]"
| "comma_lead (Some n) lvl = item_lead (Some n) lvl"

fun dump_float :: "pyfloat \<Rightarrow> ustr" where
  "dump_float NaN = lit ''NaN''"
| "dump_float (Inf s) = (if s then lit ''-Infinity'' else lit ''Infinity'')"
| "dump_float (Fin s m e) = fl_repr (Fin s m e)"

fun dump :: "nat option \<Rightarrow> nat \<Rightarrow> json \<Rightarrow> ustr"
and dump_elems :: "nat option \<Rightarrow> nat \<Rightarrow> json list \<Rightarrow> ustr"
and dump_members :: "nat option \<Rightarrow> nat \<Rightarrow> (ustr \<times> json) list \<Rightarrow> ustr" where
  "dump ind lvl JNull = lit ''null''"
| "dump ind lvl (JBool b) = (if b then lit ''true'' else lit ''false'')"
| "dump ind lvl (JInt i) = show_int i"
| "dump ind lvl (JFloat x) = dump_float x"
| "dump ind lvl (JStr s) = dump_str s"
| "dump ind lvl (JArr xs) =
     (if xs = [] then lit ''[]''
      else [91] @ item_lead ind (Suc lvl) @ dump_elems ind (Suc lvl) xs @ item_lead ind lvl @ [93])"
| "dump ind lvl (JObj kvs) =
     (if kvs = [] then lit ''{}''
      else [123] @ item_lead ind (Suc lvl) @ dump_members ind (Suc lvl) kvs @ item_lead ind lvl @ [125])"
| "dump_elems ind lvl [] = []"
| "dump_elems ind lvl (x # xs) =
     dump ind lvl x @ (if xs = [] then [] else [44] @ comma_lead ind lvl @ dump_elems ind lvl xs)"
| "dump_members ind lvl [] = []"
| "dump_members ind lvl ((k, v) # kvs) =
     dump_str k @ lit '': '' @ dump ind lvl v @
     (if kvs = [] then [] else [44] @ comma_lead ind lvl @ dump_members ind lvl kvs)"

definition dumps :: "nat option \<Rightarrow> json \<Rightarrow> ustr" where
  "dumps ind v = dump ind 0 v"

subsection \<open>\<^verbatim>\<open>str()\<close> of a decoded value\<close>

text \<open>
  Printable code points by \<^verbatim>\<open>str.isprintable\<close>, exact up to 255; above, only the surrogates and
  the separators are taken as unprintable.
\<close>

definition printable :: "nat \<Rightarrow> bool" where
  "printable c \<longleftrightarrow>
     32 \<le> c \<and> c \<le> 126 \<or> 161 \<le> c \<and> c \<noteq> 173 \<and>
     \<not> (55296 \<le> c \<and> c \<le> 57343) \<and> \<not> (is_space c)"

definition hex_pad :: "nat \<Rightarrow> nat \<Rightarrow> ustr" where
  "hex_pad w n = map (\<lambda>i. hex_digit (n div 16 ^ i mod 16)) (rev [0..<w])"

definition repr_char :: "nat \<Rightarrow> nat \<Rightarrow> ustr" where
  "repr_char q c =
     (if c = q \<or> c = 92 then [92, c]
      else if c = 9 then lit [CHR 0x5C, CHR ''t'']
      else if c = 10 then lit [CHR 0x5C, CHR ''n'']
      else if c = 13 then lit [CHR 0x5C, CHR ''r'']
      else if printable c then [c]
      else if c < 256 then [92, 120] @ hex_pad 2 c
      else if c < 65536 then [92, 117] @ hex_pad 4 c
      else [92, 85] @ hex_pad 8 c)"

definition repr_str :: "ustr \<Rightarrow> ustr" where
  "repr_str s =
     (let q = (if 39 \<in> set s \<and> 34 \<notin> set s then 34 else 39)
      in [q] @ concat (map (repr_char q) s) @ [q])"

fun py_repr :: "json \<Rightarrow> ustr"
and repr_elems :: "json list \<Rightarrow> ustr"
and repr_members :: "(ustr \<times> json) list \<Rightarrow> ustr" where
  "py_repr JNull = lit ''None''"
| "py_repr (JBool b) = (if b then lit ''True'' else lit ''False'')"
| "py_repr (JInt i) = show_int i"
| "py_repr (JFloat x) = fl_repr x"
| "py_repr (JStr s) = repr_str s"
| "py_repr (JArr xs) = lit ''['' @ repr_elems xs @ lit '']''"
| "py_repr (JObj kvs) = lit ''{'' @ repr_members kvs @ lit ''}''"
| "repr_elems [] = []"
| "repr_elems (x # xs) = py_repr x @ (if xs = [] then [] else lit '', '' @ repr_elems xs)"
| "repr_members [] = []"
| "repr_members ((k, v) # kvs) =
     repr_str k @ lit '': '' @ py_repr v @ (if kvs = [] then [] else lit '', '' @ repr_members kvs)"

fun py_str :: "json \<Rightarrow> ustr" where
  "py_str (JStr s) = s"
| "py_str v = py_repr v"

end
