(* ===== verification/Models.thy ===== *)
theory Models
  imports PyJson
begin

text \<open>
  \<^verbatim>\<open>autosentinel/models.py\<close>: the state that travels through the graph, and what merging a
  node's answer into it does.  An \<open>ErrorLog\<close> is kept as the JSON object it was decoded from,
  because \<^verbatim>\<open>parse_log\<close> does not check the types of its fields.  Keys the class marks
  \<^verbatim>\<open>NotRequired\<close> are options; keys it requires are present, with \<open>None\<close> as an option where
  the class allows it.
\<close>

type_synonym error_log = "(ustr \<times> json) list"

record analysis_result =
  an_category :: ustr
  an_hypothesis :: ustr
  an_confidence :: pyfloat
  an_steps :: "ustr list"

text \<open>The held-out evaluation passes a raw log text in place of the record.\<close>

datatype analysis = AnaText ustr | AnaDict analysis_result

datatype exec_status = ExSuccess | ExFailure | ExTimeout | ExSkipped

record execution_result =
  ex_status :: exec_status
  ex_return_code :: "int option"
  ex_stdout :: ustr
  ex_stderr :: ustr
  ex_duration_ms :: nat
  ex_error :: "ustr option"

datatype norm_outcome = Verbatim | Wrapped | Rejected



record agent_state =
  st_log_path :: ustr
  st_error_log :: "error_log option"
  st_parse_error :: "ustr option"
  st_analysis_result :: "analysis option"
  st_analysis_error :: "ustr option"
  st_fix_script :: "ustr option"
  st_execution_result :: "execution_result option"
  st_execution_error :: "ustr option"
  st_report_text :: "ustr option"
  st_report_path :: "ustr option"
  st_error_category :: "ustr option"
  st_fix_artifact :: "ustr option"
  st_security_verdict :: "ustr option"
  st_routing_decision :: "ustr option"
  st_specialist :: "ustr option"
  st_agent_trace :: "ustr list"
  st_approval_required :: bool
  st_trace_id :: "ustr option"
  st_cost_accumulated :: "pyfloat option"
  st_classifier_model :: "ustr option"
  st_cost_exhausted :: "bool option"
  st_fix_normalization :: "(norm_outcome \<times> ustr option) option"

text \<open>The keys a node may answer with.\<close>

datatype upd =
    UErrorLog "error_log option"
  | UParseError "ustr option"
  | UCategory ustr
  | USpecialist ustr
  | URouting ustr
  | UArtifact ustr
  | UVerdict ustr
  | UClassifier ustr
  | UApproval bool
  | UExecResult "execution_result option"
  | UExecError "ustr option"
  | UNormalization "norm_outcome \<times> ustr option"
  | UReportText ustr
  | UReportPath ustr
  | UTraceId ustr
  | UCost pyfloat
  | UCostExhausted bool
  | UAgentTrace "ustr list"

text \<open>Every key is overwritten but \<^verbatim>\<open>agent_trace\<close>, whose reducer is \<^verbatim>\<open>operator.add\<close>.\<close>

fun apply_upd :: "upd \<Rightarrow> agent_state \<Rightarrow> agent_state" where
  "apply_upd (UErrorLog x) s = s\<lparr>st_error_log := x\<rparr>"
| "apply_upd (UParseError x) s = s\<lparr>st_parse_error := x\<rparr>"
| "apply_upd (UCategory x) s = s\<lparr>st_error_category := Some x\<rparr>"
| "apply_upd (USpecialist x) s = s\<lparr>st_specialist := Some x\<rparr>"
| "apply_upd (URouting x) s = s\<lparr>st_routing_decision := Some x\<rparr>"
| "apply_upd (UArtifact x) s = s\<lparr>st_fix_artifact := Some x\<rparr>"
| "apply_upd (UVerdict x) s = s\<lparr>st_security_verdict := Some x\<rparr>"
| "apply_upd (UClassifier x) s = s\<lparr>st_classifier_model := Some x\<rparr>"
| "apply_upd (UApproval x) s = s\<lparr>st_approval_required := x\<rparr>"
| "apply_upd (UExecResult x) s = s\<lparr>st_execution_result := x\<rparr>"
| "apply_upd (UExecError x) s = s\<lparr>st_execution_error := x\<rparr>"
| "apply_upd (UNormalization x) s = s\<lparr>st_fix_normalization := Some x\<rparr>"
| "apply_upd (UReportText x) s = s\<lparr>st_report_text := Some x\<rparr>"
| "apply_upd (UReportPath x) s = s\<lparr>st_report_path := Some x\<rparr>"
| "apply_upd (UTraceId x) s = s\<lparr>st_trace_id := Some x\<rparr>"
| "apply_upd (UCost x) s = s\<lparr>st_cost_accumulated := Some x\<rparr>"
| "apply_upd (UCostExhausted x) s = s\<lparr>st_cost_exhausted := Some x\<rparr>"
| "apply_upd (UAgentTrace x) s = s\<lparr>st_agent_trace := st_agent_trace s @ x\<rparr>"

definition merge_updates :: "upd list \<Rightarrow> agent_state \<Rightarrow> agent_state" where
  "merge_updates us s = fold apply_upd us s"

lemma merge_updates_simps [simp]:
  "merge_updates [] s = s"
  "merge_updates (u # us) s = merge_updates us (apply_upd u s)"
  by (simp_all add: merge_updates_def)

fun trace_part :: "upd \<Rightarrow> ustr list" where
  "trace_part (UAgentTrace x) = x"
| "trace_part _ = []"

lemma merge_trace:
  "st_agent_trace (merge_updates us s) = st_agent_trace s @ concat (map trace_part us)"
proof (induction us arbitrary: s)
  case (Cons u us)
  have "st_agent_trace (apply_upd u s) = st_agent_trace s @ trace_part u" by (cases u) simp_all
  with Cons show ?case by simp
qed simp

text \<open>No node writes the log path, the analysis or the v1 script.\<close>

lemma apply_upd_frame [simp]:
  "st_log_path (apply_upd u s) = st_log_path s"
  "st_analysis_result (apply_upd u s) = st_analysis_result s"
  "st_analysis_error (apply_upd u s) = st_analysis_error s"
  "st_fix_script (apply_upd u s) = st_fix_script s"
  by (cases u; simp)+

lemma merge_frame [simp]:
  "st_log_path (merge_updates us s) = st_log_path s"
  "st_analysis_result (merge_updates us s) = st_analysis_result s"
  "st_analysis_error (merge_updates us s) = st_analysis_error s"
  "st_fix_script (merge_updates us s) = st_fix_script s"
  by (induction us arbitrary: s) simp_all

text \<open>\<^verbatim>\<open>d.get(key, default)\<close> and \<^verbatim>\<open>d[key]\<close> on an error log.\<close>

definition log_get :: "error_log \<Rightarrow> string \<Rightarrow> json \<Rightarrow> json" where
  "log_get elog k d = or_else (map_of elog (lit k)) d"

definition log_index :: "error_log option \<Rightarrow> string \<Rightarrow> json result" where
  "log_index elog k =
     (case elog of
        None \<Rightarrow> Inl (TypeError ([39] @ lit ''NoneType'' @ [39] @ lit '' object is not subscriptable''))
      | Some l \<Rightarrow> (case map_of l (lit k) of None \<Rightarrow> Inl (KeyError (lit k)) | Some v \<Rightarrow> Inr v))"

end
