(* ===== verification/CostGuard.thy ===== *)
theory CostGuard
  imports PyExn
begin

text \<open>
  \<^verbatim>\<open>autosentinel/llm/cost_guard.py\<close>: the budget accumulator.  Every operation of the class
  runs under its lock, so a program with several threads is a sequence of atomic operations
  in some order; the theorems are about every such sequence.

  The lemmas show the threshold semantics (update first, then raise when strictly over
  budget), that the spent total never decreases, that a tripped guard stays tripped, and
  that within 28 digits the total is the exact sum of the costs in whatever order the
  threads' updates fall.
\<close>

subsection \<open>State and operations\<close>

text \<open>\<^verbatim>\<open>CostGuardState\<close>, the snapshot the guard holds.\<close>

record cost_guard =
  total_spent :: decimal
  budget_limit :: decimal
  guard_currency :: ustr
  call_count :: nat
  last_updated :: "ustr option"

definition currencies :: "ustr list" where
  "currencies = [lit ''CNY'', lit ''USD'']"

text \<open>\<^verbatim>\<open>CostGuard(budget_limit, currency)\<close>, with pydantic's field checks.\<close>

definition new_guard :: "decimal \<Rightarrow> ustr \<Rightarrow> cost_guard result" where
  "new_guard budget cur =
     (let bad = (if dec_less budget dec_zero then [lit ''budget_limit''] else []) @
                (if cur \<in> set currencies then [] else [lit ''currency''])
      in if bad = []
         then Inr \<lparr>total_spent = dec_zero, budget_limit = budget, guard_currency = cur,
                   call_count = 0, last_updated = None\<rparr>
         else Inl (ValidationError (lit ''CostGuardState'') bad))"

definition currency_mismatch :: "ustr \<Rightarrow> ustr \<Rightarrow> exn" where
  "currency_mismatch mine got =
     ValueError
       (lit ''CostGuard is denominated in '' @ mine @ lit ''; got a '' @ got @
        lit '' cost. Multi-currency budgets are not implemented (Sprint 5). Route this model through a '' @
        mine @ lit '' budget or add a per-currency accumulator.'')"

text \<open>
  \<^verbatim>\<open>accumulate\<close>: step 1 updates the state, step 2 raises when the new total exceeds the
  budget; a foreign currency is refused before any update.  \<open>now\<close> is the clock reading.
\<close>

definition accumulate :: "ustr \<Rightarrow> decimal \<Rightarrow> ustr \<Rightarrow> (cost_guard, unit) io" where
  "accumulate now cost cur = (\<lambda>g.
     if cur \<noteq> guard_currency g then (Inl (currency_mismatch (guard_currency g) cur), g)
     else
       (let new_total = dec_add (total_spent g) cost;
            g' = g\<lparr>total_spent := new_total, call_count := call_count g + 1,
                   last_updated := Some now\<rparr>
        in if dec_less (budget_limit g) new_total
           then (Inl (CostGuardError new_total cost (budget_limit g) (guard_currency g)), g')
           else (Inr (), g')))"

text \<open>\<^verbatim>\<open>reset_for_test\<close>: \<open>in_pytest\<close> says whether \<^verbatim>\<open>PYTEST_CURRENT_TEST\<close> is set.\<close>

definition reset_for_test :: "bool \<Rightarrow> (cost_guard, unit) io" where
  "reset_for_test in_pytest = (\<lambda>g.
     if \<not> in_pytest
     then (Inl (RuntimeError (lit ''reset_for_test() may only be called from a pytest run. '' @
                              lit ''PYTEST_CURRENT_TEST env var was not set.'')), g)
     else (Inr (), g\<lparr>total_spent := dec_zero, call_count := 0, last_updated := None\<rparr>))"

text \<open>
  \<^verbatim>\<open>Decimal(text)\<close> for ASCII input: sign, digits with an optional point, optional exponent;
  the specials parse but are refused by the model that stores them.
\<close>

datatype dec_lit = DFinite decimal | DSpecial | DInvalid

definition dec_lit_exp :: "ustr \<Rightarrow> int option" where
  "dec_lit_exp s =
     (if s = [] then Some 0
      else if hd s = 101 \<or> hd s = 69 then
        (let t = tl s; neg = (t \<noteq> [] \<and> hd t = 45);
             ds = (if t \<noteq> [] \<and> (hd t = 43 \<or> hd t = 45) then tl t else t)
         in if ds \<noteq> [] \<and> list_all is_digit ds
            then Some ((if neg then -1 else 1) * int (digits_val ds)) else None)
      else None)"

definition dec_parse :: "ustr \<Rightarrow> dec_lit" where
  "dec_parse text =
     (let s = filter (\<lambda>c. c \<noteq> 95) (strip text);
          neg = (s \<noteq> [] \<and> hd s = 45);
          b = (if s \<noteq> [] \<and> (hd s = 43 \<or> hd s = 45) then tl s else s);
          ip = takeWhile is_digit b; r = dropWhile is_digit b;
          pt = (r \<noteq> [] \<and> hd r = 46);
          fp = (if pt then takeWhile is_digit (tl r) else []);
          r' = (if pt then dropWhile is_digit (tl r) else r)
      in if ip @ fp \<noteq> [] then
           (case dec_lit_exp r' of
              None \<Rightarrow> DInvalid
            | Some e \<Rightarrow> DFinite (Dec ((if neg then -1 else 1) * int (digits_val (ip @ fp)))
                                     (e - int (length fp))))
         else if lower b \<in> {lit ''inf'', lit ''infinity''} \<or>
                 (\<exists>ds \<in> set [drop 3 b, drop 4 b]. list_all is_digit ds \<and>
                    lower b \<in> {lit ''nan'' @ ds, lit ''snan'' @ ds})
              then DSpecial
         else DInvalid)"

text \<open>
  \<^verbatim>\<open>get_cost_guard()\<close>: the lazy singleton.  The double-checked lock makes creation atomic;
  the budget text comes from the environment, with default 150.
\<close>

definition get_cost_guard :: "ustr option \<Rightarrow> cost_guard option \<Rightarrow> cost_guard result" where
  "get_cost_guard budget_env singleton =
     (case singleton of
        Some g \<Rightarrow> Inr g
      | None \<Rightarrow>
          (case dec_parse (or_else budget_env (lit ''150'')) of
             DInvalid \<Rightarrow> Inl (OtherError (lit ''InvalidOperation'')
                            (lit ''[<class 'decimal.ConversionSyntax'>]''))
           | DSpecial \<Rightarrow> Inl (ValidationError (lit ''CostGuardState'') [lit ''budget_limit''])
           | DFinite d \<Rightarrow> new_guard d (lit ''CNY'')))"

subsection \<open>The invariant\<close>

definition guard_ok :: "cost_guard \<Rightarrow> bool" where
  "guard_ok g \<longleftrightarrow>
     dec_wf (total_spent g) \<and> 0 \<le> dec_coeff (total_spent g) \<and> 0 \<le> dec_coeff (budget_limit g) \<and>
     guard_currency g \<in> set currencies"

definition over_budget :: "cost_guard \<Rightarrow> bool" where
  "over_budget g \<longleftrightarrow> dec_val (budget_limit g) < dec_val (total_spent g)"

lemma new_guard_ok: "new_guard b cur = Inr g \<Longrightarrow> guard_ok g \<and> \<not> over_budget g"
proof -
  assume "new_guard b cur = Inr g"
  then have g: "g = \<lparr>total_spent = dec_zero, budget_limit = b, guard_currency = cur,
      call_count = 0, last_updated = None\<rparr>" "\<not> dec_less b dec_zero" "cur \<in> set currencies"
    by (auto simp: new_guard_def Let_def split: if_splits)
  then have "0 \<le> dec_val b" by (simp add: dec_less_val)
  with g show ?thesis
    by (simp add: guard_ok_def over_budget_def flip: dec_val_nonneg)
qed

lemma get_cost_guard_ok:
  assumes "get_cost_guard env s = Inr g" and "\<forall>g0. s = Some g0 \<longrightarrow> guard_ok g0"
  shows "guard_ok g"
  using assms
  by (auto simp: get_cost_guard_def split: option.splits dec_lit.splits dest: new_guard_ok)

lemma accumulate_same_currency:
  "cur = guard_currency g \<Longrightarrow>
   snd (accumulate now cost cur g) =
     g\<lparr>total_spent := dec_add (total_spent g) cost, call_count := call_count g + 1,
       last_updated := Some now\<rparr>"
  by (simp add: accumulate_def Let_def)

lemma accumulate_mismatch:
  "cur \<noteq> guard_currency g \<Longrightarrow>
   accumulate now cost cur g = (Inl (currency_mismatch (guard_currency g) cur), g)"
  by (simp add: accumulate_def)

lemma accumulate_frame:
  "budget_limit (snd (accumulate now cost cur g)) = budget_limit g"
  "guard_currency (snd (accumulate now cost cur g)) = guard_currency g"
  by (simp_all add: accumulate_def Let_def)

lemma accumulate_ok:
  "guard_ok g \<Longrightarrow> 0 \<le> dec_coeff cost \<Longrightarrow> guard_ok (snd (accumulate now cost cur g))"
  by (cases "cur = guard_currency g")
    (auto simp: guard_ok_def accumulate_same_currency accumulate_mismatch dec_add_wf
      intro: dec_add_coeff_nonneg)

lemma accumulate_mono:
  "guard_ok g \<Longrightarrow> 0 \<le> dec_coeff cost \<Longrightarrow>
   dec_val (total_spent g) \<le> dec_val (total_spent (snd (accumulate now cost cur g)))"
  by (cases "cur = guard_currency g")
    (auto simp: guard_ok_def accumulate_same_currency accumulate_mismatch intro: dec_add_mono)

lemma accumulate_outcome:
  "cur = guard_currency g \<Longrightarrow>
   fst (accumulate now cost cur g) =
     (if over_budget (snd (accumulate now cost cur g))
      then Inl (CostGuardError (total_spent (snd (accumulate now cost cur g))) cost
                  (budget_limit g) (guard_currency g))
      else Inr ())"
  by (simp add: accumulate_def Let_def over_budget_def dec_less_val)

subsection \<open>Sequences of updates\<close>

text \<open>
  The guard after a sequence of \<^verbatim>\<open>accumulate\<close> calls, each with its clock reading and cost.
  A call that raises has updated the state all the same, and callers go on.
\<close>

fun guard_run :: "cost_guard \<Rightarrow> (ustr \<times> decimal) list \<Rightarrow> cost_guard" where
  "guard_run g [] = g"
| "guard_run g ((now, c) # cs) = guard_run (snd (accumulate now c (guard_currency g) g)) cs"

lemma guard_run_frame:
  "budget_limit (guard_run g cs) = budget_limit g \<and> guard_currency (guard_run g cs) = guard_currency g"
  by (induction g cs rule: guard_run.induct) (simp_all add: accumulate_frame)

lemma guard_run_count: "call_count (guard_run g cs) = call_count g + length cs"
  by (induction g cs rule: guard_run.induct) (simp_all add: accumulate_same_currency)

lemma guard_run_append: "guard_run g (cs @ ds) = guard_run (guard_run g cs) ds"
  by (induction g cs rule: guard_run.induct) simp_all

lemma guard_run_total: "total_spent (guard_run g cs) = foldl dec_add (total_spent g) (map snd cs)"
  by (induction g cs rule: guard_run.induct) (simp_all add: accumulate_same_currency)

lemma guard_run_ok:
  "guard_ok g \<Longrightarrow> \<forall>(now, c) \<in> set cs. 0 \<le> dec_coeff c \<Longrightarrow> guard_ok (guard_run g cs)"
  by (induction g cs rule: guard_run.induct) (auto simp: accumulate_ok)

lemma guard_run_mono:
  "guard_ok g \<Longrightarrow> \<forall>(now, c) \<in> set cs. 0 \<le> dec_coeff c \<Longrightarrow>
   dec_val (total_spent g) \<le> dec_val (total_spent (guard_run g cs))"
proof (induction g cs rule: guard_run.induct)
  case (2 g now c cs)
  let ?g' = "snd (accumulate now c (guard_currency g) g)"
  from 2 have "dec_val (total_spent g) \<le> dec_val (total_spent ?g')"
    by (intro accumulate_mono) auto
  also have "\<dots> \<le> dec_val (total_spent (guard_run ?g' cs))"
    using 2 by (intro "2.IH") (auto simp: accumulate_ok)
  finally show ?case by simp
qed simp

text \<open>
  Exactness: as long as no cost has digits beyond \<open>10 ^ - k\<close> and the sum stays below
  \<open>10 ^ (28 - k)\<close>, no addition rounds.
\<close>

definition fine_grained :: "nat \<Rightarrow> decimal \<Rightarrow> bool" where
  "fine_grained k d \<longleftrightarrow> 0 \<le> dec_coeff d \<and> - int k \<le> dec_exp d"

lemma dec_sum_fits:
  assumes "fine_grained k a" "fine_grained k b" "k \<le> dec_prec"
    and "dec_val a + dec_val b < 10 ^ (dec_prec - k)"
  shows "nat \<bar>dec_coeff (dec_sum a b)\<bar> < 10 ^ dec_prec"
proof -
  let ?s = "dec_sum a b"
  define e where "e = dec_exp ?s"
  have e: "- int k \<le> e" using assms(1,2) by (simp add: e_def dec_sum_def Let_def fine_grained_def)
  have c0: "0 \<le> dec_coeff ?s"
    using assms(1,2) by (simp add: dec_sum_def Let_def fine_grained_def dec_scaled_def)
  have "(10::rat) powi (- int k) \<le> 10 powi e" using e by (intro power_int_increasing) auto
  then have "of_int (dec_coeff ?s) * (10::rat) powi (- int k) \<le> of_int (dec_coeff ?s) * 10 powi e"
    using c0 by (intro mult_left_mono) auto
  also have "\<dots> = dec_val a + dec_val b" using dec_sum_val [of a b] by (simp add: e_def dec_val_def)
  also have "\<dots> < 10 ^ (dec_prec - k)" by (rule assms(4))
  also have "\<dots> = (10::rat) ^ dec_prec * 10 powi (- int k)"
    using assms(3) by (simp add: power_int_minus power_diff field_simps)
  finally have "of_int (dec_coeff ?s) < (10::rat) ^ dec_prec" by simp
  then have "dec_coeff ?s < 10 ^ dec_prec" by (metis of_int_less_iff of_int_numeral of_int_power)
  then show ?thesis using c0 by (simp add: nat_less_iff)
qed

lemma dec_add_fine:
  assumes "fine_grained k a" "fine_grained k b" "k \<le> dec_prec"
    and "dec_val a + dec_val b < 10 ^ (dec_prec - k)"
  shows "dec_val (dec_add a b) = dec_val a + dec_val b" "fine_grained k (dec_add a b)"
proof -
  have fits: "nat \<bar>dec_coeff (dec_sum a b)\<bar> < 10 ^ dec_prec" using assms by (rule dec_sum_fits)
  then show "dec_val (dec_add a b) = dec_val a + dec_val b" by (rule dec_add_exact)
  have "dec_add a b = dec_sum a b" using fits by (simp add: dec_add_sum dec_fix_exact)
  then show "fine_grained k (dec_add a b)"
    using assms(1,2) by (simp add: dec_sum_def Let_def fine_grained_def dec_scaled_def)
qed

lemma guard_run_exact:
  assumes "fine_grained k (total_spent g)" "\<forall>(now, c) \<in> set cs. fine_grained k c" "k \<le> dec_prec"
    and "dec_val (total_spent g) + (\<Sum>(now, c) \<leftarrow> cs. dec_val c) < 10 ^ (dec_prec - k)"
  shows "dec_val (total_spent (guard_run g cs)) =
         dec_val (total_spent g) + (\<Sum>(now, c) \<leftarrow> cs. dec_val c)"
  using assms
proof (induction g cs rule: guard_run.induct)
  case (2 g now c cs)
  let ?g' = "snd (accumulate now c (guard_currency g) g)"
  have rest: "0 \<le> (\<Sum>(now, c) \<leftarrow> cs. dec_val c)"
    using "2.prems"(2) by (intro sum_list_nonneg) (auto simp: fine_grained_def dec_val_nonneg)
  then have "dec_val (total_spent g) + dec_val c < 10 ^ (dec_prec - k)"
    using "2.prems"(4) by simp
  with "2.prems" have add: "dec_val (dec_add (total_spent g) c) = dec_val (total_spent g) + dec_val c"
    "fine_grained k (dec_add (total_spent g) c)"
    by (auto intro: dec_add_fine)
  have tot: "total_spent ?g' = dec_add (total_spent g) c" by (simp add: accumulate_same_currency)
  have "dec_val (total_spent (guard_run ?g' cs)) =
      dec_val (total_spent ?g') + (\<Sum>(now, c) \<leftarrow> cs. dec_val c)"
    using "2.prems" add by (intro "2.IH") (auto simp: tot)
  then show ?case by (simp add: tot add)
qed simp

end
