(* ===== verification/LlmProtocol.thy ===== *)
theory LlmProtocol
  imports CostGuard PyFloat
begin

text \<open>
  \<^verbatim>\<open>autosentinel/llm/protocol.py\<close>: the request and response schemas with their validators, and
  the \<^verbatim>\<open>LLMClient\<close> protocol.  A client over a world \<open>'w\<close> is a function of the keyword
  arguments of \<^verbatim>\<open>complete\<close>; what its callers rely on is the locale \<open>llm_client\<close>, extended by
  \<open>metered_client\<close> for the clients that bill a cost guard.  The locales are interpreted on
  the concrete clients in \<^verbatim>\<open>LlmClients\<close>.
\<close>

datatype role = System | User | Assistant

record message =
  msg_role :: role
  msg_content :: ustr

record llm_request =
  rq_messages :: "message list"
  rq_model :: ustr
  rq_temperature :: pyfloat
  rq_max_tokens :: int
  rq_trace_id :: ustr
  rq_agent_name :: ustr

record llm_response =
  rs_content :: ustr
  rs_model :: ustr
  rs_prompt_tokens :: int
  rs_completion_tokens :: int
  rs_cost :: decimal
  rs_currency :: ustr
  rs_latency_ms :: int
  rs_trace_id :: ustr

definition is_hex_lower :: "nat \<Rightarrow> bool" where
  "is_hex_lower c \<longleftrightarrow> 48 \<le> c \<and> c \<le> 57 \<or> 97 \<le> c \<and> c \<le> 102"

text \<open>\<^verbatim>\<open>_TRACE_ID_RE.fullmatch\<close>.\<close>

definition trace_id_ok :: "ustr \<Rightarrow> bool" where
  "trace_id_ok s \<longleftrightarrow> length s = 32 \<and> list_all is_hex_lower s"

text \<open>The fields of \<^verbatim>\<open>LLMRequest\<close> that fail their check, in declaration order.\<close>

definition request_errors :: "llm_request \<Rightarrow> ustr list" where
  "request_errors r =
     (if rq_messages r = [] then [lit ''messages''] else []) @
     (if rq_model r = [] then [lit ''model''] else []) @
     (if fl_le fl_zero (rq_temperature r) \<and> fl_le (rq_temperature r) (fl_of_int 2) then []
      else [lit ''temperature'']) @
     (if 1 \<le> rq_max_tokens r \<and> rq_max_tokens r \<le> 32768 then [] else [lit ''max_tokens'']) @
     (if trace_id_ok (rq_trace_id r) then [] else [lit ''trace_id'']) @
     (if rq_agent_name r = [] then [lit ''agent_name''] else [])"

definition mk_request :: "llm_request \<Rightarrow> llm_request result" where
  "mk_request r =
     (if request_errors r = [] then Inr r
      else Inl (ValidationError (lit ''LLMRequest'') (request_errors r)))"

text \<open>The same for \<^verbatim>\<open>LLMResponse\<close>; its model validator runs once the fields are valid.\<close>

definition response_errors :: "llm_response \<Rightarrow> ustr list" where
  "response_errors r =
     (if rs_model r = [] then [lit ''model''] else []) @
     (if 0 \<le> rs_prompt_tokens r then [] else [lit ''prompt_tokens'']) @
     (if 0 \<le> rs_completion_tokens r then [] else [lit ''completion_tokens'']) @
     (if dec_less (rs_cost r) dec_zero then [lit ''cost''] else []) @
     (if rs_currency r \<in> set currencies then [] else [lit ''currency'']) @
     (if 0 \<le> rs_latency_ms r then [] else [lit ''latency_ms''])"

definition mk_response :: "llm_response \<Rightarrow> llm_response result" where
  "mk_response r =
     (if response_errors r \<noteq> [] then Inl (ValidationError (lit ''LLMResponse'') (response_errors r))
      else if trace_id_ok (rs_trace_id r) then Inr r
      else Inl (ValidationError (lit ''LLMResponse'') []))"

definition response_ok :: "llm_response \<Rightarrow> bool" where
  "response_ok r \<longleftrightarrow> mk_response r = Inr r"

lemma mk_request_eq: "mk_request r = Inr r' \<Longrightarrow> r' = r \<and> trace_id_ok (rq_trace_id r)"
  by (auto simp: mk_request_def request_errors_def split: if_splits)

lemma mk_request_bad_trace: "\<not> trace_id_ok (rq_trace_id r) \<Longrightarrow> \<exists>e. mk_request r = Inl e"
  by (auto simp: mk_request_def request_errors_def)

lemma mk_response_eq: "mk_response r = Inr r' \<Longrightarrow> r' = r \<and> response_ok r"
  by (auto simp: mk_response_def response_ok_def split: if_splits)

lemma response_ok_cost: "response_ok r \<Longrightarrow> 0 \<le> dec_coeff (rs_cost r)"
proof -
  assume "response_ok r"
  then have "\<not> dec_less (rs_cost r) dec_zero"
    by (auto simp: response_ok_def mk_response_def response_errors_def split: if_splits)
  then show ?thesis by (simp add: dec_less_val flip: dec_val_nonneg)
qed

subsection \<open>The client interface\<close>

text \<open>\<^verbatim>\<open>complete(messages, model, trace_id, agent_name, max_tokens, temperature)\<close>.\<close>

type_synonym 'w client =
  "message list \<Rightarrow> ustr \<Rightarrow> ustr \<Rightarrow> ustr \<Rightarrow> int \<Rightarrow> pyfloat \<Rightarrow> ('w, llm_response) io"

definition request_of ::
  "message list \<Rightarrow> ustr \<Rightarrow> ustr \<Rightarrow> ustr \<Rightarrow> int \<Rightarrow> pyfloat \<Rightarrow> llm_request" where
  "request_of ms model trace agent k temp =
     \<lparr>rq_messages = ms, rq_model = model, rq_temperature = temp, rq_max_tokens = k,
      rq_trace_id = trace, rq_agent_name = agent\<rparr>"

lemma request_of_simps [simp]:
  "rq_messages (request_of ms model trace agent k temp) = ms"
  "rq_model (request_of ms model trace agent k temp) = model"
  "rq_temperature (request_of ms model trace agent k temp) = temp"
  "rq_max_tokens (request_of ms model trace agent k temp) = k"
  "rq_trace_id (request_of ms model trace agent k temp) = trace"
  "rq_agent_name (request_of ms model trace agent k temp) = agent"
  by (simp_all add: request_of_def)

locale llm_client =
  fixes complete :: "'w client"
    and inv :: "'w \<Rightarrow> bool"
  assumes rejects_bad_request:
      "mk_request (request_of ms model trace agent k temp) = Inl e \<Longrightarrow>
       complete ms model trace agent k temp w = (Inl e, w)"
    and keeps_inv: "inv w \<Longrightarrow> inv (snd (complete ms model trace agent k temp w))"
    and response_valid:
      "inv w \<Longrightarrow> complete ms model trace agent k temp w = (Inr r, w') \<Longrightarrow> response_ok r"
begin

text \<open>A malformed trace id is refused before anything happens.\<close>

lemma bad_trace_raises:
  assumes "\<not> trace_id_ok trace"
  obtains e where "complete ms model trace agent k temp w = (Inl e, w)"
  using mk_request_bad_trace [of "request_of ms model trace agent k temp"] assms
    rejects_bad_request by auto

lemma keeps_inv':
  "inv w \<Longrightarrow> complete ms model trace agent k temp w = (r, w') \<Longrightarrow> inv w'"
  using keeps_inv [of w ms model trace agent k temp] by simp

end

locale metered_client = llm_client complete inv
  for complete :: "'w client" and inv :: "'w \<Rightarrow> bool" +
  fixes spent :: "'w \<Rightarrow> rat"
    and tripped :: "'w \<Rightarrow> bool"
  assumes spent_grows: "inv w \<Longrightarrow> spent w \<le> spent (snd (complete ms model trace agent k temp w))"
    and trip_raises:
      "complete ms model trace agent k temp w = (Inl (CostGuardError a b c d), w') \<Longrightarrow> tripped w'"
    and success_within_budget:
      "inv w \<Longrightarrow> complete ms model trace agent k temp w = (Inr r, w') \<Longrightarrow> \<not> tripped w'"
    and tripped_stays: "inv w \<Longrightarrow> tripped w \<Longrightarrow> tripped (snd (complete ms model trace agent k temp w))"
begin

text \<open>Once the guard has tripped, no later call succeeds.\<close>

lemma tripped_never_succeeds:
  assumes "inv w" "tripped w"
  obtains e where "fst (complete ms model trace agent k temp w) = Inl e"
proof (cases "complete ms model trace agent k temp w")
  case (Pair r w')
  show ?thesis
  proof (cases r)
    case (Inr x)
    with Pair assms show ?thesis
      using success_within_budget [of w ms model trace agent k temp x w']
        tripped_stays [of w ms model trace agent k temp] by simp
  qed (use Pair that in simp)
qed

end

end
