(* ===== verification/PyPath.thy ===== *)
theory PyPath
  imports PyText
begin

text \<open>
  \<^verbatim>\<open>pathlib.PurePosixPath\<close> as far as the program uses it: the normalised text of a path, its
  last component and its stem.  Reports and sidecars are named after the stem of the log, so
  the lemmas show what the stem of the names the program itself makes is.
\<close>

definition slash :: nat where "slash = 47"
definition dot :: nat where "dot = 46"

fun split_at :: "nat \<Rightarrow> ustr \<Rightarrow> ustr list" where
  "split_at d [] = [[]]"
| "split_at d (c # s) =
     (if c = d then [] # split_at d s
      else (case split_at d s of [] \<Rightarrow> [[c]] | p # ps \<Rightarrow> (c # p) # ps))"

text \<open>The root: two leading slashes, but not three, stay two.\<close>

definition path_root :: "ustr \<Rightarrow> ustr" where
  "path_root s =
     (let n = length (takeWhile (\<lambda>c. c = slash) s)
      in if n = 0 then [] else if n = 2 then [slash, slash] else [slash])"

definition path_parts :: "ustr \<Rightarrow> ustr list" where
  "path_parts s = filter (\<lambda>p. p \<noteq> [] \<and> p \<noteq> [dot]) (split_at slash s)"

definition path_str :: "ustr \<Rightarrow> ustr" where
  "path_str s =
     (let t = path_root s @ join [slash] (path_parts s) in if t = [] then [dot] else t)"

definition path_name :: "ustr \<Rightarrow> ustr" where
  "path_name s = (if path_parts s = [] then [] else last (path_parts s))"

text \<open>\<^verbatim>\<open>rfind\<close> of a character, as the text before and after its last occurrence.\<close>

definition before_last :: "nat \<Rightarrow> ustr \<Rightarrow> ustr option" where
  "before_last d s =
     (if d \<in> set s then Some (rev (tl (dropWhile (\<lambda>c. c \<noteq> d) (rev s)))) else None)"

definition name_stem :: "ustr \<Rightarrow> ustr" where
  "name_stem n =
     (case before_last dot n of
        None \<Rightarrow> n
      | Some b \<Rightarrow> if b \<noteq> [] \<and> length b < length n - 1 then b else n)"

definition path_stem :: "ustr \<Rightarrow> ustr" where
  "path_stem s = name_stem (path_name s)"

subsection \<open>Laws\<close>

lemma split_at_nonempty [simp]: "split_at d s \<noteq> []"
  by (induction s) (auto split: list.splits)

lemma split_at_no_sep: "d \<notin> set s \<Longrightarrow> split_at d s = [s]"
  by (induction s) auto

lemma split_at_append: "split_at d (s @ d # t) = split_at d s @ split_at d t"
  by (induction s) (auto split: list.splits)

lemma before_last_append: "d \<notin> set e \<Longrightarrow> before_last d (b @ d # e) = Some b"
proof -
  assume "d \<notin> set e"
  then have "dropWhile (\<lambda>c. c \<noteq> d) (rev e) = []" by (auto simp: dropWhile_eq_Nil_conv)
  then show ?thesis by (simp add: before_last_def dropWhile_append)
qed

lemma name_stem_suffix: "dot \<notin> set e \<Longrightarrow> e \<noteq> [] \<Longrightarrow> b \<noteq> [] \<Longrightarrow> name_stem (b @ dot # e) = b"
  by (simp add: name_stem_def before_last_append)

lemma set_name_stem: "set (name_stem n) \<subseteq> set n"
proof -
  have "set (tl (dropWhile P xs)) \<subseteq> set xs" for P and xs :: ustr
    by (metis list.set_sel(2) list.sel(2) set_dropWhileD subsetI)
  from this [of "\<lambda>c. c \<noteq> dot" "rev n"] show ?thesis
    by (auto simp: name_stem_def before_last_def)
qed

text \<open>The stem of a path made from a directory, a name free of slashes and a suffix.\<close>

lemma path_stem_of_file:
  assumes "slash \<notin> set name" "name \<noteq> []" "slash \<notin> set ext" "dot \<notin> set ext" "ext \<noteq> []"
  shows "path_stem (dir @ slash # name @ dot # ext) = name"
proof -
  let ?f = "name @ dot # ext"
  have "split_at slash ?f = [?f]" using assms by (intro split_at_no_sep) (auto simp: slash_def dot_def)
  then have "path_parts (dir @ slash # ?f) = path_parts dir @ [?f]"
    using assms by (cases name) (auto simp: path_parts_def split_at_append)
  then have "path_name (dir @ slash # ?f) = ?f" by (simp add: path_name_def)
  then show ?thesis using assms by (simp add: path_stem_def name_stem_suffix)
qed

lemma path_parts_ok: "p \<in> set (path_parts s) \<Longrightarrow> p \<noteq> [] \<and> slash \<notin> set p"
proof -
  have "p \<in> set (split_at slash s) \<Longrightarrow> slash \<notin> set p" for p
    by (induction s arbitrary: p) (auto split: list.splits if_splits)
  then show "p \<in> set (path_parts s) \<Longrightarrow> ?thesis" by (auto simp: path_parts_def)
qed

lemma path_stem_no_slash: "slash \<notin> set (path_stem s)"
proof -
  have "slash \<notin> set (path_name s)"
    using path_parts_ok [of "last (path_parts s)" s] by (auto simp: path_name_def)
  then show ?thesis
    using set_name_stem [of "path_name s"] by (auto simp: path_stem_def)
qed

end
