(* ===== verification/World.thy ===== *)
theory World
  imports LlmProtocol PyPath PyJson
begin

text \<open>
  The process-wide state the components share (\<open>world\<close>) and the behaviour of everything
  outside the repository (\<open>host\<close>): the provider SDK, the Python compiler, the clock, the
  random source, the file system's failures and the container engine.  Every outside
  operation is a function of the world, which records what has been done so far, so a host
  can react to the history in any way.
\<close>

datatype sdk_outcome =
    SdkOk "ustr option" int int  \<comment> \<open>content, prompt and completion tokens\<close>
  | SdkTimeout ustr
  | SdkStatusError ustr
  | SdkApiError ustr
  | SdkOther ustr ustr  \<comment> \<open>any other exception: class and message\<close>

datatype compile_outcome =
    Compiles
  | CompileSyntaxError ustr
  | CompileRaises ustr ustr  \<comment> \<open>an exception that is no \<^verbatim>\<open>SyntaxError\<close>\<close>

text \<open>Calls to the container engine, in the order they are made.\<close>

datatype docker_event =
    DockerRun ustr "ustr list" ustr ustr ustr ustr
      \<comment> \<open>image, command, memory limit, network mode, mount mode, the mounted \<^verbatim>\<open>fix.py\<close>\<close>
  | DockerWait nat
  | DockerLogs bool bool
  | DockerKill
  | DockerRemove bool

record world =
  environ :: "ustr \<Rightarrow> ustr option"
  guard :: "cost_guard option"
  files :: "ustr \<Rightarrow> ustr option"
  sdk_log :: "llm_request list"
  docker_log :: "docker_event list"

record host =
  h_now :: "world \<Rightarrow> ustr"
  h_now_utc :: "world \<Rightarrow> ustr"
  h_token :: "world \<Rightarrow> ustr"
  h_elapsed :: "world \<Rightarrow> world \<Rightarrow> nat"
  h_sdk :: "llm_request \<Rightarrow> world \<Rightarrow> sdk_outcome"
  h_compile :: "ustr \<Rightarrow> compile_outcome"
  h_json_error :: "ustr \<Rightarrow> ustr"
  h_str :: "exn \<Rightarrow> ustr"
  h_resolve :: "ustr \<Rightarrow> ustr"
  h_mkdir :: "ustr \<Rightarrow> world \<Rightarrow> exn option"
  h_read :: "ustr \<Rightarrow> world \<Rightarrow> exn option"
  h_write :: "ustr \<Rightarrow> world \<Rightarrow> exn option"
  h_tmp_open :: "world \<Rightarrow> exn option"
  h_tmp_write :: "ustr \<Rightarrow> world \<Rightarrow> exn option"
  h_tmp_close :: "world \<Rightarrow> exn option"
  h_docker_env :: "world \<Rightarrow> exn option"
  h_docker_run :: "world \<Rightarrow> exn option"
  h_docker_wait :: "world \<Rightarrow> int result"
  h_docker_logs :: "bool \<Rightarrow> world \<Rightarrow> ustr result"
  h_docker_kill :: "world \<Rightarrow> exn option"
  h_docker_remove :: "world \<Rightarrow> exn option"

text \<open>
  \<^verbatim>\<open>str(exc)\<close>: the message of the exceptions the program itself raises and of the ones that
  carry nothing else; the rendering of library exceptions is the library's.
\<close>

fun exn_str :: "host \<Rightarrow> exn \<Rightarrow> ustr" where
  "exn_str h (FileNotFoundError m) = m"
| "exn_str h (OSError m) = m"
| "exn_str h (UnicodeError m) = m"
| "exn_str h (TypeError m) = m"
| "exn_str h (AttributeError m) = m"
| "exn_str h (ValueError m) = m"
| "exn_str h (RuntimeError m) = m"
| "exn_str h (DiagnosticError m) = m"
| "exn_str h (ConfigurationError m) = m"
| "exn_str h e = h_str h e"

subsection \<open>Files\<close>

text \<open>
  \<^verbatim>\<open>files\<close> maps a normalised path to the text in the file.  Reading translates line ends;
  writing truncates the file before it encodes, so a lone surrogate leaves an empty file.
\<close>

fun universal_newlines :: "ustr \<Rightarrow> ustr" where
  "universal_newlines [] = []"
| "universal_newlines [c] = [if c = 13 then 10 else c]"
| "universal_newlines (c # d # s) =
     (if c = 13 then 10 # universal_newlines (if d = 10 then s else d # s)
      else c # universal_newlines (d # s))"

definition read_text :: "host \<Rightarrow> ustr \<Rightarrow> (world, ustr) io" where
  "read_text h path = (\<lambda>w.
     case h_read h path w of
       Some e \<Rightarrow> (Inl e, w)
     | None \<Rightarrow>
         (case files w path of
            None \<Rightarrow> (Inl (FileNotFoundError
                      (lit ''[Errno 2] No such file or directory: '' @ repr_str path)), w)
          | Some t \<Rightarrow> (Inr (universal_newlines t), w)))"

definition write_text :: "host \<Rightarrow> ustr \<Rightarrow> ustr \<Rightarrow> (world, unit) io" where
  "write_text h path t = (\<lambda>w.
     case h_write h path w of
       Some e \<Rightarrow> (Inl e, w)
     | None \<Rightarrow>
         (if \<exists>c \<in> set t. 55296 \<le> c \<and> c \<le> 57343
          then (Inl (UnicodeError (lit ''surrogates not allowed'')), w\<lparr>files := (files w)(path \<mapsto> [])\<rparr>)
          else (Inr (), w\<lparr>files := (files w)(path \<mapsto> t)\<rparr>)))"

lemma universal_newlines_id: "13 \<notin> set s \<Longrightarrow> universal_newlines s = s"
  by (induction s rule: universal_newlines.induct) auto

lemma universal_newlines_no_cr: "13 \<notin> set (universal_newlines s)"
  by (induction s rule: universal_newlines.induct) auto

text \<open>What is written is what is read back, for a text of no carriage return.\<close>

lemma read_after_write:
  assumes "write_text h path t w = (Inr (), w')" "h_read h path w' = None" "13 \<notin> set t"
  shows "read_text h path w' = (Inr t, w')"
  using assms
  by (auto simp: write_text_def read_text_def universal_newlines_id split: option.splits if_splits)

lemma write_text_frame:
  assumes "write_text h path t w = (r, w')"
  shows "guard w' = guard w \<and> docker_log w' = docker_log w \<and> sdk_log w' = sdk_log w \<and>
         environ w' = environ w \<and> (\<forall>q. q \<noteq> path \<longrightarrow> files w' q = files w q)"
  using assms by (auto simp: write_text_def split: option.splits if_splits)

lemma read_text_frame: "snd (read_text h path w) = w"
  by (simp add: read_text_def split: option.splits)

subsection \<open>The budget\<close>

text \<open>The name of the environment variable with the budget.\<close>

definition budget_env :: ustr where
  "budget_env = lit ''AUTOSENTINEL_BUDGET_LIMIT_CNY''"

definition world_ok :: "world \<Rightarrow> bool" where
  "world_ok w \<longleftrightarrow> (\<forall>g. guard w = Some g \<longrightarrow> guard_ok g)"

definition world_spent :: "world \<Rightarrow> rat" where
  "world_spent w = (case guard w of None \<Rightarrow> 0 | Some g \<Rightarrow> dec_val (total_spent g))"

definition world_tripped :: "world \<Rightarrow> bool" where
  "world_tripped w = (case guard w of None \<Rightarrow> False | Some g \<Rightarrow> over_budget g)"

end
