(* ===== verification/Artifacts.thy ===== *)
theory Artifacts
  imports Models World
begin

text \<open>
  Fix artifacts: \<^verbatim>\<open>agents/_parsing.py\<close> (the fence stripper) and
  \<^verbatim>\<open>agents/_artifact_normalizer.py\<close> (verbatim, wrapped or rejected).  The Python compiler is
  the host's \<open>h_compile\<close>.

  The laws: the classification is exhaustive and what it does not reject compiles; the
  wrapper changes no keyword verdict, so reviewing the artifact reviews the code that runs;
  a fenced payload comes back trimmed and an unfenced text only loses its outer blanks.
\<close>

subsection \<open>Fences\<close>

definition fence :: ustr where
  "fence = lit ''```''"

definition is_lang_char :: "nat \<Rightarrow> bool" where
  "is_lang_char c \<longleftrightarrow>
     65 \<le> c \<and> c \<le> 90 \<or> 97 \<le> c \<and> c \<le> 122 \<or> is_digit c \<or> c = 95 \<or> c = 43 \<or> c = 45"

text \<open>
  The match of the fence pattern on a stripped text: three backticks, a language tag, a line
  feed, the shortest payload that leaves an optional line feed and three closing backticks
  up to the very end.  Shortest means that a line feed before the closing fence is not part
  of the payload.
\<close>

definition fence_match :: "ustr \<Rightarrow> ustr option" where
  "fence_match s =
     (if take 3 s = fence then
        (case dropWhile is_lang_char (drop 3 s) of
           c # body \<Rightarrow>
             if c = 10 \<and> 3 \<le> length body \<and> drop (length body - 3) body = fence
             then (let p = take (length body - 3) body
                   in Some (if p \<noteq> [] \<and> last p = 10 then butlast p else p))
             else None
         | [] \<Rightarrow> None)
      else None)"

definition strip_markdown_fence :: "ustr \<Rightarrow> ustr" where
  "strip_markdown_fence text =
     (let stripped = strip text in
      case fence_match stripped of Some p \<Rightarrow> strip p | None \<Rightarrow> stripped)"

subsection \<open>Normalisation\<close>

text \<open>\<^verbatim>\<open>_compile_error\<close>: \<open>None\<close> when it compiles; other exceptions propagate.\<close>

definition compile_error :: "host \<Rightarrow> ustr \<Rightarrow> ustr option result" where
  "compile_error h artifact =
     (case h_compile h artifact of
        Compiles \<Rightarrow> Inr None
      | CompileSyntaxError m \<Rightarrow> Inr (Some m)
      | CompileRaises c m \<Rightarrow> Inl (OtherError c m))"

definition fragment_symptoms :: "ustr list" where
  "fragment_symptoms =
     [[39] @ lit ''return'' @ [39] @ lit '' outside function'',
      [39] @ lit ''yield'' @ [39] @ lit '' outside function'']"

definition wrapper_head :: ustr where
  "wrapper_head = lit ''def __autosentinel_fix__():'' @ newline"

definition wrapper_tail :: ustr where
  "wrapper_tail = newline @ lines
     ['''',
      ''_autosentinel_result = __autosentinel_fix__()'',
      ''if hasattr(_autosentinel_result, \"send\") and hasattr(_autosentinel_result, \"throw\"):'',
      ''    for _ in _autosentinel_result:'',
      ''        pass'',
      '''']"

definition wrap_artifact :: "ustr \<Rightarrow> ustr" where
  "wrap_artifact artifact = wrapper_head @ indent artifact (lit ''    '') @ wrapper_tail"

record normalized_artifact =
  na_code :: ustr
  na_outcome :: norm_outcome
  na_reason :: "ustr option"

definition rejected :: "ustr \<Rightarrow> normalized_artifact" where
  "rejected reason = \<lparr>na_code = [], na_outcome = Rejected, na_reason = Some reason\<rparr>"

definition normalize_fix_artifact :: "host \<Rightarrow> ustr \<Rightarrow> normalized_artifact result" where
  "normalize_fix_artifact h artifact =
     (if strip artifact = [] then Inr (rejected (lit ''empty artifact''))
      else res_bind (compile_error h artifact) (\<lambda>error.
        case error of
          None \<Rightarrow> Inr \<lparr>na_code = artifact, na_outcome = Verbatim, na_reason = None\<rparr>
        | Some e \<Rightarrow>
            if \<not> (\<exists>symptom \<in> set fragment_symptoms. in_text symptom e)
            then Inr (rejected (lit ''SyntaxError: '' @ e))
            else res_bind (compile_error h (wrap_artifact artifact)) (\<lambda>wrap_error.
              case wrap_error of
                Some we \<Rightarrow> Inr (rejected (lit ''SyntaxError: '' @ we))
              | None \<Rightarrow> Inr \<lparr>na_code = wrap_artifact artifact, na_outcome = Wrapped,
                             na_reason = None\<rparr>)))"

subsection \<open>Laws of the wrapper\<close>

definition wrapper_open :: ustr where
  "wrapper_open = lit ''def __autosentinel_fix__():''"

definition wrapper_close :: ustr where
  "wrapper_close = lines
     ['''',
      ''_autosentinel_result = __autosentinel_fix__()'',
      ''if hasattr(_autosentinel_result, \"send\") and hasattr(_autosentinel_result, \"throw\"):'',
      ''    for _ in _autosentinel_result:'',
      ''        pass'',
      '''']"

lemma wrap_artifact_eq:
  "wrap_artifact a = wrapper_open @ 10 # (indent a (replicate 4 32) @ 10 # wrapper_close)"
proof -
  have "lit ''    '' = replicate 4 32" by (simp add: text_simps eval_nat_numeral)
  then show ?thesis
    by (simp add: wrap_artifact_def wrapper_head_def wrapper_tail_def wrapper_open_def
        wrapper_close_def)
qed

text \<open>Keywords that are found in an artifact exactly when they are found in its wrapping.\<close>

definition wrap_transparent :: "ustr \<Rightarrow> bool" where
  "wrap_transparent k \<longleftrightarrow>
     (\<forall>c \<in> set k. \<not> is_break c) \<and> k \<noteq> [] \<and> hd k \<noteq> 32 \<and>
     \<not> in_text k wrapper_open \<and> \<not> in_text k wrapper_close"

lemma wrap_transparent_newline: "wrap_transparent k \<Longrightarrow> 10 \<notin> set k"
proof
  assume "wrap_transparent k" "10 \<in> set k"
  then have "\<not> is_break 10" unfolding wrap_transparent_def by blast
  then show False by (simp add: is_break_def)
qed

lemma in_wrap_artifact:
  assumes "wrap_transparent k"
  shows "in_text k (wrap_artifact a) \<longleftrightarrow> in_text k a"
proof -
  have "10 \<notin> set k" using assms by (rule wrap_transparent_newline)
  with assms show ?thesis
    by (simp add: wrap_transparent_def wrap_artifact_eq sublist_around_sep sublist_indent)
qed

lemma in_lower_wrap_artifact:
  assumes "wrap_transparent k"
  shows "in_text k (lower (wrap_artifact a)) \<longleftrightarrow> in_text k (lower a)"
proof -
  have low: "lower wrapper_open = wrapper_open" "lower wrapper_close = wrapper_close"
    by (simp_all add: wrapper_open_def wrapper_close_def lines_def text_simps lower_Cons lower_cp_ascii)
  have "lower (x @ 10 # y) = lower x @ 10 # lower y" for x y
    by (simp add: lower_Cons lower_cp_ascii)
  moreover have "10 \<notin> set k" using assms by (rule wrap_transparent_newline)
  ultimately show ?thesis
    using assms
    by (simp add: wrap_transparent_def wrap_artifact_eq low sublist_around_sep sublist_lower_indent
        del: lower_append)
qed

subsection \<open>Laws of the normaliser\<close>

lemma normalize_cases:
  assumes "normalize_fix_artifact h a = Inr na"
  obtains (empty) "strip a = []" "na = rejected (lit ''empty artifact'')"
  | (verbatim) "strip a \<noteq> []" "h_compile h a = Compiles"
      "na = \<lparr>na_code = a, na_outcome = Verbatim, na_reason = None\<rparr>"
  | (wrapped) m where "strip a \<noteq> []" "h_compile h a = CompileSyntaxError m"
      "h_compile h (wrap_artifact a) = Compiles"
      "na = \<lparr>na_code = wrap_artifact a, na_outcome = Wrapped, na_reason = None\<rparr>"
  | (rejected) m m' where "strip a \<noteq> []" "h_compile h a = CompileSyntaxError m"
      "na = rejected (lit ''SyntaxError: '' @ m')"
  using assms
  by (auto simp: normalize_fix_artifact_def compile_error_def
      split: if_splits compile_outcome.splits)

lemma normalize_code_compiles:
  assumes "normalize_fix_artifact h a = Inr na" "na_outcome na \<noteq> Rejected"
  shows "h_compile h (na_code na) = Compiles"
  using assms by (cases rule: normalize_cases) (auto simp: rejected_def)

lemma normalize_reason_iff:
  assumes "normalize_fix_artifact h a = Inr na"
  shows "na_reason na \<noteq> None \<longleftrightarrow> na_outcome na = Rejected"
    and "na_outcome na = Rejected \<longrightarrow> na_code na = []"
  using assms by (cases rule: normalize_cases; auto simp: rejected_def)+

text \<open>A compiler that raises nothing but \<^verbatim>\<open>SyntaxError\<close> makes the normaliser total.\<close>

lemma normalize_total:
  assumes "\<And>s c m. h_compile h s \<noteq> CompileRaises c m"
  obtains na where "normalize_fix_artifact h a = Inr na"
proof -
  have "\<exists>e. compile_error h s = Inr e" for s
    using assms [of s] by (cases "h_compile h s") (auto simp: compile_error_def)
  then have "\<exists>na. normalize_fix_artifact h a = Inr na"
    by (auto simp: normalize_fix_artifact_def res_bind_def split: option.splits sum.splits)
      (metis sum.simps(4))+
  with that show ?thesis by blast
qed

subsection \<open>Laws of the fence stripper\<close>

lemma strip_markdown_fence_stripped: "strip (strip_markdown_fence t) = strip_markdown_fence t"
  by (simp add: strip_markdown_fence_def Let_def split: option.splits)

text \<open>A payload between fences comes back trimmed, whatever the language tag.\<close>

lemma strip_markdown_fence_fenced:
  assumes "\<forall>c \<in> set lang. is_lang_char c"
  shows "strip_markdown_fence (fence @ lang @ newline @ payload @ newline @ fence) = strip payload"
proof -
  let ?t = "fence @ lang @ newline @ payload @ newline @ fence"
  have f: "fence = [96, 96, 96]" by (simp add: fence_def text_simps)
  have nl: "\<not> is_lang_char 10" by (simp add: is_lang_char_def is_digit_def)
  have "dropWhile is_lang_char (lang @ 10 # r) = 10 # r" for r
    using assms nl by (induction lang) auto
  moreover have "strip ?t = ?t"
    by (rule strip_fixed) (simp_all add: f is_space_def)
  ultimately show ?thesis
    by (simp add: strip_markdown_fence_def fence_match_def f)
qed

lemma strip_markdown_fence_plain:
  "fence_match (strip t) = None \<Longrightarrow> strip_markdown_fence t = strip t"
  by (simp add: strip_markdown_fence_def)

end
