(* ===== verification/LlmClients.thy ===== *)
theory LlmClients
  imports World
begin

text \<open>
  The three implementations of the client protocol: \<^verbatim>\<open>llm/ark_client.py\<close> and
  \<^verbatim>\<open>llm/glm_client.py\<close>, which differ in their price tables and messages only
  (\<open>provider_complete\<close>; their constructors are \<open>ark_init\<close> and \<open>glm_init\<close>), and the test double
  \<^verbatim>\<open>llm/mock_client.py\<close>.  The SDK call and the clock come from the host; the retry is what the
  \<^verbatim>\<open>tenacity\<close> decorator configures, two attempts on a timeout and the last exception re-raised.
  The optional tracer is in \<open>Tracing\<close>: without the \<^verbatim>\<open>tracing\<close> extra it is a null context.

  Both locales of the protocol are interpreted on the Ark and GLM clients, the basic one on
  the mock.
\<close>

subsection \<open>Pricing\<close>

type_synonym price_table = "(ustr \<times> pyfloat \<times> pyfloat) list"

definition cents :: "nat \<Rightarrow> pyfloat" where
  "cents n = fl_of_dec False n (-2)"

definition ark_pricing :: price_table where
  "ark_pricing =
     [(lit ''ep-20260508052205-6x8hm'', cents 30, cents 60),
      (lit ''doubao-1.5-lite-32k'', cents 30, cents 60),
      (lit ''ep-20260508052420-fwq5q'', cents 320, cents 1600),
      (lit ''doubao-seed-2.0-pro'', cents 320, cents 1600)]"

definition glm_pricing :: price_table where
  "glm_pricing =
     [(lit ''ep-20260508052924-6zchc'', cents 300, cents 1400),
      (lit ''glm-4.7'', cents 300, cents 1400)]"

definition compute_cost :: "price_table \<Rightarrow> ustr \<Rightarrow> int \<Rightarrow> int \<Rightarrow> pyfloat \<times> pyfloat" where
  "compute_cost table model prompt_tokens completion_tokens =
     (let (pin, pout) = or_else (map_of table model) (fl_zero, fl_zero)
      in (fl_mul (fl_div_int prompt_tokens 1000000) pin,
          fl_mul (fl_div_int completion_tokens 1000000) pout))"

text \<open>\<^verbatim>\<open>Decimal(str(x))\<close>; \<open>None\<close> for the specials, which no validated field accepts.\<close>

definition dec_of_float :: "pyfloat \<Rightarrow> decimal option" where
  "dec_of_float x = (case dec_parse (fl_repr x) of DFinite d \<Rightarrow> Some d | _ \<Rightarrow> None)"

subsection \<open>The provider clients\<close>

text \<open>
  What a constructor gives the OpenAI SDK: the key, the base URL, 45 seconds for an attempt and no
  retries of the SDK's own, so that the attempts are those of \<open>invoke_with_retry\<close>.
\<close>

record sdk_settings =
  sdk_api_key :: ustr
  sdk_base_url :: ustr
  sdk_timeout :: nat
  sdk_max_retries :: nat

definition default_base_url :: ustr where
  "default_base_url = lit ''https://ark.cn-beijing.volces.com/api/v3''"

definition ark_init :: "ustr \<Rightarrow> ustr option \<Rightarrow> sdk_settings" where
  "ark_init api_key base_url =
     \<lparr>sdk_api_key = api_key,
      sdk_base_url = (case base_url of None \<Rightarrow> default_base_url | Some u \<Rightarrow> u),
      sdk_timeout = 45, sdk_max_retries = 0\<rparr>"

definition glm_init :: "ustr \<Rightarrow> ustr option \<Rightarrow> sdk_settings" where
  "glm_init api_key base_url =
     \<lparr>sdk_api_key = api_key,
      sdk_base_url = (case base_url of None \<Rightarrow> default_base_url | Some u \<Rightarrow> u),
      sdk_timeout = 45, sdk_max_retries = 0\<rparr>"

definition sdk_attempt :: "host \<Rightarrow> llm_request \<Rightarrow> world \<Rightarrow> sdk_outcome \<times> world" where
  "sdk_attempt h req w = (h_sdk h req w, w\<lparr>sdk_log := sdk_log w @ [req]\<rparr>)"

definition invoke_with_retry :: "host \<Rightarrow> llm_request \<Rightarrow> world \<Rightarrow> sdk_outcome \<times> world" where
  "invoke_with_retry h req w =
     (case sdk_attempt h req w of
        (SdkTimeout m, w1) \<Rightarrow> sdk_attempt h req w1
      | done \<Rightarrow> done)"

text \<open>The last step: \<^verbatim>\<open>get_cost_guard().accumulate(cost, "CNY")\<close> on the shared singleton.\<close>

definition bill :: "host \<Rightarrow> decimal \<Rightarrow> (world, unit) io" where
  "bill h cost = (\<lambda>w.
     case get_cost_guard (environ w budget_env) (guard w) of
       Inl e \<Rightarrow> (Inl e, w)
     | Inr g \<Rightarrow>
         (case accumulate (h_now h w) cost (lit ''CNY'') g of
            (r, g') \<Rightarrow> (r, w\<lparr>guard := Some g'\<rparr>)))"

definition provider_complete :: "ustr \<Rightarrow> price_table \<Rightarrow> host \<Rightarrow> world client" where
  "provider_complete name table h ms model trace agent k temp = (\<lambda>w.
     case mk_request (request_of ms model trace agent k temp) of
       Inl e \<Rightarrow> (Inl e, w)
     | Inr req \<Rightarrow>
         (case invoke_with_retry h req w of
            (SdkTimeout m, w') \<Rightarrow>
              (Inl (LLMTimeoutError (name @ lit '' request timed out after 2 attempts: '' @ m)), w')
          | (SdkStatusError m, w') \<Rightarrow>
              (Inl (LLMProviderError (name @ lit '' provider returned error status: '' @ m)), w')
          | (SdkApiError m, w') \<Rightarrow> (Inl (LLMProviderError (name @ lit '' API error: '' @ m)), w')
          | (SdkOther c m, w') \<Rightarrow> (Inl (OtherError c m), w')
          | (SdkOk content prompt completion, w') \<Rightarrow>
              (let (cin, cout) = compute_cost table model prompt completion in
               case dec_of_float (fl_add cin cout) of
                 None \<Rightarrow> (Inl (ValidationError (lit ''LLMResponse'') [lit ''cost'']), w')
               | Some cost \<Rightarrow>
                   (case mk_response
                       \<lparr>rs_content = or_else content [], rs_model = model,
                        rs_prompt_tokens = prompt, rs_completion_tokens = completion,
                        rs_cost = cost, rs_currency = lit ''CNY'',
                        rs_latency_ms = int (h_elapsed h w w'), rs_trace_id = trace\<rparr> of
                      Inl e \<Rightarrow> (Inl e, w')
                    | Inr resp \<Rightarrow> io_bind (bill h cost) (\<lambda>_. io_return resp) w'))))"

definition ark_complete :: "host \<Rightarrow> world client" where
  "ark_complete = provider_complete (lit ''Ark'') ark_pricing"

definition glm_complete :: "host \<Rightarrow> world client" where
  "glm_complete = provider_complete (lit ''GLM'') glm_pricing"

subsection \<open>The mock client\<close>

record mock_state =
  fixture_response :: "llm_response option"
  next_error :: "exn option"
  mock_calls :: nat
  last_request :: "llm_request option"

definition mock_init :: mock_state where
  "mock_init = \<lparr>fixture_response = None, next_error = None, mock_calls = 0, last_request = None\<rparr>"

definition with_fixture_response :: "llm_response \<Rightarrow> mock_state \<Rightarrow> mock_state" where
  "with_fixture_response r s = s\<lparr>fixture_response := Some r\<rparr>"

definition with_error :: "exn \<Rightarrow> mock_state \<Rightarrow> mock_state" where
  "with_error e s = s\<lparr>next_error := Some e\<rparr>"

definition mock_complete :: "mock_state client" where
  "mock_complete ms model trace agent k temp = (\<lambda>s.
     case mk_request (request_of ms model trace agent k temp) of
       Inl e \<Rightarrow> (Inl e, s)
     | Inr req \<Rightarrow>
         (let s' = s\<lparr>mock_calls := mock_calls s + 1, last_request := Some req\<rparr> in
          case next_error s of
            Some err \<Rightarrow> (Inl err, s'\<lparr>next_error := None\<rparr>)
          | None \<Rightarrow>
              (case fixture_response s of
                 None \<Rightarrow> (Inl (RuntimeError
                   (lit ''MockLLMClient.complete() called without with_fixture_response() or with_error() configured'')), s')
               | Some r \<Rightarrow> (Inr r, s'))))"

subsection \<open>Laws\<close>

lemma invoke_with_retry_attempts:
  "sdk_log (snd (invoke_with_retry h req w)) =
     sdk_log w @ [req] @
     (case h_sdk h req w of SdkTimeout _ \<Rightarrow> [req] | _ \<Rightarrow> [])"
  by (simp add: invoke_with_retry_def sdk_attempt_def split: sdk_outcome.splits)

lemma invoke_with_retry_frame:
  "invoke_with_retry h req w = (out, w') \<Longrightarrow>
   environ w' = environ w \<and> guard w' = guard w \<and> files w' = files w \<and> docker_log w' = docker_log w"
  by (auto simp: invoke_with_retry_def sdk_attempt_def split: sdk_outcome.splits)

text \<open>What billing does: the guard exists afterwards, and holds the added cost.\<close>

lemma bill_cases:
  assumes "bill h cost w = (r, w')" and "world_ok w"
  obtains (no_guard) e where "r = Inl e" "w' = w" "\<And>a b c d. e \<noteq> CostGuardError a b c d"
  | (foreign) g e where "guard_ok g" "guard w = Some g \<or> guard w = None \<and> total_spent g = dec_zero \<and> \<not> over_budget g"
      "r = Inl e" "w' = w\<lparr>guard := Some g\<rparr>" "\<And>a b c d. e \<noteq> CostGuardError a b c d"
  | (billed) g g' where "guard_ok g" "guard w = Some g \<or> guard w = None \<and> total_spent g = dec_zero \<and> \<not> over_budget g"
      "g' = snd (accumulate (h_now h w) cost (lit ''CNY'') g)" "guard_currency g = lit ''CNY''"
      "w' = w\<lparr>guard := Some g'\<rparr>"
      "r = (if over_budget g'
            then Inl (CostGuardError (total_spent g') cost (budget_limit g) (guard_currency g))
            else Inr ())"
proof (cases "get_cost_guard (environ w budget_env) (guard w)")
  case (Inl e)
  then have "\<And>a b c d. e \<noteq> CostGuardError a b c d"
    by (auto simp: get_cost_guard_def new_guard_def Let_def
        split: option.splits dec_lit.splits if_splits)
  with Inl assms show ?thesis by (intro no_guard) (auto simp: bill_def)
next
  case (Inr g)
  have ok: "guard_ok g"
    using get_cost_guard_ok [OF Inr] assms(2) by (auto simp: world_ok_def)
  have g: "guard w = Some g \<or> guard w = None \<and> total_spent g = dec_zero \<and> \<not> over_budget g"
  proof (cases "guard w")
    case None
    with Inr obtain d where "new_guard d (lit ''CNY'') = Inr g"
      by (auto simp: get_cost_guard_def split: dec_lit.splits)
    then show ?thesis
      using None new_guard_ok by (auto simp: new_guard_def Let_def split: if_splits)
  qed (use Inr in \<open>simp add: get_cost_guard_def\<close>)
  obtain r0 g' where acc: "accumulate (h_now h w) cost (lit ''CNY'') g = (r0, g')"
    by (cases "accumulate (h_now h w) cost (lit ''CNY'') g")
  with Inr assms have w': "r = r0" "w' = w\<lparr>guard := Some g'\<rparr>" by (auto simp: bill_def)
  show ?thesis
  proof (cases "lit ''CNY'' = guard_currency g")
    case True
    have g': "g' = snd (accumulate (h_now h w) cost (lit ''CNY'') g)" by (simp add: acc)
    have "r = (if over_budget g'
        then Inl (CostGuardError (total_spent g') cost (budget_limit g) (guard_currency g)) else Inr ())"
      using accumulate_outcome [OF True, of "h_now h w" cost] w'(1) by (simp only: acc fst_conv snd_conv)
    then show ?thesis by (rule billed [OF ok g g' True [symmetric] w'(2)])
  next
    case False
    with acc w' ok g show ?thesis
      using accumulate_mismatch [OF False, of "h_now h w" cost]
      by (intro foreign [of g "currency_mismatch (guard_currency g) (lit ''CNY'')"])
        (auto simp: currency_mismatch_def)
  qed
qed

lemma bill_laws:
  assumes "bill h cost w = (r, w')" "world_ok w" "0 \<le> dec_coeff cost"
  shows "world_ok w' \<and> world_spent w \<le> world_spent w'
    \<and> (r = Inr () \<longrightarrow> \<not> world_tripped w')
    \<and> ((\<exists>a b c d. r = Inl (CostGuardError a b c d)) \<longrightarrow> world_tripped w')
    \<and> (world_tripped w \<longrightarrow> world_tripped w')"
  using assms(1,2)
proof (cases rule: bill_cases)
  case (billed g g')
  have mono: "dec_val (total_spent g) \<le> dec_val (total_spent g')"
    using accumulate_mono billed(1,3) assms(3) by blast
  have lim: "budget_limit g' = budget_limit g" using billed(3) by (simp add: accumulate_frame)
  have old: "world_spent w = dec_val (total_spent g)"
    using billed(2) by (auto simp: world_spent_def dec_val_def dec_zero_def)
  have trip: "world_tripped w \<longrightarrow> over_budget g"
    using billed(2) by (auto simp: world_tripped_def)
  have "guard_ok g'" using accumulate_ok billed(1,3) assms(3) by blast
  with billed mono lim old trip show ?thesis
    by (auto simp: world_ok_def world_spent_def world_tripped_def over_budget_def)
next
  case (foreign g e)
  then show ?thesis
    by (auto simp: world_ok_def world_spent_def world_tripped_def dec_val_def dec_zero_def)
qed (use assms in auto)

text \<open>How a provider call ends, in one rule.\<close>

lemma provider_cases:
  assumes "provider_complete name table h ms model trace agent k temp w = (r, w')"
  obtains (refused) e where "mk_request (request_of ms model trace agent k temp) = Inl e"
      "r = Inl e" "w' = w"
  | (failed) out e where "invoke_with_retry h (request_of ms model trace agent k temp) w = (out, w')"
      "r = Inl e" "\<And>a b c d. e \<noteq> CostGuardError a b c d"
  | (answered) out w1 cost resp rb
      where "invoke_with_retry h (request_of ms model trace agent k temp) w = (out, w1)"
      "response_ok resp" "rs_cost resp = cost" "rs_model resp = model" "rs_currency resp = lit ''CNY''"
      "bill h cost w1 = (rb, w')" "r = (case rb of Inl e \<Rightarrow> Inl e | Inr _ \<Rightarrow> Inr resp)"
proof (cases "mk_request (request_of ms model trace agent k temp)")
  case (Inl e)
  with assms show ?thesis by (intro refused) (auto simp: provider_complete_def)
next
  case (Inr req)
  then have req: "req = request_of ms model trace agent k temp" using mk_request_eq by blast
  obtain out w1 where inv: "invoke_with_retry h req w = (out, w1)"
    by (cases "invoke_with_retry h req w")
  show ?thesis
  proof (cases out)
    case (SdkOk content p c)
    define cc where "cc = compute_cost table model p c"
    show ?thesis
    proof (cases "dec_of_float (fl_add (fst cc) (snd cc))")
      case None
      with assms Inr inv SdkOk req show ?thesis
        by (intro failed) (auto simp: provider_complete_def cc_def split_beta)
    next
      case (Some cost)
      define resp where "resp = \<lparr>rs_content = or_else content [], rs_model = model,
          rs_prompt_tokens = p, rs_completion_tokens = c, rs_cost = cost,
          rs_currency = lit ''CNY'', rs_latency_ms = int (h_elapsed h w w1), rs_trace_id = trace\<rparr>"
      show ?thesis
      proof (cases "mk_response resp")
        case (Inl e)
        moreover from Inl have "\<And>a b c d. e \<noteq> CostGuardError a b c d"
          by (auto simp: mk_response_def split: if_splits)
        ultimately show ?thesis using assms Inr inv SdkOk req Some
          by (intro failed [of out e]) (auto simp: provider_complete_def cc_def split_beta resp_def)
      next
        case (Inr resp')
        then have resp': "resp' = resp" "response_ok resp" using mk_response_eq by blast+
        obtain rb w2 where b: "bill h cost w1 = (rb, w2)" by (cases "bill h cost w1")
        have "provider_complete name table h ms model trace agent k temp w =
            io_bind (bill h cost) (\<lambda>_. io_return resp) w1"
          using \<open>mk_request _ = Inr req\<close> inv SdkOk req Some Inr resp'
          by (simp add: provider_complete_def split_beta resp_def flip: cc_def)
        with assms b show ?thesis
          by (intro answered [OF inv [unfolded req] resp'(2), of cost rb])
            (auto simp: resp_def io_bind_def split: sum.splits)
      qed
    qed
  qed (use assms Inr inv req in \<open>auto simp: provider_complete_def intro!: failed\<close>)
qed

lemma world_frame:
  assumes "invoke_with_retry h req w = (out, w')"
  shows "world_ok w' = world_ok w" "world_spent w' = world_spent w" "world_tripped w' = world_tripped w"
  using invoke_with_retry_frame [OF assms]
  by (simp_all add: world_ok_def world_spent_def world_tripped_def)

lemma provider_laws:
  assumes "provider_complete name table h ms model trace agent k temp w = (r, w')" "world_ok w"
  shows "world_ok w' \<and> world_spent w \<le> world_spent w' \<and> (world_tripped w \<longrightarrow> world_tripped w')
    \<and> ((\<exists>x. r = Inr x) \<longrightarrow> \<not> world_tripped w')
    \<and> ((\<exists>a b c d. r = Inl (CostGuardError a b c d)) \<longrightarrow> world_tripped w')
    \<and> (\<forall>x. r = Inr x \<longrightarrow> response_ok x)"
  using assms(1)
proof (cases rule: provider_cases)
  case (refused e)
  then show ?thesis
    using assms(2) by (auto simp: mk_request_def split: if_splits)
next
  case (failed out e)
  then show ?thesis using assms(2) world_frame by auto
next
  case (answered out w1 cost resp rb)
  note fr = world_frame [OF answered(1)]
  have "0 \<le> dec_coeff cost" using response_ok_cost answered(2,3) by auto
  then have "world_ok w' \<and> world_spent w1 \<le> world_spent w'
    \<and> (rb = Inr () \<longrightarrow> \<not> world_tripped w')
    \<and> ((\<exists>a b c d. rb = Inl (CostGuardError a b c d)) \<longrightarrow> world_tripped w')
    \<and> (world_tripped w1 \<longrightarrow> world_tripped w')"
    using bill_laws [OF answered(6)] fr(1) assms(2) by blast
  then show ?thesis
    using answered(2,7) fr by (auto split: sum.splits)
qed

text \<open>
  The law \<open>trip_raises\<close> needs no invariant: the guard that raised is the one left behind.
\<close>

lemma bill_trips:
  assumes "bill h cost w = (Inl (CostGuardError a b c d), w')"
  shows "world_tripped w'"
proof (cases "get_cost_guard (environ w budget_env) (guard w)")
  case (Inl e)
  with assms show ?thesis
    by (auto simp: bill_def get_cost_guard_def new_guard_def Let_def
        split: option.splits dec_lit.splits if_splits)
next
  case (Inr g)
  with assms show ?thesis
    by (auto simp: bill_def accumulate_def world_tripped_def over_budget_def Let_def
        dec_less_val currency_mismatch_def split: if_splits)
qed

lemma provider_trips:
  assumes "provider_complete name table h ms model trace agent k temp w =
           (Inl (CostGuardError a b c d), w')"
  shows "world_tripped w'"
  using assms
proof (cases rule: provider_cases)
  case (refused e)
  then show ?thesis by (auto simp: mk_request_def split: if_splits)
next
  case (answered out w1 cost resp rb)
  then show ?thesis by (auto split: sum.splits intro: bill_trips)
qed auto

lemma provider_metered:
  "metered_client (provider_complete name table h) world_ok world_spent world_tripped"
proof
  fix ms model trace agent k temp e and w :: world
  assume "mk_request (request_of ms model trace agent k temp) = Inl e"
  then show "provider_complete name table h ms model trace agent k temp w = (Inl e, w)"
    by (simp add: provider_complete_def)
next
  fix ms model trace agent k temp w
  assume ok: "world_ok w"
  obtain r w' where run: "provider_complete name table h ms model trace agent k temp w = (r, w')"
    by (cases "provider_complete name table h ms model trace agent k temp w")
  note laws = provider_laws [OF run ok]
  show "world_ok (snd (provider_complete name table h ms model trace agent k temp w))"
    and "world_spent w \<le> world_spent (snd (provider_complete name table h ms model trace agent k temp w))"
    using laws run by simp_all
  show "world_tripped (snd (provider_complete name table h ms model trace agent k temp w))"
    if "world_tripped w" using laws run that by simp
next
  fix ms model trace agent k temp a b c d and w w' :: world
  assume "provider_complete name table h ms model trace agent k temp w =
          (Inl (CostGuardError a b c d), w')"
  then show "world_tripped w'" by (rule provider_trips)
next
  fix ms model trace agent k temp x and w w' :: world
  assume "world_ok w" "provider_complete name table h ms model trace agent k temp w = (Inr x, w')"
  then show "response_ok x" "\<not> world_tripped w'" using provider_laws by blast+
qed

interpretation ark: metered_client "ark_complete h" world_ok world_spent world_tripped for h
  unfolding ark_complete_def by (rule provider_metered)

interpretation glm: metered_client "glm_complete h" world_ok world_spent world_tripped for h
  unfolding glm_complete_def by (rule provider_metered)

definition mock_ok :: "mock_state \<Rightarrow> bool" where
  "mock_ok s \<longleftrightarrow> (\<forall>r. fixture_response s = Some r \<longrightarrow> response_ok r)"

interpretation mock: llm_client mock_complete mock_ok
  by unfold_locales
    (auto simp: mock_complete_def mock_ok_def Let_def split: sum.splits option.splits)

lemma with_fixture_response_ok:
  "mock_ok s \<Longrightarrow> response_ok r \<Longrightarrow> mock_ok (with_error e (with_fixture_response r s))"
  by (simp add: mock_ok_def with_fixture_response_def with_error_def)

end
