(* ===== verification/Factory.thy ===== *)
theory Factory
  imports LlmClients "HOL-Library.List_Lexorder"
begin

text \<open>
  \<^verbatim>\<open>autosentinel/llm/factory.py\<close>: the routing configuration, its cross-validation, and the
  construction of an agent's client.  The YAML reader with the conversion of its data to
  typed fields is the parameter \<open>yaml\<close>; the range checks of the fields and the model
  validator are the program's and are defined here.

  The laws characterise exactly which configurations validate, and show that a client built
  for an agent bills through the endpoint that declares the agent's model.
\<close>

subsection \<open>Configuration\<close>

record agent_model_config =
  cf_model :: ustr
  cf_temperature :: pyfloat
  cf_max_tokens :: int
  cf_endpoint_alias :: ustr

record endpoint_config =
  ep_base_url :: ustr
  ep_api_key_env :: ustr
  ep_models :: "ustr list"

record routing_config =
  rt_agents :: "(ustr \<times> agent_model_config) list"
  rt_endpoints :: "(ustr \<times> endpoint_config) list"

definition agent_config_ok :: "agent_model_config \<Rightarrow> bool" where
  "agent_config_ok c \<longleftrightarrow>
     fl_le fl_zero (cf_temperature c) \<and> fl_le (cf_temperature c) (fl_of_int 2) \<and>
     1 \<le> cf_max_tokens c \<and> cf_max_tokens c \<le> 32768"

definition endpoint_config_ok :: "endpoint_config \<Rightarrow> bool" where
  "endpoint_config_ok e \<longleftrightarrow> ep_api_key_env e \<noteq> [] \<and> ep_models e \<noteq> []"

text \<open>\<^verbatim>\<open>_every_agent_model_is_registered\<close>: the model registry, then the back-fill.\<close>

definition duplicate_model :: "ustr \<Rightarrow> ustr \<Rightarrow> ustr \<Rightarrow> exn" where
  "duplicate_model m a b =
     ValueError (lit ''model '' @ repr_str m @ lit '' declared under multiple endpoints ('' @
                 repr_str a @ lit '' and '' @ repr_str b @ lit '')'')"

fun register_models :: "ustr \<Rightarrow> ustr list \<Rightarrow> (ustr \<times> ustr) list \<Rightarrow> (ustr \<times> ustr) list result" where
  "register_models alias [] reg = Inr reg"
| "register_models alias (m # ms) reg =
     (case map_of reg m of
        Some a \<Rightarrow> Inl (duplicate_model m a alias)
      | None \<Rightarrow> register_models alias ms ((m, alias) # reg))"

fun register_endpoints ::
  "(ustr \<times> endpoint_config) list \<Rightarrow> (ustr \<times> ustr) list \<Rightarrow> (ustr \<times> ustr) list result" where
  "register_endpoints [] reg = Inr reg"
| "register_endpoints ((alias, ep) # eps) reg =
     res_bind (register_models alias (ep_models ep) reg) (register_endpoints eps)"

fun link_agents ::
  "(ustr \<times> ustr) list \<Rightarrow> (ustr \<times> agent_model_config) list \<Rightarrow>
   (ustr \<times> agent_model_config) list result" where
  "link_agents reg [] = Inr []"
| "link_agents reg ((name, cfg) # ags) =
     (case map_of reg (cf_model cfg) of
        None \<Rightarrow> Inl (ValueError (lit ''agent '' @ repr_str name @ lit '' uses model '' @
                              repr_str (cf_model cfg) @ lit '' not declared under any endpoint''))
      | Some alias \<Rightarrow>
          res_bind (link_agents reg ags) (\<lambda>rest.
            Inr ((name, cfg\<lparr>cf_endpoint_alias := alias\<rparr>) # rest)))"

definition link_routing :: "routing_config \<Rightarrow> routing_config result" where
  "link_routing rc =
     res_bind (register_endpoints (rt_endpoints rc) []) (\<lambda>reg.
     res_bind (link_agents reg (rt_agents rc)) (\<lambda>ags. Inr (rc\<lparr>rt_agents := ags\<rparr>)))"

text \<open>\<^verbatim>\<open>ModelRoutingConfig.model_validate\<close>: fields first, then the model validator.\<close>

definition validate_routing :: "routing_config \<Rightarrow> routing_config result" where
  "validate_routing rc =
     (if (\<forall>(n, c) \<in> set (rt_agents rc). agent_config_ok c) \<and>
         (\<forall>(a, e) \<in> set (rt_endpoints rc). endpoint_config_ok e)
      then link_routing rc
      else Inl (ValidationError (lit ''ModelRoutingConfig'') []))"

subsection \<open>Loader and factory\<close>

definition routing_path_env :: ustr where
  "routing_path_env = lit ''AUTOSENTINEL_MODEL_ROUTING_PATH''"

definition load_routing_config ::
  "(ustr \<Rightarrow> routing_config result) \<Rightarrow> ustr \<Rightarrow> host \<Rightarrow> (world, routing_config) io" where
  "load_routing_config yaml default_path h = (\<lambda>w.
     let path = path_str (or_else (environ w routing_path_env) default_path) in
     case files w path of
       None \<Rightarrow> (Inl (ConfigurationError (lit ''model routing config not found at '' @ path)), w)
     | Some _ \<Rightarrow>
         io_bind (read_text h path) (\<lambda>t.
         io_bind (io_lift (yaml t)) (\<lambda>raw.
           case validate_routing raw of
             Inr rc \<Rightarrow> io_return rc
           | Inl e \<Rightarrow> io_raise (ConfigurationError
                        (lit ''invalid model routing config at '' @ path @ lit '': '' @ exn_str h e)))) w)"

datatype provider = ArkProvider ustr ustr | GlmProvider ustr ustr  \<comment> \<open>API key, base URL\<close>

definition build_concrete_client :: "ustr \<Rightarrow> ustr \<Rightarrow> ustr \<Rightarrow> provider result" where
  "build_concrete_client alias key url =
     (if alias = lit ''ark'' then Inr (ArkProvider key url)
      else if alias = lit ''glm'' then Inr (GlmProvider key url)
      else Inl (ConfigurationError
        (lit ''no concrete LLM client mapped for endpoint alias '' @ repr_str alias @
         lit '' (known: '' @ repr_str (lit ''ark'') @ lit '', '' @ repr_str (lit ''glm'') @ lit '')'')))"

definition missing_key :: "ustr \<Rightarrow> agent_model_config \<Rightarrow> endpoint_config \<Rightarrow> exn" where
  "missing_key name cfg ep = ConfigurationError
     (lit ''API key env var '' @ repr_str (ep_api_key_env ep) @ lit '' is not set (required for agent '' @
      repr_str name @ lit '' '' @ [8594] @ lit '' endpoint '' @ repr_str (cf_endpoint_alias cfg) @ lit '')'')"

definition client_for :: "routing_config \<Rightarrow> (ustr \<Rightarrow> ustr option) \<Rightarrow> ustr \<Rightarrow>
    (provider \<times> agent_model_config) result" where
  "client_for rc env name =
     (case map_of (rt_agents rc) name of
        None \<Rightarrow> Inl (ConfigurationError
          (lit ''agent '' @ repr_str name @ lit '' not found in model routing config (known: '' @
           py_repr (JArr (map JStr (sort (map fst (rt_agents rc))))) @ lit '')''))
      | Some cfg \<Rightarrow>
          (case map_of (rt_endpoints rc) (cf_endpoint_alias cfg) of
             None \<Rightarrow> Inl (KeyError (cf_endpoint_alias cfg))
           | Some ep \<Rightarrow>
               (case env (ep_api_key_env ep) of
                  None \<Rightarrow> Inl (missing_key name cfg ep)
                | Some key \<Rightarrow>
                    if key = [] then Inl (missing_key name cfg ep)
                    else res_bind (build_concrete_client (cf_endpoint_alias cfg) key (ep_base_url ep))
                           (\<lambda>p. Inr (p, cfg)))))"

definition build_client_for_agent ::
  "(ustr \<Rightarrow> routing_config result) \<Rightarrow> ustr \<Rightarrow> host \<Rightarrow> ustr \<Rightarrow>
   (world, provider \<times> agent_model_config) io" where
  "build_client_for_agent yaml default_path h name =
     io_bind (load_routing_config yaml default_path h) (\<lambda>rc w. (client_for rc (environ w) name, w))"

text \<open>The settings of the client object that \<^verbatim>\<open>_build_concrete_client\<close> constructs.\<close>

definition provider_sdk :: "provider \<Rightarrow> sdk_settings" where
  "provider_sdk p =
     (case p of ArkProvider key url \<Rightarrow> ark_init key (Some url) | GlmProvider key url \<Rightarrow> glm_init key (Some url))"

lemma provider_sdk_settings:
  "p \<in> {ArkProvider key url, GlmProvider key url} \<Longrightarrow>
   provider_sdk p = \<lparr>sdk_api_key = key, sdk_base_url = url, sdk_timeout = 45, sdk_max_retries = 0\<rparr>"
  by (auto simp: provider_sdk_def ark_init_def glm_init_def)

text \<open>The \<^verbatim>\<open>complete\<close> method of the constructed object.\<close>

definition provider_client :: "host \<Rightarrow> provider \<Rightarrow> world client" where
  "provider_client h p = (case p of ArkProvider _ _ \<Rightarrow> ark_complete h | GlmProvider _ _ \<Rightarrow> glm_complete h)"

subsection \<open>Laws\<close>

text \<open>The declarations \<open>(model, alias)\<close> of the endpoints, in their order.\<close>

definition declared :: "(ustr \<times> endpoint_config) list \<Rightarrow> (ustr \<times> ustr) list" where
  "declared eps = concat (map (\<lambda>(a, e). map (\<lambda>m. (m, a)) (ep_models e)) eps)"

lemma declared_simps [simp]:
  "declared [] = []"
  "declared ((a, e) # eps) = map (\<lambda>m. (m, a)) (ep_models e) @ declared eps"
  by (simp_all add: declared_def)

lemma in_declared: "(m, a) \<in> set (declared eps) \<longleftrightarrow> (\<exists>e. (a, e) \<in> set eps \<and> m \<in> set (ep_models e))"
  by (induction eps) auto

lemma register_models_eq:
  "register_models alias ms reg = Inr reg' \<longleftrightarrow>
   distinct ms \<and> set ms \<inter> fst ` set reg = {} \<and> reg' = rev (map (\<lambda>m. (m, alias)) ms) @ reg"
proof (induction ms arbitrary: reg)
  case (Cons m ms)
  show ?case
  proof (cases "map_of reg m")
    case None
    then have "m \<notin> fst ` set reg" by (simp add: map_of_eq_None_iff)
    with None Cons [of "(m, alias) # reg"] show ?thesis by auto
  next
    case (Some a)
    then have "m \<in> fst ` set reg" by (metis map_of_SomeD fst_conv image_eqI)
    with Some show ?thesis by auto
  qed
qed auto

lemma register_endpoints_eq:
  "register_endpoints eps reg = Inr reg' \<longleftrightarrow>
   distinct (map fst (declared eps)) \<and> fst ` set (declared eps) \<inter> fst ` set reg = {} \<and>
   reg' = rev (declared eps) @ reg"
proof (induction eps arbitrary: reg)
  case (Cons x eps)
  obtain a e where x: "x = (a, e)" by (cases x)
  have fsts: "map fst (map (\<lambda>m. (m, a)) (ep_models e)) = ep_models e"
    by (simp add: o_def)
  have fst_img: "fst ` (\<lambda>m. (m, a)) ` set (ep_models e) = set (ep_models e)"
    by (simp add: image_image)
  show ?case
  proof (cases "register_models a (ep_models e) reg")
    case (Inl ex)
    then have no: "\<not> (distinct (ep_models e) \<and> set (ep_models e) \<inter> fst ` set reg = {})"
      using register_models_eq [of a "ep_models e" reg] by (metis sum.distinct(1))
    show ?thesis unfolding x using Inl no by (auto simp: o_def image_Un fst_img)
  next
    case (Inr reg1)
    then have "distinct (ep_models e)" "set (ep_models e) \<inter> fst ` set reg = {}"
      "reg1 = rev (map (\<lambda>m. (m, a)) (ep_models e)) @ reg"
      using register_models_eq [of a "ep_models e" reg reg1] by simp_all
    with Inr Cons [of reg1] show ?thesis
      unfolding x by (auto simp: o_def image_Un fst_img)
  qed
qed auto

lemma register_endpoints_Nil:
  "register_endpoints eps [] = Inr reg \<longleftrightarrow> distinct (map fst (declared eps)) \<and> reg = rev (declared eps)"
  using register_endpoints_eq [of eps "[]" reg] by simp

lemma link_agents_eq:
  "link_agents reg ags = Inr ags' \<longleftrightarrow>
   (\<forall>(n, c) \<in> set ags. cf_model c \<in> dom (map_of reg)) \<and>
   ags' = map (\<lambda>(n, c). (n, c\<lparr>cf_endpoint_alias := the (map_of reg (cf_model c))\<rparr>)) ags"
proof (induction ags arbitrary: ags')
  case (Cons x ags)
  show ?case
  proof (cases "link_agents reg ags")
    case (Inl e)
    with Cons [of "map (\<lambda>(n, c). (n, c\<lparr>cf_endpoint_alias := the (map_of reg (cf_model c))\<rparr>)) ags"]
    have "\<not> (\<forall>(n, c) \<in> set ags. cf_model c \<in> dom (map_of reg))" by simp
    with Inl show ?thesis by (cases x) (auto split: option.splits)
  next
    case (Inr r)
    with Cons [of r] show ?thesis by (cases x) (auto split: option.splits)
  qed
qed auto

text \<open>Exactly the unambiguous, complete configurations link.\<close>

definition registry_ok :: "routing_config \<Rightarrow> bool" where
  "registry_ok rc \<longleftrightarrow>
     distinct (map fst (declared (rt_endpoints rc))) \<and>
     (\<forall>(n, c) \<in> set (rt_agents rc). cf_model c \<in> fst ` set (declared (rt_endpoints rc)))"

lemma link_routing_Inr:
  "link_routing rc = Inr rc' \<longleftrightarrow>
   registry_ok rc \<and>
   rc' = rc\<lparr>rt_agents := map (\<lambda>(n, c).
            (n, c\<lparr>cf_endpoint_alias := the (map_of (declared (rt_endpoints rc)) (cf_model c))\<rparr>)) (rt_agents rc)\<rparr>"
proof (cases "register_endpoints (rt_endpoints rc) []")
  case (Inl e)
  then have "\<not> distinct (map fst (declared (rt_endpoints rc)))"
    using register_endpoints_Nil by (metis sum.distinct(1))
  with Inl show ?thesis by (simp add: link_routing_def registry_ok_def)
next
  case (Inr reg)
  then have d: "distinct (map fst (declared (rt_endpoints rc)))" and reg: "reg = rev (declared (rt_endpoints rc))"
    using register_endpoints_Nil by simp_all
  have same: "map_of reg = map_of (declared (rt_endpoints rc))"
    unfolding reg by (subst map_of_inject_set) (use d in \<open>simp_all flip: rev_map\<close>)
  have dom: "dom (map_of reg) = fst ` set (declared (rt_endpoints rc))"
    by (simp add: same dom_map_of_conv_image_fst)
  show ?thesis
  proof (cases "link_agents reg (rt_agents rc)")
    case (Inl e)
    have "\<not> (\<forall>(n, c) \<in> set (rt_agents rc). cf_model c \<in> dom (map_of reg))"
    proof
      assume "\<forall>(n, c) \<in> set (rt_agents rc). cf_model c \<in> dom (map_of reg)"
      with refl have "\<exists>r. link_agents reg (rt_agents rc) = Inr r" unfolding link_agents_eq by simp
      with Inl show False by simp
    qed
    then have "\<not> registry_ok rc" unfolding registry_ok_def dom by blast
    with Inl Inr show ?thesis by (simp add: link_routing_def)
  next
    case (Inr ags)
    then have "registry_ok rc"
      and "ags = map (\<lambda>(n, c). (n, c\<lparr>cf_endpoint_alias := the (map_of reg (cf_model c))\<rparr>)) (rt_agents rc)"
      using link_agents_eq [of reg "rt_agents rc" ags] d unfolding registry_ok_def dom by simp_all
    with Inr \<open>register_endpoints _ [] = Inr reg\<close> show ?thesis
      by (simp add: link_routing_def same eq_commute [of rc'])
  qed
qed

text \<open>A linked agent is served by the one endpoint that declares its model.\<close>

lemma linked_endpoint:
  assumes "link_routing rc = Inr rc'" "(n, c) \<in> set (rt_agents rc')"
  shows "\<exists>e. (cf_endpoint_alias c, e) \<in> set (rt_endpoints rc') \<and> cf_model c \<in> set (ep_models e)"
    and "(a, e) \<in> set (rt_endpoints rc') \<Longrightarrow> cf_model c \<in> set (ep_models e) \<Longrightarrow> a = cf_endpoint_alias c"
proof -
  let ?ds = "declared (rt_endpoints rc)"
  from assms(1) have ok: "registry_ok rc" and eps: "rt_endpoints rc' = rt_endpoints rc"
    by (auto simp: link_routing_Inr)
  from assms obtain c0 where c0: "(n, c0) \<in> set (rt_agents rc)"
    and c: "c = c0\<lparr>cf_endpoint_alias := the (map_of ?ds (cf_model c0))\<rparr>"
    by (auto simp: link_routing_Inr)
  from ok c0 have "cf_model c0 \<in> fst ` set ?ds" by (auto simp: registry_ok_def)
  then obtain b where b: "(cf_model c0, b) \<in> set ?ds" by auto
  with ok have al: "cf_endpoint_alias c = b" "cf_model c = cf_model c0"
    by (auto simp: c registry_ok_def)
  then show "\<exists>e. (cf_endpoint_alias c, e) \<in> set (rt_endpoints rc') \<and> cf_model c \<in> set (ep_models e)"
    using b by (auto simp: in_declared eps)
  show "a = cf_endpoint_alias c"
    if "(a, e) \<in> set (rt_endpoints rc')" "cf_model c \<in> set (ep_models e)"
  proof -
    from that al have "(cf_model c0, a) \<in> set ?ds" by (auto simp: in_declared eps)
    with b ok have "a = b" by (meson eq_key_imp_eq_value registry_ok_def)
    with al show ?thesis by simp
  qed
qed

text \<open>So the look-up of the endpoint never fails, and what is built bills by its price table.\<close>

lemma client_for_linked:
  assumes "link_routing rc0 = Inr rc" "client_for rc env name = Inl e"
  shows "\<exists>m. e = ConfigurationError m"
proof (cases "map_of (rt_agents rc) name")
  case (Some cfg)
  then have "(name, cfg) \<in> set (rt_agents rc)" by (rule map_of_SomeD)
  from linked_endpoint(1) [OF assms(1) this] obtain ep
    where "(cf_endpoint_alias cfg, ep) \<in> set (rt_endpoints rc)" by blast
  then have "map_of (rt_endpoints rc) (cf_endpoint_alias cfg) \<noteq> None"
    using weak_map_of_SomeI by fastforce
  with Some assms(2) show ?thesis
    by (auto simp: client_for_def missing_key_def build_concrete_client_def
        split: option.splits if_splits)
qed (use assms in \<open>auto simp: client_for_def\<close>)

lemma client_for_cases:
  assumes "client_for rc env name = Inr (p, cfg)"
  obtains ep key where "map_of (rt_agents rc) name = Some cfg"
    "map_of (rt_endpoints rc) (cf_endpoint_alias cfg) = Some ep"
    "env (ep_api_key_env ep) = Some key" "key \<noteq> []"
    "p = ArkProvider key (ep_base_url ep) \<and> cf_endpoint_alias cfg = lit ''ark'' \<or>
     p = GlmProvider key (ep_base_url ep) \<and> cf_endpoint_alias cfg = lit ''glm''"
  using assms
  by (auto simp: client_for_def build_concrete_client_def res_bind_def
      split: option.splits if_splits)

text \<open>Every client the factory builds is a metered client.\<close>

interpretation built: metered_client "provider_client h p" world_ok world_spent world_tripped for h p
  by (cases p) (simp_all add: provider_client_def ark.metered_client_axioms glm.metered_client_axioms)

end
