(* ===== verification/PyJsonLaws.thy ===== *)
theory PyJsonLaws
  imports PyJson
begin

text \<open>
  Laws of the JSON model: every parse consumes input, \<open>loads\<close> never runs out of fuel and more
  fuel never changes a result, and decoding inverts encoding.  The encoder's domain
  (\<open>json_ok\<close>) leaves out floats, surrogate code points (two of which in a row decode to one
  character) and dictionaries with a repeated key, which Python cannot build.
\<close>

subsection \<open>Parsing consumes input\<close>

lemma length_skip_ws: "length (skip_ws s) \<le> length s"
  by (simp add: skip_ws_def length_dropWhile_le)

lemma length_push_tok: "push_tok t o' = Some (ts, r) \<Longrightarrow> \<exists>ts'. o' = Some (ts', r)"
  by (cases o') auto

lemma scan_toks_consumes: "scan_toks s = Some (ts, r) \<Longrightarrow> length r < length s"
proof (induction s arbitrary: ts rule: length_induct)
  case (1 s)
  show ?case
  proof (cases s)
    case (Cons c t)
    with "1.prems" show ?thesis
      by (force split: if_splits list.splits option.splits dest!: length_push_tok dest: "1.IH" [rule_format, rotated]
          simp: less_Suc_eq)
  qed (use "1.prems" in simp)
qed

lemma scan_str_consumes: "scan_str s = Some (x, r) \<Longrightarrow> length r < length s"
  by (auto simp: scan_str_def dest: scan_toks_consumes)

lemma length_scan_frac: "scan_frac s = (fs, r) \<Longrightarrow> length r \<le> length s"
proof -
  assume "scan_frac s = (fs, r)"
  moreover have "length (dropWhile is_digit (tl s)) \<le> length s"
    using length_dropWhile_le [of is_digit "tl s"] by simp
  ultimately show ?thesis by (auto simp: scan_frac_def split: if_splits)
qed

lemma length_scan_exp: "scan_exp s = (ex, r) \<Longrightarrow> length r \<le> length s"
proof -
  assume eq: "scan_exp s = (ex, r)"
  have "length (dropWhile is_digit u) \<le> length s" if "length u \<le> length s" for u
    using length_dropWhile_le [of is_digit u] that by simp
  with eq show ?thesis by (fastforce simp: scan_exp_def Let_def split: if_splits)
qed

lemma number_tail_consumes: "number_tail neg ds r = Done v r' \<Longrightarrow> length r' \<le> length r"
  by (fastforce simp: number_tail_def Let_def split: prod.splits if_splits
      dest: length_scan_frac length_scan_exp)

lemma number_tail_Done: "\<exists>v r'. number_tail neg ds r = Done v r'"
  by (simp add: number_tail_def Let_def split: prod.splits)

lemma scan_number_consumes: "scan_number s = Done v r \<Longrightarrow> length r < length s"
proof -
  assume eq: "scan_number s = Done v r"
  define t where "t = (if s \<noteq> [] \<and> hd s = 45 then tl s else s)"
  have t: "length t \<le> length s" by (simp add: t_def)
  from eq obtain c u where cu: "t = c # u"
    by (auto simp: scan_number_def Let_def t_def split: list.splits if_splits)
  have "length (dropWhile is_digit t) < length t" if "is_digit c"
    using that length_dropWhile_le [of is_digit u] by (simp add: cu)
  with eq t cu show ?thesis
    by (auto simp: scan_number_def Let_def simp flip: t_def split: if_splits
        dest!: number_tail_consumes)
qed

lemma scan_number_not_starved: "scan_number s \<noteq> Starved"
  using number_tail_Done by (auto simp: scan_number_def Let_def split: list.splits)
    (metis pres.distinct(3))+

lemma scan_const_cases:
  "scan_const s = Bad \<or> (\<exists>v r. scan_const s = Done v r \<and> length r < length s)"
proof (cases "scan_const s = Bad")
  case False
  then obtain n v where f: "find (\<lambda>(n, v). prefix n s)
      [(lit ''null'', JNull), (lit ''true'', JBool True), (lit ''false'', JBool False),
       (lit ''NaN'', JFloat NaN), (lit ''Infinity'', JFloat (Inf False)),
       (lit ''-Infinity'', JFloat (Inf True))] = Some (n, v)"
    by (auto simp: scan_const_def split: option.splits)
  then have "n \<noteq> []" "prefix n s" by (auto split: if_splits)
  then have "0 < length n" "length n \<le> length s" by (auto dest: prefix_length_le)
  then have "length (drop (length n) s) < length s" by (simp only: length_drop)
  with f show ?thesis by (simp add: scan_const_def)
qed simp

lemma map_pres_Done: "map_pres f p = Done y r \<longleftrightarrow> (\<exists>x. p = Done x r \<and> y = f x)"
  by (cases p) auto

lemma map_pres_eq_simps [simp]:
  "map_pres f p = Starved \<longleftrightarrow> p = Starved" "map_pres f p = Bad \<longleftrightarrow> p = Bad"
  by (cases p; simp)+

lemma scan_atom_not_starved [simp]: "scan_atom s \<noteq> Starved"
  using scan_const_cases [of s] by (auto simp: scan_atom_def scan_number_not_starved)

lemma scan_atom_consumes: "scan_atom s = Done v r \<Longrightarrow> length r < length s"
  using scan_const_cases [of s] by (auto simp: scan_atom_def dest: scan_number_consumes)

lemma skip_ws_tl: "t = skip_ws r \<Longrightarrow> length (tl t) \<le> length r"
  using length_skip_ws [of r] by simp

lemma parse_consumes:
  "parse_value n s = Done v r \<Longrightarrow> length r < length s"
  "parse_elems n s = Done vs r \<Longrightarrow> length r < length s"
  "parse_members n s = Done kvs r \<Longrightarrow> length r < length s"
proof (induction n s and n s and n s arbitrary: v r and vs r and kvs r
    rule: parse_value_parse_elems_parse_members.induct)
  case (2 n s)
  show ?case
  proof (cases s)
    case (Cons c t)
    have sk: "length (skip_ws t) \<le> length t" by (rule length_skip_ws)
    consider "c = 34" | "c = 123" "c \<noteq> 34" | "c = 91" "c \<noteq> 34" | "c \<noteq> 34" "c \<noteq> 123" "c \<noteq> 91" by blast
    then show ?thesis
    proof cases
      case 1
      with 2(3) Cons show ?thesis
        by (fastforce split: option.splits dest: scan_str_consumes)
    next
      case 2
      with "2.prems" "2.IH"(1)[OF Cons] Cons sk show ?thesis
        by (fastforce simp: Let_def map_pres_Done split: if_splits)
    next
      case 3
      with "2.prems" "2.IH"(2)[OF Cons] Cons sk show ?thesis
        by (fastforce simp: Let_def map_pres_Done split: if_splits)
    next
      case 4
      with "2.prems" Cons have "scan_atom s = Done v r" by simp
      then show ?thesis by (rule scan_atom_consumes)
    qed
  qed (use "2.prems" in simp)
next
  case (4 n s)
  from "4.prems" obtain v0 r0 where v0: "parse_value n s = Done v0 r0"
    by (auto split: pres.splits)
  have l: "length r0 < length s" using "4.IH"(1)[OF v0] .
  have sk: "length (skip_ws r0) \<le> length r0" "length (skip_ws (tl (skip_ws r0))) \<le> length (tl (skip_ws r0))"
    by (rule length_skip_ws)+
  show ?case
    using "4.prems" v0 l sk "4.IH"(2)[OF v0 refl]
    by (fastforce simp: Let_def map_pres_Done split: if_splits)
next
  case (6 n s)
  from "6.prems" obtain k r1 where k: "scan_str (tl s) = Some (k, r1)" and s: "\<not> (s = [] \<or> hd s \<noteq> 34)"
    by (auto split: if_splits option.splits)
  from "6.prems" k s obtain v0 r0 where colon: "\<not> (skip_ws r1 = [] \<or> hd (skip_ws r1) \<noteq> 58)"
    and v0: "parse_value n (skip_ws (tl (skip_ws r1))) = Done v0 r0"
    by (auto simp: Let_def split: if_splits pres.splits)
  have l: "length r0 < length (skip_ws (tl (skip_ws r1)))"
    using "6.IH"(1)[OF s k refl refl colon v0] .
  have l1: "length r1 < length (tl s)" using k by (rule scan_str_consumes)
  have sk: "length (skip_ws u) \<le> length u" for u by (rule length_skip_ws)
  show ?case
    using "6.prems" s k colon v0 l l1 sk [of r0] sk [of r1] sk [of "tl (skip_ws r1)"]
      sk [of "tl (skip_ws r0)"] "6.IH"(2)[OF s k refl refl colon v0 refl]
    by (fastforce simp: Let_def map_pres_Done split: if_splits)
qed simp_all

subsection \<open>Fuel\<close>

lemma parse_not_starved:
  "2 * length s < n \<Longrightarrow> parse_value n s \<noteq> Starved"
  "2 * length s + 1 < n \<Longrightarrow> parse_elems n s \<noteq> Starved"
  "2 * length s + 1 < n \<Longrightarrow> parse_members n s \<noteq> Starved"
proof (induction n s and n s and n s rule: parse_value_parse_elems_parse_members.induct)
  case (2 n s)
  show ?case
  proof (cases s)
    case (Cons c t)
    have sk: "length (skip_ws t) \<le> length t" by (rule length_skip_ws)
    consider "c = 34" | "c = 123" "c \<noteq> 34" | "c = 91" "c \<noteq> 34" "c \<noteq> 123"
      | "c \<noteq> 34" "c \<noteq> 123" "c \<noteq> 91" by blast
    then show ?thesis
    proof cases
      case 1
      with Cons show ?thesis by (simp split: option.splits)
    next
      case 2
      with "2.prems" "2.IH"(1)[OF Cons] Cons sk show ?thesis by (simp add: Let_def)
    next
      case 3
      with "2.prems" "2.IH"(2)[OF Cons] Cons sk show ?thesis by (simp add: Let_def)
    next
      case 4
      with Cons show ?thesis by simp
    qed
  qed simp
next
  case (4 n s)
  have nv: "parse_value n s \<noteq> Starved" using "4.IH"(1) "4.prems" by simp
  have rec: "parse_elems n (skip_ws (tl (skip_ws r))) \<noteq> Starved" if v: "parse_value n s = Done v r"
      and c: "skip_ws r \<noteq> [] \<and> hd (skip_ws r) = 44" for v r
  proof (rule "4.IH"(2)[OF v refl])
    have "length r < length s" using v by (rule parse_consumes)
    moreover have "length (skip_ws (tl (skip_ws r))) \<le> length r - 1"
      using length_skip_ws [of "tl (skip_ws r)"] length_skip_ws [of r] by simp
    ultimately show "2 * length (skip_ws (tl (skip_ws r))) + 1 < n" using "4.prems" by simp
  qed (use c in auto)
  show ?case using nv rec by (auto simp: Let_def split: pres.splits)
next
  case (6 n s)
  show ?case
  proof (cases "s = [] \<or> hd s \<noteq> 34")
    case False
    show ?thesis
    proof (cases "scan_str (tl s)")
      case None
      with False show ?thesis by simp
    next
      case (Some kr)
      obtain k r where kr: "scan_str (tl s) = Some (k, r)" using Some by (cases kr) simp
      let ?t = "skip_ws r"
      let ?u = "skip_ws (tl ?t)"
      have len: "length r < length (tl s)" using kr by (rule scan_str_consumes)
      show ?thesis
      proof (cases "?t = [] \<or> hd ?t \<noteq> 58")
        case True
        with False kr show ?thesis by simp
      next
        case colon: False
        have lu: "length ?u < length s"
          using len length_skip_ws [of r] length_skip_ws [of "tl ?t"] False by (cases s) auto
        have nv: "parse_value n ?u \<noteq> Starved"
          using "6.IH"(1)[OF False kr refl refl colon] lu "6.prems" by simp
        have rec: "parse_members n (skip_ws (tl (skip_ws r'))) \<noteq> Starved"
          if v: "parse_value n ?u = Done v r'"
            and c: "skip_ws r' \<noteq> [] \<and> hd (skip_ws r') \<noteq> 125 \<and> hd (skip_ws r') = 44" for v r'
        proof (rule "6.IH"(2)[OF False kr refl refl colon v refl])
          have "length r' < length ?u" using v by (rule parse_consumes)
          then show "2 * length (skip_ws (tl (skip_ws r'))) + 1 < n"
            using lu length_skip_ws [of "tl (skip_ws r')"] length_skip_ws [of r'] "6.prems" by simp
        qed (use c in auto)
        show ?thesis
        proof (cases "parse_value n ?u")
          case (Done v r')
          with False kr colon rec [OF Done] show ?thesis by (simp add: Let_def)
        qed (use False kr colon nv in \<open>simp_all add: Let_def\<close>)
      qed
    qed
  qed simp
qed simp_all

text \<open>More fuel never changes a result.\<close>

lemma parse_fuel_Suc:
  "parse_value n s \<noteq> Starved \<Longrightarrow> parse_value (Suc n) s = parse_value n s"
  "parse_elems n s \<noteq> Starved \<Longrightarrow> parse_elems (Suc n) s = parse_elems n s"
  "parse_members n s \<noteq> Starved \<Longrightarrow> parse_members (Suc n) s = parse_members n s"
proof (induction n s and n s and n s rule: parse_value_parse_elems_parse_members.induct)
  case (2 n s)
  show ?case
  proof (cases s)
    case (Cons c t)
    have members: "parse_members (Suc n) (skip_ws t) = parse_members n (skip_ws t)"
      if "c = 123" "\<not> (skip_ws t \<noteq> [] \<and> hd (skip_ws t) = 125)"
      using "2.prems" "2.IH"(1)[OF Cons _ that(1) refl that(2)] that by (simp add: Cons Let_def)
    have elems: "parse_elems (Suc n) (skip_ws t) = parse_elems n (skip_ws t)"
      if "c = 91" "\<not> (skip_ws t \<noteq> [] \<and> hd (skip_ws t) = 93)"
      using "2.prems" "2.IH"(2)[OF Cons _ _ that(1) refl that(2)] that by (simp add: Cons Let_def)
    show ?thesis
      using members elems unfolding Cons
      by (subst (1 2) parse_value.simps(2), cases "skip_ws t")
        (simp_all add: Let_def del: parse_elems.simps parse_members.simps parse_value.simps)
  qed simp
next
  case (4 n s)
  have nv: "parse_value n s \<noteq> Starved" using "4.prems" by (auto split: pres.splits)
  have v': "parse_value (Suc n) s = parse_value n s" using "4.IH"(1) nv .
  show ?case
  proof (cases "parse_value n s")
    case (Done v r)
    let ?w = "skip_ws r"
    have rec: "parse_elems (Suc n) (skip_ws (tl ?w)) = parse_elems n (skip_ws (tl ?w))"
      if "\<not> (?w \<noteq> [] \<and> hd ?w = 93)" "?w \<noteq> [] \<and> hd ?w = 44"
      using "4.IH"(2)[OF Done refl that] "4.prems" that Done by (simp add: Let_def)
    show ?thesis
      using rec Done v'
      by (subst (1 2) parse_elems.simps(2))
        (auto simp: Let_def simp del: parse_elems.simps parse_value.simps)
  qed (use v' nv in \<open>subst (1 2) parse_elems.simps(2), simp del: parse_elems.simps parse_value.simps\<close>)+
next
  case (6 n s)
  show ?case
  proof (cases "s = [] \<or> hd s \<noteq> 34 \<or> scan_str (tl s) = None")
    case False
    then obtain k r where s: "\<not> (s = [] \<or> hd s \<noteq> 34)" and kr: "scan_str (tl s) = Some (k, r)"
      by auto
    show ?thesis
    proof (cases "skip_ws r = [] \<or> hd (skip_ws r) \<noteq> 58")
      case colon: False
      let ?u = "skip_ws (tl (skip_ws r))"
      have nv: "parse_value n ?u \<noteq> Starved"
        using "6.prems" s kr colon by (auto simp: Let_def split: pres.splits)
      have v': "parse_value (Suc n) ?u = parse_value n ?u"
        using "6.IH"(1)[OF s kr refl refl colon] nv .
      show ?thesis
      proof (cases "parse_value n ?u")
        case (Done v r')
        let ?w = "skip_ws r'"
        have rec: "parse_members (Suc n) (skip_ws (tl ?w)) = parse_members n (skip_ws (tl ?w))"
          if "?w \<noteq> [] \<and> hd ?w \<noteq> 125 \<and> hd ?w = 44"
          using "6.IH"(2)[OF s kr refl refl colon Done refl] "6.prems" that s kr colon Done
          by (simp add: Let_def)
        show ?thesis
          using rec Done v' s kr colon
          by (subst (1 2) parse_members.simps(2))
            (simp add: Let_def del: parse_members.simps parse_value.simps)
      qed (use v' nv s kr colon in
          \<open>subst (1 2) parse_members.simps(2), simp add: Let_def del: parse_members.simps parse_value.simps\<close>)+
    qed (use s kr in \<open>simp\<close>)
  qed (auto split: option.splits)
qed simp_all

lemma parse_value_more_fuel:
  assumes "parse_value n s = Done v r" "n \<le> m"
  shows "parse_value m s = Done v r"
  using assms(2)
proof (induction m rule: dec_induct)
  case (step m)
  then show ?case using parse_fuel_Suc(1) [of m s] by simp
qed (rule assms(1))

lemma parse_elems_more_fuel:
  assumes "parse_elems n s = Done v r" "n \<le> m"
  shows "parse_elems m s = Done v r"
  using assms(2)
proof (induction m rule: dec_induct)
  case (step m)
  then show ?case using parse_fuel_Suc(2) [of m s] by simp
qed (rule assms(1))

lemma parse_members_more_fuel:
  assumes "parse_members n s = Done v r" "n \<le> m"
  shows "parse_members m s = Done v r"
  using assms(2)
proof (induction m rule: dec_induct)
  case (step m)
  then show ?case using parse_fuel_Suc(3) [of m s] by simp
qed (rule assms(1))

text \<open>A value that some amount of fuel parses is what \<open>loads\<close> finds.\<close>

lemma loads_Done:
  assumes "parse_value n (skip_ws s) = Done v r" "skip_ws r = []" "s = [] \<or> hd s \<noteq> 65279"
  shows "loads s = Some v"
proof -
  have ns: "parse_value (json_fuel s) (skip_ws s) \<noteq> Starved"
    using length_skip_ws [of s] by (intro parse_not_starved) (simp add: json_fuel_def)
  let ?m = "max n (json_fuel s)"
  have D: "parse_value ?m (skip_ws s) = Done v r"
    using assms(1) by (rule parse_value_more_fuel) simp
  have same: "parse_value m (skip_ws s) = parse_value (json_fuel s) (skip_ws s)"
    if "json_fuel s \<le> m" for m
    using that
  proof (induction m rule: dec_induct)
    case (step m)
    then show ?case using parse_fuel_Suc(1) [of m "skip_ws s"] ns by simp
  qed simp
  have "parse_value (json_fuel s) (skip_ws s) = Done v r"
    using same [of ?m] D by simp
  moreover have "\<not> (s \<noteq> [] \<and> hd s = 65279)" using assms(3) by blast
  ultimately show ?thesis unfolding loads_def by (simp only: if_False pres.case assms(2) simp_thms if_True)
qed

subsection \<open>Strings survive encoding and decoding\<close>

definition text_ok :: "ustr \<Rightarrow> bool" where
  "text_ok s \<longleftrightarrow> (\<forall>c \<in> set s. c < 1114112 \<and> \<not> is_high c \<and> \<not> is_low c)"

lemma hex_val_digit: "d < 16 \<Longrightarrow> hex_val (hex_digit d) = Some d"
  by (auto simp: hex_val_def hex_digit_def)

lemma hex4_esc:
  assumes "n < 65536"
  shows "hex4 (hex_digit (n div 4096 mod 16)) (hex_digit (n div 256 mod 16))
           (hex_digit (n div 16 mod 16)) (hex_digit (n mod 16)) = Some n"
proof -
  have "4096 * (n div 4096 mod 16) + 256 * (n div 256 mod 16) + 16 * (n div 16 mod 16) + n mod 16 = n"
  proof -
    have "n div 16 div 16 = n div 256" "n div 256 div 16 = n div 4096" by (simp_all flip: div_mult2_eq)
    moreover have "n div 4096 mod 16 = n div 4096" using assms by (simp add: less_mult_imp_div_less)
    ultimately show ?thesis
      using div_mult_mod_eq [of n 16] div_mult_mod_eq [of "n div 16" 16]
        div_mult_mod_eq [of "n div 256" 16] by linarith
  qed
  then show ?thesis unfolding hex4_def by (simp only: hex_val_digit mod_less_divisor
        zero_less_numeral option.case prod.case)
qed

lemma scan_toks_esc_u:
  assumes "n < 65536"
  shows "scan_toks (esc_u n @ r) = push_tok (True, n) (scan_toks r)"
  using hex4_esc [OF assms] by (simp add: esc_u_def)

text \<open>The tokens the decoder sees for one encoded character.\<close>

definition char_toks :: "nat \<Rightarrow> (bool \<times> nat) list" where
  "char_toks c =
     (if c \<in> {34, 92, 10, 13, 9, 12, 8} then [(True, c)]
      else if 32 \<le> c \<and> c \<le> 126 then [(False, c)]
      else if c < 65536 then [(True, c)]
      else [(True, 55296 + (c - 65536) div 1024 mod 1024), (True, 56320 + (c - 65536) mod 1024)])"

fun push_toks :: "(bool \<times> nat) list \<Rightarrow> ((bool \<times> nat) list \<times> ustr) option \<Rightarrow> ((bool \<times> nat) list \<times> ustr) option"
where
  "push_toks [] p = p"
| "push_toks (t # ts) p = push_tok t (push_toks ts p)"

lemma push_toks_Some [simp]: "push_toks ts (Some (us, r)) = Some (ts @ us, r)"
  by (induction ts) auto

lemma scan_toks_dump_char: "scan_toks (dump_char c @ r) = push_toks (char_toks c) (scan_toks r)"
proof -
  have low: "55296 + (c - 65536) div 1024 mod 1024 < 65536" "56320 + (c - 65536) mod 1024 < 65536"
    by (simp_all add: less_trans [OF mod_less_divisor])
  consider "c \<in> {34, 92, 10, 13, 9, 12, 8}" | "c \<notin> {34, 92, 10, 13, 9, 12, 8}" "32 \<le> c \<and> c \<le> 126"
    | "c \<notin> {34, 92, 10, 13, 9, 12, 8}" "\<not> (32 \<le> c \<and> c \<le> 126)" "c < 65536"
    | "c \<notin> {34, 92, 10, 13, 9, 12, 8}" "\<not> (32 \<le> c \<and> c \<le> 126)" "\<not> c < 65536" by blast
  then show ?thesis
  proof cases
    case 1
    then show ?thesis by (auto simp: dump_char_def char_toks_def unescape_def)
  next
    case 2
    then show ?thesis by (simp add: dump_char_def char_toks_def)
  next
    case 3
    then show ?thesis by (auto simp: dump_char_def char_toks_def scan_toks_esc_u)
  next
    case 4
    then show ?thesis by (simp add: dump_char_def char_toks_def scan_toks_esc_u low)
  qed
qed

lemma scan_toks_dump_chars:
  "scan_toks (concat (map dump_char s) @ 34 # r) = Some (concat (map char_toks s), r)"
  by (induction s) (simp_all add: scan_toks_dump_char)

lemma join_surrogates_single:
  "\<not> is_high c \<Longrightarrow> join_surrogates ((e, c) # ts) = c # join_surrogates ts"
  by (cases ts) auto

lemma join_surrogates_char_toks:
  assumes "c < 1114112" "\<not> is_high c" "\<not> is_low c"
  shows "join_surrogates (char_toks c @ ts) = c # join_surrogates ts"
proof (cases "c < 65536")
  case True
  then show ?thesis using assms by (simp add: char_toks_def join_surrogates_single)
next
  case False
  then have d: "(c - 65536) div 1024 < 1024" using assms(1) by (simp add: less_mult_imp_div_less)
  then have m: "(c - 65536) div 1024 mod 1024 = (c - 65536) div 1024" by simp
  have "(c - 65536) div 1024 * 1024 + (c - 65536) mod 1024 = c - 65536" by simp
  moreover have "(c - 65536) mod 1024 < 1024" by simp
  ultimately show ?thesis
    using False d by (simp add: char_toks_def m is_high_def is_low_def)
qed

lemma scan_str_dump: "text_ok s \<Longrightarrow> scan_str (concat (map dump_char s) @ 34 # r) = Some (s, r)"
proof -
  assume ok: "text_ok s"
  have "join_surrogates (concat (map char_toks s)) = s"
    using ok by (induction s) (auto simp: text_ok_def join_surrogates_char_toks)
  then show ?thesis by (simp add: scan_str_def scan_toks_dump_chars)
qed

subsection \<open>Decoding inverts encoding\<close>

inductive json_ok :: "json \<Rightarrow> bool" where
  "json_ok JNull"
| "json_ok (JBool b)"
| "json_ok (JInt i)"
| "text_ok s \<Longrightarrow> json_ok (JStr s)"
| "(\<And>x. x \<in> set xs \<Longrightarrow> json_ok x) \<Longrightarrow> json_ok (JArr xs)"
| "distinct (map fst kvs) \<Longrightarrow> (\<And>k v. (k, v) \<in> set kvs \<Longrightarrow> text_ok k \<and> json_ok v) \<Longrightarrow> json_ok (JObj kvs)"

text \<open>What may follow a number without changing it: anything but a digit, dot or exponent.\<close>

definition closed_by :: "ustr \<Rightarrow> bool" where
  "closed_by r \<longleftrightarrow> r = [] \<or> \<not> is_digit (hd r) \<and> hd r \<noteq> 46 \<and> hd r \<noteq> 101 \<and> hd r \<noteq> 69"

lemma number_tail_closed:
  "closed_by r \<Longrightarrow> number_tail neg ds r = Done (JInt ((if neg then -1 else 1) * int (digits_val ds))) r"
  by (auto simp: closed_by_def number_tail_def scan_frac_def scan_exp_def)

lemma scan_number_show_nat:
  assumes "closed_by r"
  shows "scan_number (show_nat n @ r) = Done (JInt (int n)) r"
    and "scan_number (45 # show_nat n @ r) = Done (JInt (- int n)) r"
proof -
  obtain c t where ct: "show_nat n = c # t" by (cases "show_nat n") auto
  have digits: "\<forall>x \<in> set (c # t). is_digit x" using show_nat_digits [of _ n] by (simp add: ct)
  have take: "takeWhile is_digit ((c # t) @ r) = c # t" "dropWhile is_digit ((c # t) @ r) = r"
    using digits assms by (cases r; simp add: closed_by_def takeWhile_append2 dropWhile_append2)+
  have c0: "c = 48 \<Longrightarrow> t = [] \<and> n = 0"
    using hd_show_nat [of n] ct by (auto simp: show_nat.simps [of 0])
  have c45: "c \<noteq> 45" using digits by (auto simp: is_digit_def)
  have val: "digits_val (c # t) = n" using digits_val_show_nat [of n] by (simp add: ct)
  have tail: "(if c = 48 then number_tail neg [48] (t @ r)
      else if is_digit c then number_tail neg (takeWhile is_digit (c # t @ r)) (dropWhile is_digit (c # t @ r))
      else Bad) = Done (JInt ((if neg then -1 else 1) * int n)) r" for neg
    using c0 digits take val assms by (auto simp: number_tail_closed digits_val_def)
  show "scan_number (show_nat n @ r) = Done (JInt (int n)) r"
    using c45 tail [of False] by (simp add: scan_number_def ct)
  show "scan_number (45 # show_nat n @ r) = Done (JInt (- int n)) r"
    using tail [of True] by (simp add: scan_number_def ct)
qed

text \<open>What the first character of an encoded value can be.\<close>

definition opens_value :: "ustr \<Rightarrow> bool" where
  "opens_value s \<longleftrightarrow> s \<noteq> [] \<and> \<not> is_ws (hd s) \<and> hd s \<notin> {93, 125, 44, 58, 65279}"

lemma opens_append: "opens_value s \<Longrightarrow> opens_value (s @ r)"
  by (auto simp: opens_value_def)

lemma opens_Cons: "\<not> is_ws c \<Longrightarrow> c \<notin> {93, 125, 44, 58, 65279} \<Longrightarrow> opens_value (c # s)"
  by (simp add: opens_value_def)

lemma opens_show_nat: "opens_value (show_nat n)"
proof -
  have "is_digit (hd (show_nat n))" using show_nat_digits [of "hd (show_nat n)" n] by simp
  then show ?thesis by (auto simp: opens_value_def is_digit_def is_ws_def)
qed

lemma opens_dump: "json_ok v \<Longrightarrow> opens_value (dump ind lvl v)"
  by (cases v rule: json.exhaust; auto elim: json_ok.cases
      simp: dump_str_def show_int_def opens_show_nat text_simps is_ws_def intro!: opens_Cons)

lemma opens_dump_elems: "json_ok x \<Longrightarrow> opens_value (dump_elems ind lvl (x # xs))"
  using opens_append [OF opens_dump] by simp

lemma opens_dump_members: "opens_value (dump_members ind lvl ((k, v) # kvs))"
  by (simp add: dump_str_def opens_value_def is_ws_def)

lemma skip_ws_open: "opens_value s \<Longrightarrow> skip_ws s = s"
  by (cases s) (auto simp: opens_value_def skip_ws_def)

lemma skip_ws_closer: "\<not> is_ws c \<Longrightarrow> skip_ws (c # r) = c # r"
  by (simp add: skip_ws_def)

lemma skip_ws_spaces: "skip_ws (replicate n 32 @ s) = skip_ws s"
  by (induction n) (simp_all add: skip_ws_def is_ws_def)

lemma skip_ws_item_lead: "skip_ws (item_lead ind lvl @ s) = skip_ws s"
proof (cases ind)
  case (Some n)
  then show ?thesis using skip_ws_spaces [of "n * lvl" s] by (simp add: skip_ws_def is_ws_def)
qed simp

lemma skip_ws_comma_lead: "skip_ws (comma_lead ind lvl @ s) = skip_ws s"
  using skip_ws_item_lead [of ind] by (cases ind) (simp_all add: skip_ws_def is_ws_def)

lemma closed_by_item_lead: "\<not> is_digit c \<Longrightarrow> c \<notin> {46, 101, 69} \<Longrightarrow> closed_by (item_lead ind lvl @ c # r)"
  by (cases ind) (auto simp: closed_by_def is_digit_def)

lemma closed_by_Cons: "\<not> is_digit c \<Longrightarrow> c \<notin> {46, 101, 69} \<Longrightarrow> closed_by (c # r)"
  by (simp add: closed_by_def)

definition parses :: "ustr \<Rightarrow> json \<Rightarrow> ustr \<Rightarrow> bool" where
  "parses s v r \<longleftrightarrow> (\<exists>n. parse_value n s = Done v r)"

lemma parses_atom:
  assumes "scan_atom (c # s) = Done v r" "c \<notin> {34, 123, 91}"
  shows "parses (c # s) v r"
proof -
  have "parse_value (Suc 0) (c # s) = Done v r" using assms by simp
  then show ?thesis unfolding parses_def by blast
qed

lemma scan_const_number:
  "is_digit c \<or> c = 45 \<and> s \<noteq> [] \<and> hd s \<noteq> 73 \<Longrightarrow> scan_const (c # s) = Bad"
  by (cases s) (auto simp: scan_const_def text_simps is_digit_def)

lemma parses_int: "closed_by r \<Longrightarrow> parses (show_int i @ r) (JInt i) r"
proof -
  assume r: "closed_by r"
  define n where "n = nat \<bar>i\<bar>"
  obtain c t where ct: "show_nat n = c # t" by (cases "show_nat n") auto
  have c: "is_digit c" using show_nat_digits [of c n] by (simp add: ct)
  show ?thesis
  proof (cases "i < 0")
    case True
    then have i: "i = - int n" and eq: "show_int i = 45 # show_nat n"
      by (simp_all add: n_def show_int_def text_simps)
    have "scan_atom (45 # c # t @ r) = Done (JInt i) r"
      using scan_number_show_nat(2) [OF r, of n] c
      by (simp add: i scan_atom_def scan_const_number ct is_digit_def)
    then show ?thesis by (simp add: eq ct parses_atom)
  next
    case False
    then have i: "i = int n" and eq: "show_int i = show_nat n"
      by (simp_all add: n_def show_int_def)
    have "scan_atom (c # t @ r) = Done (JInt i) r"
      using scan_number_show_nat(1) [OF r, of n] c
      by (simp add: i scan_atom_def scan_const_number ct)
    then show ?thesis using c by (auto simp: eq ct is_digit_def intro: parses_atom)
  qed
qed

lemma parses_str: "text_ok s \<Longrightarrow> parses (dump_str s @ r) (JStr s) r"
proof -
  assume "text_ok s"
  then have "parse_value (Suc 0) (dump_str s @ r) = Done (JStr s) r"
    by (simp add: dump_str_def scan_str_dump)
  then show ?thesis unfolding parses_def by blast
qed

lemma parses_const:
  "parses (lit ''null'' @ r) JNull r" "parses (lit ''true'' @ r) (JBool True) r"
  "parses (lit ''false'' @ r) (JBool False) r"
  by (auto simp: text_simps scan_atom_def scan_const_def intro!: parses_atom)

text \<open>
  Arrays and objects, given that their parts parse.  The parts' fuels are combined by taking
  the larger one.
\<close>

lemma elems_parse:
  assumes "\<And>x r. x \<in> set xs \<Longrightarrow> closed_by r \<Longrightarrow> parses (dump ind lvl x @ r) x r"
    and "\<And>x. x \<in> set xs \<Longrightarrow> json_ok x" and "xs \<noteq> []"
  shows "\<exists>n. parse_elems n (dump_elems ind lvl xs @ item_lead ind l' @ 93 # r) = Done xs r"
  using assms
proof (induction xs)
  case (Cons x xs)
  show ?case
  proof (cases xs)
    case Nil
    let ?r = "item_lead ind l' @ 93 # r"
    have "closed_by ?r" by (rule closed_by_item_lead) (simp_all add: is_digit_def)
    then obtain n where n: "parse_value n (dump ind lvl x @ ?r) = Done x ?r"
      using Cons.prems(1) [of x ?r] by (auto simp: parses_def)
    have "skip_ws ?r = 93 # r" by (simp add: skip_ws_item_lead skip_ws_closer is_ws_def)
    then have "parse_elems (Suc n) (dump_elems ind lvl (x # xs) @ ?r) = Done (x # xs) r"
      using n Nil by (simp add: Let_def)
    then show ?thesis by blast
  next
    case (Cons y ys)
    let ?t = "dump_elems ind lvl xs @ item_lead ind l' @ 93 # r"
    let ?r = "44 # comma_lead ind lvl @ ?t"
    have "closed_by ?r" by (rule closed_by_Cons) (simp_all add: is_digit_def)
    then obtain n where n: "parse_value n (dump ind lvl x @ ?r) = Done x ?r"
      using Cons.prems(1) [of x ?r] by (auto simp: parses_def)
    obtain m where m: "parse_elems m ?t = Done xs r"
      using Cons.IH Cons.prems \<open>xs = y # ys\<close> by auto
    let ?k = "max n m"
    have nk: "parse_value ?k (dump ind lvl x @ ?r) = Done x ?r"
      using n by (rule parse_value_more_fuel) simp
    have mk: "parse_elems ?k ?t = Done xs r" using m by (rule parse_elems_more_fuel) simp
    have "opens_value ?t"
      using \<open>xs = y # ys\<close> Cons.prems(2) by (auto intro: opens_append opens_dump_elems simp del: dump_elems.simps)
    then have sk: "skip_ws (comma_lead ind lvl @ ?t) = ?t"
      by (simp add: skip_ws_comma_lead skip_ws_open)
    have sr: "skip_ws ?r = ?r" by (simp add: skip_ws_closer is_ws_def)
    have eq: "dump_elems ind lvl (x # xs) @ item_lead ind l' @ 93 # r = dump ind lvl x @ ?r"
      using \<open>xs = y # ys\<close> by (subst dump_elems.simps(2)) simp
    have "parse_elems (Suc ?k) (dump ind lvl x @ ?r) = Done (x # xs) r"
      unfolding parse_elems.simps(2) nk pres.case sr Let_def by (simp add: sk mk)
    then have "parse_elems (Suc ?k) (dump_elems ind lvl (x # xs) @ item_lead ind l' @ 93 # r) = Done (x # xs) r"
      unfolding eq .
    then show ?thesis by blast
  qed
qed simp

lemma members_parse:
  assumes "\<And>k v r. (k, v) \<in> set kvs \<Longrightarrow> closed_by r \<Longrightarrow> parses (dump ind lvl v @ r) v r"
    and "\<And>k v. (k, v) \<in> set kvs \<Longrightarrow> text_ok k \<and> json_ok v" and "kvs \<noteq> []"
  shows "\<exists>n. parse_members n (dump_members ind lvl kvs @ item_lead ind l' @ 125 # r) = Done kvs r"
  using assms
proof (induction kvs)
  case (Cons kv kvs)
  obtain k v where kv: "kv = (k, v)" by (cases kv)
  have ok: "text_ok k" "json_ok v" using Cons.prems(2) [of k v] by (simp_all add: kv)
  let ?tail = "if kvs = [] then item_lead ind l' @ 125 # r
    else 44 # comma_lead ind lvl @ dump_members ind lvl kvs @ item_lead ind l' @ 125 # r"
  let ?body = "dump ind lvl v @ ?tail"
  have eq: "dump_members ind lvl (kv # kvs) @ item_lead ind l' @ 125 # r =
      34 # concat (map dump_char k) @ 34 # lit '': '' @ ?body"
    by (simp add: kv dump_str_def del: dump_members.simps add: dump_members.simps(2) [of ind lvl k v kvs])
  have key: "scan_str (concat (map dump_char k) @ 34 # lit '': '' @ ?body) = Some (k, lit '': '' @ ?body)"
    using ok(1) by (rule scan_str_dump)
  have colon: "skip_ws (lit '': '' @ ?body) = lit '': '' @ ?body"
    by (simp add: text_simps skip_ws_closer is_ws_def)
  have "opens_value ?body" using ok(2) by (intro opens_append opens_dump)
  then have body: "skip_ws (32 # ?body) = ?body"
    using skip_ws_spaces [of 1 ?body] by (simp add: skip_ws_open)
  have "closed_by ?tail"
    using closed_by_item_lead [of 125 ind l' r] by (simp add: closed_by_Cons is_digit_def)
  then obtain n where n: "parse_value n ?body = Done v ?tail"
    using Cons.prems(1) [of k v ?tail] by (auto simp: parses_def kv)
  show ?case
  proof (cases kvs)
    case Nil
    have "skip_ws ?tail = 125 # r" using Nil by (simp add: skip_ws_item_lead skip_ws_closer is_ws_def)
    then have "parse_members (Suc n) (34 # concat (map dump_char k) @ 34 # lit '': '' @ ?body) = Done [(k, v)] r"
      using key colon body n by (simp add: Let_def text_simps)
    then show ?thesis unfolding eq unfolding kv Nil by blast
  next
    case (Cons kv' kvs')
    let ?t = "dump_members ind lvl kvs @ item_lead ind l' @ 125 # r"
    have "\<exists>m. parse_members m ?t = Done kvs r"
    proof (rule Cons.IH)
      show "parses (dump ind lvl v @ r) v r" if "(k, v) \<in> set kvs" "closed_by r" for k v r
        by (rule Cons.prems(1)) (use that in auto)
      show "text_ok k \<and> json_ok v" if "(k, v) \<in> set kvs" for k v
        by (rule Cons.prems(2)) (use that in auto)
    qed (use Cons in simp)
    then obtain m where m: "parse_members m ?t = Done kvs r" by blast
    let ?k = "max n m"
    have nk: "parse_value ?k ?body = Done v ?tail" using n by (rule parse_value_more_fuel) simp
    have mk: "parse_members ?k ?t = Done kvs r" using m by (rule parse_members_more_fuel) simp
    have "opens_value ?t"
      unfolding Cons by (cases kv') (auto intro: opens_append opens_dump_members simp del: dump_members.simps)
    then have sk: "skip_ws (comma_lead ind lvl @ ?t) = ?t"
      by (simp add: skip_ws_comma_lead skip_ws_open)
    have tail: "?tail = 44 # comma_lead ind lvl @ ?t" using Cons by simp
    have st: "skip_ws ?tail = ?tail" unfolding tail by (simp add: skip_ws_closer is_ws_def)
    have "parse_members (Suc ?k) (34 # concat (map dump_char k) @ 34 # lit '': '' @ ?body) = Done ((k, v) # kvs) r"
      using key colon body nk mk sk st unfolding tail by (simp add: Let_def text_simps)
    then show ?thesis unfolding eq unfolding kv by blast
  qed
qed simp

lemma parses_dump: "json_ok v \<Longrightarrow> closed_by r \<Longrightarrow> parses (dump ind lvl v @ r) v r"
proof (induction v arbitrary: lvl r rule: json_ok.induct)
  case (2 b)
  then show ?case using parses_const by simp
next
  case (5 xs)
  show ?case
  proof (cases "xs = []")
    case True
    have "parse_value (Suc 0) (dump ind lvl (JArr []) @ r) = Done (JArr []) r"
      by (simp add: text_simps skip_ws_closer is_ws_def)
    with True show ?thesis unfolding parses_def by blast
  next
    case False
    let ?t = "dump_elems ind (Suc lvl) xs @ item_lead ind lvl @ 93 # r"
    obtain n where n: "parse_elems n ?t = Done xs r"
      using elems_parse [of xs ind "Suc lvl" lvl r] 5 False by blast
    have "opens_value ?t"
      using False 5 by (cases xs) (auto intro: opens_append opens_dump_elems simp del: dump_elems.simps)
    then have "skip_ws (item_lead ind (Suc lvl) @ ?t) = ?t" "hd ?t \<noteq> 93"
      by (simp_all add: skip_ws_item_lead skip_ws_open) (simp add: opens_value_def)
    then have "parse_value (Suc n) (dump ind lvl (JArr xs) @ r) = Done (JArr xs) r"
      using n False by (simp add: Let_def)
    then show ?thesis unfolding parses_def by blast
  qed
next
  case (6 kvs)
  show ?case
  proof (cases "kvs = []")
    case True
    have "parse_value (Suc 0) (dump ind lvl (JObj []) @ r) = Done (JObj []) r"
      by (simp add: text_simps skip_ws_closer is_ws_def)
    with True show ?thesis unfolding parses_def by blast
  next
    case False
    let ?t = "dump_members ind (Suc lvl) kvs @ item_lead ind lvl @ 125 # r"
    obtain n where n: "parse_members n ?t = Done kvs r"
      using members_parse [of kvs ind "Suc lvl" lvl r] 6 False by blast
    have "opens_value ?t"
      using False by (cases kvs) (auto intro: opens_append opens_dump_members simp del: dump_members.simps)
    then have "skip_ws (item_lead ind (Suc lvl) @ ?t) = ?t" "hd ?t \<noteq> 125"
      by (simp_all add: skip_ws_item_lead skip_ws_open) (simp add: opens_value_def)
    then have "parse_value (Suc n) (dump ind lvl (JObj kvs) @ r) = Done (JObj kvs) r"
      using n False dict_of_distinct [OF 6(1)] by (simp add: Let_def)
    then show ?thesis unfolding parses_def by blast
  qed
qed (simp_all add: parses_const parses_int parses_str)

text \<open>The round trip: what \<^verbatim>\<open>json.dumps\<close> wrote, \<^verbatim>\<open>json.loads\<close> reads back.\<close>

lemma loads_dumps: "json_ok v \<Longrightarrow> loads (dumps ind v) = Some v"
proof -
  assume ok: "json_ok v"
  then obtain n where "parse_value n (dump ind 0 v) = Done v []"
    using parses_dump [OF ok, of "[]" ind 0] by (auto simp: parses_def closed_by_def)
  moreover have "skip_ws (dump ind 0 v) = dump ind 0 v" "hd (dump ind 0 v) \<noteq> 65279"
    using opens_dump [OF ok, of ind 0] by (simp_all add: skip_ws_open) (simp add: opens_value_def)
  ultimately show ?thesis
    unfolding dumps_def by (intro loads_Done [of n _ v "[]"]) (simp_all add: skip_ws_def)
qed

subsection \<open>What a dump is made of\<close>

text \<open>ASCII only, and no control character but the line feeds of the layout.\<close>

definition dump_plain :: "ustr \<Rightarrow> bool" where
  "dump_plain s \<longleftrightarrow> (\<forall>c \<in> set s. c = 10 \<or> 32 \<le> c \<and> c \<le> 126)"

lemma dump_plain_simps [simp]:
  "dump_plain []"
  "dump_plain (c # s) \<longleftrightarrow> (c = 10 \<or> 32 \<le> c \<and> c \<le> 126) \<and> dump_plain s"
  "dump_plain (s @ t) \<longleftrightarrow> dump_plain s \<and> dump_plain t"
  "dump_plain (replicate n 32)"
  by (auto simp: dump_plain_def)

lemma dump_plain_leads: "dump_plain (item_lead ind n)" "dump_plain (comma_lead ind n)"
  by (cases ind; simp)+

lemma dump_plain_show_int: "dump_plain (show_int i)"
proof -
  have "dump_plain (show_nat n)" for n
    unfolding dump_plain_def by (fastforce dest: show_nat_digits simp: is_digit_def)
  then show ?thesis by (simp add: show_int_def text_simps)
qed

lemma dump_plain_esc: "dump_plain (esc_u n)"
proof -
  have "d < 16 \<Longrightarrow> 32 \<le> hex_digit d \<and> hex_digit d \<le> 126" for d by (auto simp: hex_digit_def)
  then show ?thesis by (simp add: esc_u_def)
qed

lemma dump_plain_char: "dump_plain (dump_char c)"
  by (simp add: dump_char_def dump_plain_esc)

lemma dump_plain_str: "dump_plain (dump_str s)"
proof -
  have "dump_plain (concat (map dump_char s))" by (induction s) (simp_all add: dump_plain_char)
  then show ?thesis by (simp add: dump_str_def)
qed

lemma dump_plain_lit:
  "dump_plain (lit ''null'')" "dump_plain (lit ''true'')" "dump_plain (lit ''false'')"
  "dump_plain (lit ''[]'')" "dump_plain (lit ''{}'')" "dump_plain (lit '': '')"
  by (simp_all add: text_simps)

lemma dump_plain_dump:
  "json_ok v \<Longrightarrow> dump_plain (dump ind lvl v)"
  "\<forall>x \<in> set xs. json_ok x \<Longrightarrow> dump_plain (dump_elems ind lvl xs)"
  "\<forall>(k, x) \<in> set kvs. json_ok x \<Longrightarrow> dump_plain (dump_members ind lvl kvs)"
proof (induction ind lvl v and ind lvl xs and ind lvl kvs rule: dump_dump_elems_dump_members.induct)
  case (4 ind lvl x)
  then show ?case by (auto elim: json_ok.cases)
next
  case (6 ind lvl xs)
  then show ?case by (auto simp: dump_plain_leads dump_plain_lit elim: json_ok.cases)
next
  case (7 ind lvl kvs)
  have "\<forall>(k, x) \<in> set kvs. json_ok x" using 7(2) by (auto elim: json_ok.cases)
  then show ?case using 7(1) by (simp add: dump_plain_leads dump_plain_lit)
qed (auto simp: dump_plain_leads dump_plain_lit dump_plain_show_int dump_plain_str)

lemma dumps_plain: "json_ok v \<Longrightarrow> dump_plain (dumps ind v)"
  by (simp add: dumps_def dump_plain_dump)

end
