(* ===== verification/Agents.thy ===== *)
theory Agents
  imports Prompts Artifacts Factory PyJsonLaws
begin

text \<open>
  The five LLM agents: \<^verbatim>\<open>agents/diagnosis.py\<close>, \<^verbatim>\<open>supervisor.py\<close>, \<^verbatim>\<open>code_fixer.py\<close>,
  \<^verbatim>\<open>infra_sre.py\<close>, \<^verbatim>\<open>security_reviewer.py\<close> and the shared \<^verbatim>\<open>_producer_contract.py\<close>.  An
  agent is parametric in its client and its configuration, and answers the keys to merge.

  The laws about parsing hold for every content.  What an agent does with a client is proved
  in the contexts of the client's locales, so it holds for the Ark and the GLM client and for
  the mock alike.
\<close>

type_synonym 'w agent = "agent_state \<Rightarrow> ('w, upd list) io"

subsection \<open>Shared steps\<close>

definition system_user :: "ustr \<Rightarrow> ustr \<Rightarrow> message list" where
  "system_user sys usr =
     [\<lparr>msg_role = System, msg_content = sys\<rparr>, \<lparr>msg_role = User, msg_content = usr\<rparr>]"

definition state_trace_id :: "agent_state \<Rightarrow> ustr" where
  "state_trace_id s = or_else (st_trace_id s) []"

definition ask :: "'w client \<Rightarrow> agent_model_config \<Rightarrow> ustr \<Rightarrow> ustr \<Rightarrow> message list \<Rightarrow>
    ('w, llm_response) io" where
  "ask client cfg name trace msgs =
     client msgs (cf_model cfg) trace name (cf_max_tokens cfg) (cf_temperature cfg)"

text \<open>
  \<^verbatim>\<open>json.loads(content).get(key, "")\<close> as far as a membership test in a set of strings can tell
  its values apart: malformed JSON, a top level that is no object and an unhashable value all
  end in the caught exceptions, other non-strings are in no such set.
\<close>

definition string_field :: "string \<Rightarrow> ustr \<Rightarrow> ustr option" where
  "string_field key content =
     (case loads content of
        None \<Rightarrow> None
      | Some data \<Rightarrow>
          (case jget data (lit key) (JStr []) of
             Inr (JStr s) \<Rightarrow> Some s
           | _ \<Rightarrow> None))"

subsection \<open>\<^verbatim>\<open>DiagnosisAgent\<close>\<close>

definition valid_categories :: "ustr list" where
  "valid_categories = [lit ''CODE'', lit ''INFRA'', lit ''CONFIG'', lit ''SECURITY'']"

definition parse_category :: "ustr \<Rightarrow> ustr" where
  "parse_category content =
     (case string_field ''category'' content of
        Some c \<Rightarrow> if c \<in> set valid_categories then c else lit ''CODE''
      | None \<Rightarrow> lit ''CODE'')"

definition diagnosis_run :: "'w client \<Rightarrow> agent_model_config \<Rightarrow> 'w agent" where
  "diagnosis_run client cfg s =
     (let elog = or_else (st_error_log s) [];
          stack = log_get elog ''stack_trace'' JNull;
          usr = diagnosis_user_prompt
                  (py_str (log_get elog ''service_name'' (JStr (lit ''unknown''))))
                  (py_str (log_get elog ''error_type'' (JStr (lit ''unknown''))))
                  (py_str (log_get elog ''message'' (JStr [])))
                  (if truthy stack then py_str stack else lit ''(none)'')
      in io_bind (ask client cfg (lit ''diagnosis'') (state_trace_id s)
                   (system_user diagnosis_system_prompt usr))
           (\<lambda>r. io_return [UCategory (parse_category (rs_content r)),
                          UAgentTrace [lit ''DiagnosisAgent'']]))"

subsection \<open>\<^verbatim>\<open>SupervisorAgent\<close>\<close>

definition valid_specialists :: "ustr list" where
  "valid_specialists = [lit ''code_fixer'', lit ''infra_sre'']"

text \<open>The fallback rationale is Chinese: the model failed to parse, fall back to the code fixer.\<close>

definition fallback_rationale :: ustr where
  "fallback_rationale =
     lit ''LLM '' @ [35299, 26512, 22833, 36133] @ lit '',fallback '' @ [21040] @ lit '' code_fixer''"

definition get_specialist_key :: "ustr option \<Rightarrow> ustr" where
  "get_specialist_key category =
     (if category \<in> {Some (lit ''INFRA''), Some (lit ''CONFIG'')} then lit ''infra_sre''
      else lit ''code_fixer'')"

definition parse_routing :: "ustr \<Rightarrow> ustr \<times> ustr" where
  "parse_routing content =
     (case (string_field ''specialist'' content, string_field ''rationale'' content) of
        (Some sp, Some ra) \<Rightarrow>
          if sp \<in> set valid_specialists \<and> ra \<noteq> [] then (sp, ra)
          else (lit ''code_fixer'', fallback_rationale)
      | _ \<Rightarrow> (lit ''code_fixer'', fallback_rationale))"

definition format_context :: "agent_state \<Rightarrow> ustr" where
  "format_context s =
     (let elog = or_else (st_error_log s) [];
          stack = log_get elog ''stack_trace'' JNull;
          log_parts =
            (if elog = [] then []
             else [lit ''service: '' @ py_str (log_get elog ''service_name'' (JStr (lit ''unknown''))),
                   lit ''error_type: '' @ py_str (log_get elog ''error_type'' (JStr (lit ''unknown''))),
                   lit ''message: '' @ py_str (log_get elog ''message'' (JStr []))] @
                  (if truthy stack then [lit ''stack_trace: '' @ py_str stack] else []));
          ana_parts =
            (case st_analysis_result s of
               None \<Rightarrow> []
             | Some (AnaText t) \<Rightarrow> [lit ''analysis: '' @ t]
             | Some (AnaDict a) \<Rightarrow>
                 (if an_category a \<noteq> [] then [lit ''analysis_category: '' @ an_category a] else []) @
                 (if an_hypothesis a \<noteq> [] then [lit ''root_cause: '' @ an_hypothesis a] else []));
          parts = log_parts @ ana_parts
      in if parts = [] then lit ''(no context available)'' else join newline parts)"

definition supervisor_run :: "'w client \<Rightarrow> agent_model_config \<Rightarrow> 'w agent" where
  "supervisor_run client cfg s =
     io_bind (ask client cfg (lit ''supervisor'') (state_trace_id s)
               (system_user supervisor_system_prompt (supervisor_user_prompt (format_context s))))
       (\<lambda>r. let (sp, ra) = parse_routing (rs_content r)
            in io_return [USpecialist sp, URouting ra, UAgentTrace [lit ''SupervisorAgent'']])"

subsection \<open>The fix generators\<close>

text \<open>\<^verbatim>\<open>complete_script_artifact\<close>: at most one retry, with the compile error appended.\<close>

definition ask_artifact :: "'w client \<Rightarrow> agent_model_config \<Rightarrow> ustr \<Rightarrow> ustr \<Rightarrow> message list \<Rightarrow>
    ('w, ustr) io" where
  "ask_artifact client cfg name trace msgs =
     io_bind (ask client cfg name trace msgs) (\<lambda>r. io_return (strip_markdown_fence (rs_content r)))"

definition complete_script_artifact ::
  "host \<Rightarrow> 'w client \<Rightarrow> agent_model_config \<Rightarrow> message list \<Rightarrow> ustr \<Rightarrow> ustr \<Rightarrow> ('w, ustr) io" where
  "complete_script_artifact h client cfg msgs name trace =
     io_bind (ask_artifact client cfg name trace msgs) (\<lambda>artifact.
     io_bind (io_lift (compile_error h artifact)) (\<lambda>error.
       case error of
         None \<Rightarrow> io_return artifact
       | Some e \<Rightarrow>
           ask_artifact client cfg name trace
             (msgs @ [\<lparr>msg_role = Assistant, msg_content = artifact\<rparr>,
                      \<lparr>msg_role = User, msg_content = retry_message e artifact\<rparr>])))"

text \<open>\<^verbatim>\<open>_build_error_context\<close>; \<^verbatim>\<open>dict()\<close> of a non-empty text raises.\<close>

definition build_error_context :: "agent_state \<Rightarrow> ustr result" where
  "build_error_context s =
     (let elog = or_else (st_error_log s) [];
          ctx = (\<lambda>hyp. lit ''service='' @ py_str (log_get elog ''service_name'' (JStr (lit ''unknown''))) @
                       lit '' error_type='' @ py_str (log_get elog ''error_type'' (JStr (lit ''unknown''))) @
                       lit '' message='' @ py_str (log_get elog ''message'' (JStr [])) @
                       lit '' hypothesis='' @ hyp)
      in case st_analysis_result s of
           None \<Rightarrow> Inr (ctx (lit ''(none)''))
         | Some (AnaDict a) \<Rightarrow> Inr (ctx (an_hypothesis a))
         | Some (AnaText t) \<Rightarrow>
             if t = [] then Inr (ctx (lit ''(none)''))
             else Inl (ValueError
               (lit ''dictionary update sequence element #0 has length 1; 2 is required'')))"

definition category_text :: "agent_state \<Rightarrow> ustr" where
  "category_text s = or_else (st_error_category s) (lit ''None'')"

definition code_fixer_run :: "host \<Rightarrow> 'w client \<Rightarrow> agent_model_config \<Rightarrow> 'w agent" where
  "code_fixer_run h client cfg s =
     io_bind (io_lift (build_error_context s)) (\<lambda>ctx.
     io_bind (complete_script_artifact h client cfg
               (system_user code_fixer_system_prompt (code_fixer_user_prompt (category_text s) ctx))
               (lit ''code_fixer'') (state_trace_id s))
       (\<lambda>artifact. io_return [UArtifact artifact, UAgentTrace [lit ''CodeFixerAgent'']]))"

definition infra_sre_run :: "host \<Rightarrow> 'w client \<Rightarrow> agent_model_config \<Rightarrow> 'w agent" where
  "infra_sre_run h client cfg s =
     io_bind (io_lift (build_error_context s)) (\<lambda>ctx.
     io_bind (complete_script_artifact h client cfg
               (system_user infra_sre_system_prompt (infra_sre_user_prompt (category_text s) ctx))
               (lit ''infra_sre'') (state_trace_id s))
       (\<lambda>artifact. io_return [UArtifact artifact, UAgentTrace [lit ''InfraSREAgent'']]))"

subsection \<open>\<^verbatim>\<open>SecurityReviewerAgent\<close>\<close>

definition high_risk_keywords :: "ustr list" where
  "high_risk_keywords = map lit
     [''DROP TABLE'', ''DROP DATABASE'', ''TRUNCATE TABLE'',
      ''rm -rf /'', ''rm -rf ~'', ''chmod 777'', ''mkfs'', ''dd if='']"

definition secret_credential_keywords :: "ustr list" where
  "secret_credential_keywords = map lit
     [''secret_key'', ''secret key'', ''aws_secret'', ''api_key'', ''apikey'',
      ''private_key'', ''credential'', ''password'', ''passwd'',
      ''bcrypt'', ''scrypt'', ''argon2'', ''hashpw'', ''gensalt'', ''pbkdf2'']"

definition deny_listed :: "ustr \<Rightarrow> bool" where
  "deny_listed artifact \<longleftrightarrow>
     (\<exists>kw \<in> set high_risk_keywords. in_text kw artifact) \<or>
     (\<exists>kw \<in> set secret_credential_keywords. in_text kw (lower artifact))"

definition valid_verdicts :: "ustr list" where
  "valid_verdicts = [lit ''SAFE'', lit ''HIGH_RISK'', lit ''CAUTION'']"

definition parse_verdict :: "ustr \<Rightarrow> ustr" where
  "parse_verdict content =
     (case string_field ''verdict'' content of
        Some v \<Rightarrow> if v \<in> set valid_verdicts then v else lit ''CAUTION''
      | None \<Rightarrow> lit ''CAUTION'')"

definition security_reviewer_run :: "'w client \<Rightarrow> agent_model_config \<Rightarrow> 'w agent" where
  "security_reviewer_run client cfg s =
     (let artifact = or_else (st_fix_artifact s) [] in
      io_bind
        (io_catch
          (io_bind (ask client cfg (lit ''security_reviewer'') (state_trace_id s)
                     (system_user security_reviewer_system_prompt
                       (security_reviewer_user_prompt artifact)))
            (\<lambda>r. io_return (parse_verdict (rs_content r), rs_model r)))
          (\<lambda>e. case e of
             LLMTimeoutError _ \<Rightarrow> Some (io_return (lit ''HIGH_RISK'', cf_model cfg))
           | LLMProviderError _ \<Rightarrow> Some (io_return (lit ''HIGH_RISK'', cf_model cfg))
           | _ \<Rightarrow> None))
        (\<lambda>(llm_verdict, classifier).
          io_return
            [UVerdict (if deny_listed artifact then lit ''HIGH_RISK'' else llm_verdict),
             UClassifier classifier,
             UAgentTrace [lit ''SecurityReviewerAgent'']]))"

subsection \<open>Laws of the parsers\<close>

lemma parse_category_valid: "parse_category content \<in> set valid_categories"
  by (simp add: parse_category_def valid_categories_def split: option.splits)

lemma parse_routing_valid:
  "fst (parse_routing content) \<in> set valid_specialists \<and> snd (parse_routing content) \<noteq> []"
  by (auto simp: parse_routing_def valid_specialists_def fallback_rationale_def
      split: option.splits)

lemma parse_verdict_valid: "parse_verdict content \<in> set valid_verdicts"
  by (simp add: parse_verdict_def valid_verdicts_def split: option.splits)

text \<open>A field of a dumped object is read back, in any layout the model may choose.\<close>

lemma string_field_dumps:
  assumes "json_ok (JObj kvs)" "map_of kvs (lit key) = Some (JStr v)"
  shows "string_field key (dumps ind (JObj kvs)) = Some v"
  using assms loads_dumps [of "JObj kvs" ind] by (simp add: string_field_def)

lemma string_field_not_json: "loads content = None \<Longrightarrow> string_field key content = None"
  by (simp add: string_field_def)

subsection \<open>Laws of the deny list\<close>

lemma keywords_transparent:
  "kw \<in> set high_risk_keywords \<Longrightarrow> wrap_transparent kw"
  "kw \<in> set secret_credential_keywords \<Longrightarrow> wrap_transparent kw"
proof -
  have "list_all wrap_transparent high_risk_keywords"
    by (simp add: high_risk_keywords_def wrap_transparent_def wrapper_open_def wrapper_close_def
        lines_def text_simps sublist_code is_break_def)
  then show "kw \<in> set high_risk_keywords \<Longrightarrow> wrap_transparent kw" by (simp add: list_all_iff)
  have "list_all wrap_transparent secret_credential_keywords"
    by (simp add: secret_credential_keywords_def wrap_transparent_def wrapper_open_def wrapper_close_def
        lines_def text_simps sublist_code is_break_def)
  then show "kw \<in> set secret_credential_keywords \<Longrightarrow> wrap_transparent kw" by (simp add: list_all_iff)
qed

lemma deny_listed_wrap: "deny_listed (wrap_artifact a) \<longleftrightarrow> deny_listed a"
  by (simp add: deny_listed_def keywords_transparent in_wrap_artifact in_lower_wrap_artifact)

lemma deny_listed_part: "deny_listed a \<Longrightarrow> deny_listed (pre @ a @ post)"
  by (auto simp: deny_listed_def intro: sublist_appendI1 sublist_appendI2)

subsection \<open>How the agents end\<close>

lemma diagnosis_answer:
  assumes "diagnosis_run client cfg s w = (Inr us, w')"
  shows "\<exists>c \<in> set valid_categories. us = [UCategory c, UAgentTrace [lit ''DiagnosisAgent'']]"
  using assms parse_category_valid by (auto simp: diagnosis_run_def Let_def elim!: io_bind_cases)

lemma supervisor_answer:
  assumes "supervisor_run client cfg s w = (Inr us, w')"
  shows "\<exists>sp \<in> set valid_specialists. \<exists>ra. ra \<noteq> [] \<and>
    us = [USpecialist sp, URouting ra, UAgentTrace [lit ''SupervisorAgent'']]"
  using assms parse_routing_valid
  by (auto simp: supervisor_run_def Let_def split_beta elim!: io_bind_cases)

lemma ask_artifact_stripped:
  assumes "ask_artifact client cfg name trace msgs w = (Inr a, w')"
  shows "strip a = a"
  using assms by (auto simp: ask_artifact_def strip_markdown_fence_stripped elim!: io_bind_cases)

lemma complete_script_artifact_stripped:
  assumes "complete_script_artifact h client cfg msgs name trace w = (Inr a, w')"
  shows "strip a = a"
  using assms
  by (auto simp: complete_script_artifact_def split: option.splits
      elim!: io_bind_cases dest: ask_artifact_stripped)

lemma code_fixer_answer:
  assumes "code_fixer_run h client cfg s w = (Inr us, w')"
  shows "\<exists>a. strip a = a \<and> us = [UArtifact a, UAgentTrace [lit ''CodeFixerAgent'']]"
  using assms
  by (auto simp: code_fixer_run_def elim!: io_bind_cases dest: complete_script_artifact_stripped)

lemma infra_sre_answer:
  assumes "infra_sre_run h client cfg s w = (Inr us, w')"
  shows "\<exists>a. strip a = a \<and> us = [UArtifact a, UAgentTrace [lit ''InfraSREAgent'']]"
  using assms
  by (auto simp: infra_sre_run_def elim!: io_bind_cases dest: complete_script_artifact_stripped)

lemma io_catch_cases:
  assumes "io_catch m h w = (r, w'')"
  obtains (fine) x where "m w = (Inr x, w'')" "r = Inr x"
  | (uncaught) e where "m w = (Inl e, w'')" "h e = None" "r = Inl e"
  | (caught) e m' w' where "m w = (Inl e, w')" "h e = Some m'" "m' w' = (r, w'')"
  using assms by (auto simp: io_catch_def split: prod.splits sum.splits option.splits)

definition review_of :: "'w client \<Rightarrow> agent_model_config \<Rightarrow> agent_state \<Rightarrow> ('w, llm_response) io" where
  "review_of client cfg s =
     ask client cfg (lit ''security_reviewer'') (state_trace_id s)
       (system_user security_reviewer_system_prompt
         (security_reviewer_user_prompt (or_else (st_fix_artifact s) [])))"

text \<open>The reviewer by the outcome of its call: a verdict, the fail-safe, or any other exception.\<close>

lemma security_reviewer_cases:
  assumes "security_reviewer_run client cfg s w = (r, w')"
  obtains (reviewed) resp where "review_of client cfg s w = (Inr resp, w')"
      "r = Inr [UVerdict (if deny_listed (or_else (st_fix_artifact s) []) then lit ''HIGH_RISK''
                         else parse_verdict (rs_content resp)),
               UClassifier (rs_model resp), UAgentTrace [lit ''SecurityReviewerAgent'']]"
  | (failed) e where "review_of client cfg s w = (Inl e, w')"
      "(\<exists>m. e = LLMTimeoutError m \<or> e = LLMProviderError m)"
      "r = Inr [UVerdict (lit ''HIGH_RISK''), UClassifier (cf_model cfg),
               UAgentTrace [lit ''SecurityReviewerAgent'']]"
  | (raised) e where "review_of client cfg s w = (Inl e, w')" "r = Inl e"
      "\<And>m. e \<noteq> LLMTimeoutError m" "\<And>m. e \<noteq> LLMProviderError m"
proof (cases "review_of client cfg s w")
  case (Pair r0 w0)
  show ?thesis
  proof (cases r0)
    case (Inr resp)
    with assms Pair show ?thesis
      by (intro reviewed) (auto simp: security_reviewer_run_def review_of_def Let_def io_bind_def io_catch_def)
  next
    case (Inl e)
    show ?thesis
    proof (cases "\<exists>m. e = LLMTimeoutError m \<or> e = LLMProviderError m")
      case True
      with assms Pair Inl show ?thesis
        by (intro failed [of e])
          (auto simp: security_reviewer_run_def review_of_def Let_def io_bind_def io_catch_def)
    next
      case False
      with assms Pair Inl show ?thesis
        by (intro raised [of e])
          (auto simp: security_reviewer_run_def review_of_def Let_def io_bind_def io_catch_def
            split: exn.splits)
    qed
  qed
qed

subsection \<open>Agents over the client interface\<close>

lemma ask_steps: "\<forall>ms model name k temp. io_steps I R (client ms model trace name k temp) \<Longrightarrow>
    io_steps I R (ask client cfg name trace msgs)"
  by (simp add: ask_def)

text \<open>Whatever every client call with the state's trace id keeps, every agent keeps.\<close>

lemma agent_steps:
  assumes R: "preorder R"
    and c: "\<forall>ms model name k temp. io_steps I R (client ms model (state_trace_id s) name k temp)"
  shows "io_steps I R (diagnosis_run client cfg s)"
    and "io_steps I R (supervisor_run client cfg s)"
    and "io_steps I R (code_fixer_run h client cfg s)"
    and "io_steps I R (infra_sre_run h client cfg s)"
    and "io_steps I R (security_reviewer_run client cfg s)"
proof -
  have art: "io_steps I R (ask_artifact client cfg name (state_trace_id s) msgs)" for name msgs
    unfolding ask_artifact_def by (intro io_steps_intros R ask_steps c)
  have script: "io_steps I R (complete_script_artifact h client cfg msgs name (state_trace_id s))"
    for msgs name
    unfolding complete_script_artifact_def
    by (intro io_steps_intros R art) (auto split: option.split intro!: io_steps_intros R art)
  show "io_steps I R (diagnosis_run client cfg s)"
    unfolding diagnosis_run_def Let_def by (intro io_steps_intros R ask_steps c)
  show "io_steps I R (supervisor_run client cfg s)"
    unfolding supervisor_run_def Let_def split_beta by (intro io_steps_intros R ask_steps c)
  show "io_steps I R (code_fixer_run h client cfg s)"
    unfolding code_fixer_run_def by (intro io_steps_intros R script)
  show "io_steps I R (infra_sre_run h client cfg s)"
    unfolding infra_sre_run_def by (intro io_steps_intros R script)
  show "io_steps I R (security_reviewer_run client cfg s)"
    unfolding security_reviewer_run_def Let_def split_beta
    by (intro io_steps_intros R ask_steps c) (auto split: exn.splits intro!: io_steps_intros R)
qed

context llm_client
begin

lemma call_keeps:
  "\<forall>ms model name k temp. io_steps inv (\<lambda>_ _. True) (complete ms model trace name k temp)"
  using keeps_inv by (auto simp: io_steps_def)

lemmas agents_keep_inv = agent_steps [OF preorder_True call_keeps]

text \<open>No agent reaches its provider with a malformed trace id.\<close>

lemma ask_bad_trace:
  assumes "\<not> trace_id_ok trace"
  shows "\<exists>e. ask complete cfg name trace msgs w = (Inl e, w)"
  using bad_trace_raises [OF assms] unfolding ask_def by metis

lemma diagnosis_bad_trace:
  assumes "\<not> trace_id_ok (state_trace_id s)"
  shows "\<exists>e. diagnosis_run complete cfg s w = (Inl e, w)"
  unfolding diagnosis_run_def Let_def using ask_bad_trace [OF assms] by (meson io_bind_Inl)

lemma supervisor_bad_trace:
  assumes "\<not> trace_id_ok (state_trace_id s)"
  shows "\<exists>e. supervisor_run complete cfg s w = (Inl e, w)"
  unfolding supervisor_run_def Let_def using ask_bad_trace [OF assms] by (meson io_bind_Inl)

lemma review_bad_trace:
  assumes "\<not> trace_id_ok (state_trace_id s)"
  shows "\<exists>e. review_of complete cfg s w = (Inl e, w)"
  using ask_bad_trace [OF assms] by (simp add: review_of_def)

end

context metered_client
begin

lemma call_meters:
  "\<forall>ms model name k temp.
     io_steps inv (\<lambda>u v. spent u \<le> spent v \<and> (tripped u \<longrightarrow> tripped v))
       (complete ms model trace name k temp)"
  using keeps_inv spent_grows tripped_stays by (auto simp: io_steps_def)

lemmas agents_meter = agent_steps [OF preorder_conj [OF preorder_le preorder_implies] call_meters]

text \<open>A budget error that leaves an agent comes from a guard that is over its budget.\<close>

lemma ask_trips:
  "ask complete cfg name trace msgs w = (Inl (CostGuardError a b c d), w') \<Longrightarrow> tripped w'"
  unfolding ask_def by (rule trip_raises)

lemma artifact_trips:
  "ask_artifact complete cfg name trace msgs w = (Inl (CostGuardError a b c d), w') \<Longrightarrow> tripped w'"
  by (auto simp: ask_artifact_def elim!: io_bind_cases dest: ask_trips)

lemma compile_error_not_budget: "compile_error h a \<noteq> Inl (CostGuardError x y z u)"
  by (auto simp: compile_error_def split: compile_outcome.splits)

lemma script_trips:
  "complete_script_artifact h complete cfg msgs name trace w = (Inl (CostGuardError a b c d), w') \<Longrightarrow>
   tripped w'"
  by (auto simp: complete_script_artifact_def compile_error_not_budget split: option.splits
      elim!: io_bind_cases dest: artifact_trips)

lemma context_not_budget: "build_error_context s \<noteq> Inl (CostGuardError x y z u)"
  by (auto simp: build_error_context_def Let_def split: option.splits analysis.splits)

lemma agents_trip:
  "diagnosis_run complete cfg s w = (Inl (CostGuardError a b c d), w') \<Longrightarrow> tripped w'"
  "supervisor_run complete cfg s w = (Inl (CostGuardError a b c d), w') \<Longrightarrow> tripped w'"
  "code_fixer_run h complete cfg s w = (Inl (CostGuardError a b c d), w') \<Longrightarrow> tripped w'"
  "infra_sre_run h complete cfg s w = (Inl (CostGuardError a b c d), w') \<Longrightarrow> tripped w'"
  "security_reviewer_run complete cfg s w = (Inl (CostGuardError a b c d), w') \<Longrightarrow> tripped w'"
proof -
  show "security_reviewer_run complete cfg s w = (Inl (CostGuardError a b c d), w') \<Longrightarrow> tripped w'"
    by (erule security_reviewer_cases) (auto simp: review_of_def dest: ask_trips)
qed (auto simp: diagnosis_run_def supervisor_run_def code_fixer_run_def infra_sre_run_def
      Let_def split_beta context_not_budget elim!: io_bind_cases dest: ask_trips script_trips)

lemma io_bind_raises: "\<exists>e. fst (m w) = Inl e \<Longrightarrow> \<exists>e. fst (io_bind m f w) = Inl e"
  by (auto simp: io_bind_def split: prod.splits)

text \<open>After the guard has tripped, the agents that need an answer raise.\<close>

lemma ask_tripped:
  assumes "inv w" "tripped w"
  shows "\<exists>e. fst (ask complete cfg name trace msgs w) = Inl e"
  using tripped_never_succeeds [OF assms] unfolding ask_def by metis

lemma diagnosis_tripped:
  assumes "inv w" "tripped w"
  shows "\<exists>e. fst (diagnosis_run complete cfg s w) = Inl e"
  unfolding diagnosis_run_def Let_def by (intro io_bind_raises ask_tripped assms)

lemma supervisor_tripped:
  assumes "inv w" "tripped w"
  shows "\<exists>e. fst (supervisor_run complete cfg s w) = Inl e"
  unfolding supervisor_run_def Let_def by (intro io_bind_raises ask_tripped assms)

lemma script_tripped:
  assumes "inv w" "tripped w"
  shows "\<exists>e. fst (complete_script_artifact h complete cfg msgs name trace w) = Inl e"
proof -
  obtain e w' where "ask complete cfg name trace msgs w = (Inl e, w')"
    using ask_tripped [OF assms] by (metis prod.collapse)
  then have "ask_artifact complete cfg name trace msgs w = (Inl e, w')"
    by (simp add: ask_artifact_def)
  then show ?thesis by (simp add: complete_script_artifact_def)
qed

end

end
