(* ===== verification/Verifier.thy ===== *)
theory Verifier
  imports Agents
begin

text \<open>
  \<^verbatim>\<open>agents/verifier.py\<close>: the only part of the program that starts containers.  The \<^verbatim>\<open>try\<close>
  block is the computation \<open>run_in_container\<close>, which also answers whether a container was
  created, because the \<^verbatim>\<open>finally\<close> clause removes it on every way out: success, time-out,
  engine error and failure to clean up the temporary directory.

  The laws: nothing runs for a missing or rejected artifact; otherwise at most one container
  starts, with the network off, the memory bounded, the mount read-only and exactly the
  normalised code; whatever started is removed; and the agent itself never raises once the
  artifact is normalised.
\<close>

definition sandbox_image :: ustr where "sandbox_image = lit ''python:3.10-alpine''"
definition sandbox_timeout :: nat where "sandbox_timeout = 5"
definition sandbox_memory :: ustr where "sandbox_memory = lit ''64m''"
definition sandbox_command :: "ustr list" where
  "sandbox_command = [lit ''python'', lit ''/workspace/fix.py'']"

definition docker_call :: "docker_event \<Rightarrow> (world \<Rightarrow> 'a result) \<Rightarrow> (world, 'a) io" where
  "docker_call ev outcome = (\<lambda>w. (outcome w, w\<lparr>docker_log := docker_log w @ [ev]\<rparr>))"

definition may_fail :: "(world \<Rightarrow> exn option) \<Rightarrow> world \<Rightarrow> unit result" where
  "may_fail f w = (case f w of None \<Rightarrow> Inr () | Some e \<Rightarrow> Inl e)"

definition host_step :: "(world \<Rightarrow> exn option) \<Rightarrow> (world, unit) io" where
  "host_step f = (\<lambda>w. (may_fail f w, w))"

definition result_updates ::
  "norm_outcome \<times> ustr option \<Rightarrow> execution_result \<Rightarrow> upd list" where
  "result_updates nrm res =
     [UExecResult (Some res), UExecError None, UNormalization nrm,
      UAgentTrace [lit ''VerifierAgent'']]"

definition exec_ok :: "exec_status \<Rightarrow> int option \<Rightarrow> ustr \<Rightarrow> ustr \<Rightarrow> nat \<Rightarrow> execution_result" where
  "exec_ok st rc out err ms =
     \<lparr>ex_status = st, ex_return_code = rc, ex_stdout = out, ex_stderr = err,
      ex_duration_ms = ms, ex_error = None\<rparr>"

text \<open>The inner \<^verbatim>\<open>try\<close>: wait, read the logs, judge by the exit code; kill on time-out.\<close>

definition collect :: "host \<Rightarrow> norm_outcome \<times> ustr option \<Rightarrow> (world, upd list) io" where
  "collect h nrm = (\<lambda>start.
     io_catch
       (io_bind (docker_call (DockerWait sandbox_timeout) (h_docker_wait h)) (\<lambda>code.
        io_bind (\<lambda>now. (Inr (h_elapsed h start now), now)) (\<lambda>ms.
        io_bind (docker_call (DockerLogs True False) (h_docker_logs h True)) (\<lambda>out.
        io_bind (docker_call (DockerLogs False True) (h_docker_logs h False)) (\<lambda>err.
          io_return (result_updates nrm
            (exec_ok (if code = 0 then ExSuccess else ExFailure) (Some code) out err ms)))))))
       (\<lambda>e. case e of
          ReadTimeout _ \<Rightarrow>
            Some (\<lambda>now. let ms = h_elapsed h start now in
              io_bind (docker_call DockerKill (may_fail (h_docker_kill h))) (\<lambda>_.
                io_return (result_updates nrm (exec_ok ExTimeout None [] [] ms))) now)
        | _ \<Rightarrow> None)
       start)"

definition start_container :: "host \<Rightarrow> ustr \<Rightarrow> (world, unit) io" where
  "start_container h code =
     docker_call
       (DockerRun sandbox_image sandbox_command sandbox_memory (lit ''none'') (lit ''ro'') code)
       (may_fail (h_docker_run h))"

text \<open>
  The body of the outer \<^verbatim>\<open>try\<close> runs over the world and the local variable \<^verbatim>\<open>container\<close>, of
  which only \<^verbatim>\<open>is not None\<close> matters.
\<close>

definition in_world :: "(world, 'a) io \<Rightarrow> (world \<times> bool, 'a) io" where
  "in_world m = (\<lambda>(w, c). case m w of (r, w') \<Rightarrow> (r, (w', c)))"

definition set_container :: "(world \<times> bool, unit) io" where
  "set_container = (\<lambda>(w, c). (Inr (), (w, True)))"

text \<open>
  The \<^verbatim>\<open>with TemporaryDirectory\<close> block: the clean-up of the directory runs on every way out
  of the body, and when it raises, its exception replaces the body's outcome.
\<close>

definition with_tempdir :: "host \<Rightarrow> (world \<times> bool, 'a) io \<Rightarrow> (world \<times> bool, 'a) io" where
  "with_tempdir h body =
     io_bind (in_world (host_step (h_tmp_open h))) (\<lambda>_ wc.
       case body wc of
         (r, wc') \<Rightarrow> (case h_tmp_close h (fst wc') of None \<Rightarrow> (r, wc') | Some e \<Rightarrow> (Inl e, wc')))"

definition try_body :: "host \<Rightarrow> norm_outcome \<times> ustr option \<Rightarrow> ustr \<Rightarrow> (world \<times> bool, upd list) io" where
  "try_body h nrm code =
     with_tempdir h
       (io_bind (in_world (host_step (h_tmp_write h code))) (\<lambda>_.
        io_bind (in_world (host_step (h_docker_env h))) (\<lambda>_.
        io_bind (in_world (start_container h code)) (\<lambda>_.
        io_bind set_container (\<lambda>_. in_world (collect h nrm))))))"

definition error_updates :: "host \<Rightarrow> norm_outcome \<times> ustr option \<Rightarrow> exn \<Rightarrow> upd list" where
  "error_updates h nrm e =
     [UExecResult None, UExecError (Some (exn_str h e)), UNormalization nrm,
      UAgentTrace [lit ''VerifierAgent'']]"

text \<open>The \<^verbatim>\<open>finally\<close> clause; a failing removal is swallowed.\<close>

definition finally_remove :: "host \<Rightarrow> bool \<Rightarrow> world \<Rightarrow> world" where
  "finally_remove h c w =
     (if c then snd (docker_call (DockerRemove True) (may_fail (h_docker_remove h)) w) else w)"

definition execute_normalized :: "host \<Rightarrow> norm_outcome \<times> ustr option \<Rightarrow> ustr \<Rightarrow> (world, upd list) io" where
  "execute_normalized h nrm code = (\<lambda>w.
     case try_body h nrm code (w, False) of
       (Inr us, (w', c)) \<Rightarrow> (Inr us, finally_remove h c w')
     | (Inl e, (w', c)) \<Rightarrow> (Inr (error_updates h nrm e), finally_remove h c w'))"

definition verifier_run :: "host \<Rightarrow> world agent" where
  "verifier_run h s =
     (case st_fix_artifact s of
        None \<Rightarrow>
          io_return
            [UExecResult (Some (exec_ok ExSkipped None [] [] 0)), UExecError None,
             UAgentTrace [lit ''VerifierAgent'']]
      | Some artifact \<Rightarrow>
          io_bind (io_lift (normalize_fix_artifact h artifact)) (\<lambda>na.
            let nrm = (na_outcome na, na_reason na) in
            if na_outcome na = Rejected
            then io_return (result_updates nrm
                   (exec_ok ExFailure None []
                     (case na_reason na of
                        None \<Rightarrow> lit ''artifact rejected''
                      | Some r \<Rightarrow> if r = [] then lit ''artifact rejected'' else r) 0))
            else execute_normalized h nrm (na_code na)))"

subsection \<open>Laws\<close>

definition run_event :: "ustr \<Rightarrow> docker_event" where
  "run_event code =
     DockerRun sandbox_image sandbox_command sandbox_memory (lit ''none'') (lit ''ro'') code"

fun quiet :: "docker_event \<Rightarrow> bool" where
  "quiet (DockerRun _ _ _ _ _ _) = False"
| "quiet (DockerRemove _) = False"
| "quiet _ = True"

text \<open>Between two worlds, only calls on the running container were made.\<close>

definition only_docker :: "world \<Rightarrow> world \<Rightarrow> bool" where
  "only_docker u v \<longleftrightarrow>
     environ v = environ u \<and> guard v = guard u \<and> files v = files u \<and> sdk_log v = sdk_log u"

definition quietly :: "world \<Rightarrow> world \<Rightarrow> bool" where
  "quietly u v \<longleftrightarrow>
     only_docker u v \<and> (\<exists>mid. docker_log v = docker_log u @ mid \<and> list_all quiet mid)"

lemma preorder_quietly: "preorder quietly"
  unfolding preorder_def quietly_def only_docker_def by (auto intro: list_all_append [THEN iffD2])

lemma docker_call_quietly: "quiet ev \<Longrightarrow> io_steps (\<lambda>_. True) quietly (docker_call ev f)"
  by (auto simp: io_steps_def docker_call_def quietly_def only_docker_def)

lemma collect_quietly: "quietly w (snd (collect h nrm w))"
proof -
  let ?S = "io_steps (\<lambda>_. True) quietly"
  have look: "?S (\<lambda>w. (Inr (f w), w))" for f :: "world \<Rightarrow> nat"
    using preorder_quietly by (simp add: io_steps_def preorder_def)
  have late: "?S (\<lambda>now.
      io_bind (docker_call DockerKill (may_fail (h_docker_kill h))) (\<lambda>_.
        io_return (result_updates nrm (exec_ok ExTimeout None [] [] (f now)))) now)" for f
    using preorder_quietly
    by (auto simp: io_steps_def Let_def preorder_def docker_call_def io_bind_def quietly_def
        only_docker_def split: sum.splits)
  have "?S (io_catch
       (io_bind (docker_call (DockerWait sandbox_timeout) (h_docker_wait h)) (\<lambda>code.
        io_bind (\<lambda>now. (Inr (h_elapsed h start now), now)) (\<lambda>ms.
        io_bind (docker_call (DockerLogs True False) (h_docker_logs h True)) (\<lambda>out.
        io_bind (docker_call (DockerLogs False True) (h_docker_logs h False)) (\<lambda>err.
          io_return (result_updates nrm
            (exec_ok (if code = 0 then ExSuccess else ExFailure) (Some code) out err ms)))))))
       (\<lambda>e. case e of
          ReadTimeout _ \<Rightarrow>
            Some (\<lambda>now. let ms = h_elapsed h start now in
              io_bind (docker_call DockerKill (may_fail (h_docker_kill h))) (\<lambda>_.
                io_return (result_updates nrm (exec_ok ExTimeout None [] [] ms))) now)
        | _ \<Rightarrow> None))" for start
    by (intro io_steps_intros preorder_quietly docker_call_quietly look)
      (auto split: exn.splits simp: late Let_def)
  then show ?thesis by (simp add: io_steps_def collect_def)
qed

lemma collect_cases:
  obtains r w' mid where "collect h nrm w = (r, w')" "only_docker w w'"
    "docker_log w' = docker_log w @ mid" "list_all quiet mid"
  using collect_quietly [of w h nrm] by (cases "collect h nrm w") (auto simp: quietly_def)

text \<open>The three ways the body of the \<^verbatim>\<open>try\<close> leaves the container engine.\<close>

lemma try_body_cases:
  assumes "try_body h nrm code (w, False) = (r, (w', c))"
  obtains (idle) e where "w' = w" "\<not> c" "r = Inl e"
  | (not_started) e where "\<not> c" "only_docker w w'" "docker_log w' = docker_log w @ [run_event code]"
      "r = Inl e" "h_docker_run h w = Some e \<or> (\<exists>u. h_tmp_close h u = Some e)"
  | (started) mid where "c" "h_docker_run h w = None" "only_docker w w'" "list_all quiet mid"
      "docker_log w' = docker_log w @ run_event code # mid"
proof (cases "h_tmp_open h w = None \<and> h_tmp_write h code w = None \<and> h_docker_env h w = None")
  case False
  show ?thesis
  proof -
    have "w' = w \<and> \<not> c \<and> r = Inl (projl r)"
      using assms False
      by (auto simp: try_body_def with_tempdir_def io_bind_def in_world_def host_step_def may_fail_def
        split: option.splits)
    then show ?thesis using idle by blast
  qed
next
  case True
  let ?w1 = "w\<lparr>docker_log := docker_log w @ [run_event code]\<rparr>"
  show ?thesis
  proof (cases "h_docker_run h w")
    case (Some e)
    with True assms show ?thesis
      by (intro not_started [of "projl r"])
        (auto simp: try_body_def with_tempdir_def io_bind_def in_world_def host_step_def may_fail_def
          start_container_def docker_call_def run_event_def only_docker_def split: option.splits)
  next
    case None
    obtain r2 w2 mid where c: "collect h nrm ?w1 = (r2, w2)" "only_docker ?w1 w2"
      "docker_log w2 = docker_log ?w1 @ mid" "list_all quiet mid"
      by (rule collect_cases)
    have "w' = w2 \<and> c"
      using True None assms c(1)
      by (auto simp: try_body_def with_tempdir_def io_bind_def in_world_def host_step_def may_fail_def
          start_container_def docker_call_def set_container_def
          simp flip: run_event_def split: option.splits)
    with None c show ?thesis by (intro started [of mid]) (auto simp: only_docker_def)
  qed
qed

lemma execute_normalized_cases:
  assumes "execute_normalized h nrm code w = (r, w')"
  obtains (no_container) evs where "evs = [] \<or> evs = [run_event code]" "only_docker w w'"
      "docker_log w' = docker_log w @ evs"
  | (removed) mid where "list_all quiet mid" "only_docker w w'"
      "docker_log w' = docker_log w @ run_event code # mid @ [DockerRemove True]"
proof -
  obtain r0 w0 c where t: "try_body h nrm code (w, False) = (r0, (w0, c))"
    by (metis prod.exhaust)
  have w': "w' = finally_remove h c w0"
    using assms t by (auto simp: execute_normalized_def split: sum.splits)
  from t show ?thesis
  proof (cases rule: try_body_cases)
    case (started mid)
    with w' show ?thesis
      by (intro removed [of mid]) (auto simp: finally_remove_def docker_call_def only_docker_def)
  qed (use w' no_container in \<open>auto simp: finally_remove_def only_docker_def\<close>)
qed

lemma execute_normalized_returns: "\<exists>us w'. execute_normalized h nrm code w = (Inr us, w')"
  by (auto simp: execute_normalized_def split: prod.splits sum.splits)

text \<open>The calls one verification may make.\<close>

definition sandbox_session :: "ustr \<Rightarrow> docker_event list \<Rightarrow> bool" where
  "sandbox_session code evs \<longleftrightarrow>
     evs = [run_event code] \<or>
     (\<exists>mid. list_all quiet mid \<and> evs = run_event code # mid @ [DockerRemove True])"

definition executed_code :: "host \<Rightarrow> agent_state \<Rightarrow> ustr option" where
  "executed_code h s =
     (case st_fix_artifact s of
        None \<Rightarrow> None
      | Some a \<Rightarrow>
          (case normalize_fix_artifact h a of
             Inl e \<Rightarrow> None
           | Inr na \<Rightarrow> if na_outcome na = Rejected then None else Some (na_code na)))"

lemma verifier_log:
  assumes "verifier_run h s w = (r, w')"
  shows "only_docker w w' \<and> (\<exists>evs. docker_log w' = docker_log w @ evs \<and>
    (evs = [] \<or> (\<exists>code. executed_code h s = Some code \<and> sandbox_session code evs)))"
proof (cases "executed_code h s")
  case None
  with assms have "w' = w"
    by (auto simp: verifier_run_def executed_code_def Let_def io_bind_def
        split: option.splits sum.splits if_splits)
  then show ?thesis by (simp add: only_docker_def)
next
  case (Some code)
  then obtain nrm where "verifier_run h s w = execute_normalized h nrm code w"
    by (auto simp: verifier_run_def executed_code_def Let_def io_bind_def
        split: option.splits sum.splits if_splits)
  with assms have "execute_normalized h nrm code w = (r, w')" by simp
  then show ?thesis
    using Some by (cases rule: execute_normalized_cases) (auto simp: sandbox_session_def)
qed

lemma verifier_idle: "executed_code h s = None \<Longrightarrow> snd (verifier_run h s w) = w"
  by (auto simp: verifier_run_def executed_code_def Let_def io_bind_def
      split: option.splits sum.splits if_splits)

text \<open>The verifier raises only what compiling the artifact raises.\<close>

lemma verifier_returns:
  assumes "\<And>t c m. h_compile h t \<noteq> CompileRaises c m"
  shows "\<exists>us w'. verifier_run h s w = (Inr us, w')"
proof (cases "st_fix_artifact s")
  case (Some a)
  obtain na where "normalize_fix_artifact h a = Inr na" using normalize_total [OF assms] .
  with Some execute_normalized_returns show ?thesis
    by (auto simp: verifier_run_def Let_def)
qed (simp add: verifier_run_def)

text \<open>A claimed success is an observed exit code 0.\<close>

lemma collect_answer:
  assumes "collect h nrm w = (Inr us, w')"
  obtains (exited) code out err ms where "h_docker_wait h w = Inr code"
      "us = result_updates nrm (exec_ok (if code = 0 then ExSuccess else ExFailure) (Some code) out err ms)"
  | (timed_out) ms where "us = result_updates nrm (exec_ok ExTimeout None [] [] ms)"
  using assms unfolding collect_def
proof (cases rule: io_catch_cases)
  case (fine x)
  from fine(1) fine(2) exited show ?thesis
    by (elim io_bind_cases) (auto simp: docker_call_def)
next
  case (caught e m' w1)
  then obtain t where "e = ReadTimeout t" by (cases e) auto
  with caught(2) have "m' = (\<lambda>now. io_bind (docker_call DockerKill (may_fail (h_docker_kill h)))
      (\<lambda>_. io_return (result_updates nrm (exec_ok ExTimeout None [] [] (h_elapsed h w now)))) now)"
    by (auto simp: Let_def)
  with caught(3) have "io_bind (docker_call DockerKill (may_fail (h_docker_kill h)))
      (\<lambda>_. io_return (result_updates nrm (exec_ok ExTimeout None [] [] (h_elapsed h w w1)))) w1 = (Inr us, w')"
    by simp
  then show ?thesis by (rule io_bind_cases) (auto intro: timed_out)
qed simp

lemma verifier_success:
  assumes "verifier_run h s w = (Inr us, w')" "UExecResult (Some res) \<in> set us"
    and "ex_status res = ExSuccess"
  shows "\<exists>code. executed_code h s = Some code \<and> ex_return_code res = Some 0 \<and>
    h_docker_wait h (w\<lparr>docker_log := docker_log w @ [run_event code]\<rparr>) = Inr 0"
proof (cases "executed_code h s")
  case None
  with assms show ?thesis
    by (auto simp: verifier_run_def executed_code_def Let_def io_bind_def result_updates_def exec_ok_def
        split: option.splits sum.splits if_splits)
next
  case (Some code)
  then obtain nrm where "verifier_run h s w = execute_normalized h nrm code w"
    by (auto simp: verifier_run_def executed_code_def Let_def io_bind_def
        split: option.splits sum.splits if_splits)
  with assms(1) have "execute_normalized h nrm code w = (Inr us, w')" by simp
  then obtain w0 c where t: "try_body h nrm code (w, False) = (Inr us, (w0, c))"
    using assms(2) by (auto simp: execute_normalized_def error_updates_def split: prod.splits sum.splits)
  let ?w1 = "w\<lparr>docker_log := docker_log w @ [run_event code]\<rparr>"
  obtain r1 w1 where c: "collect h nrm ?w1 = (r1, w1)" by (cases "collect h nrm ?w1")
  from t have pre: "h_tmp_open h w = None" "h_tmp_write h code w = None" "h_docker_env h w = None"
    by (simp_all add: try_body_def with_tempdir_def io_bind_def in_world_def host_step_def may_fail_def
        split: option.splits)
  with t have run: "h_docker_run h w = None"
    by (simp add: try_body_def with_tempdir_def io_bind_def in_world_def host_step_def may_fail_def
        start_container_def docker_call_def split: option.splits)
  with t pre c have "r1 = Inr us"
    by (simp add: try_body_def with_tempdir_def io_bind_def in_world_def host_step_def may_fail_def
        start_container_def docker_call_def set_container_def flip: run_event_def split: option.splits)
  with c have "collect h nrm ?w1 = (Inr us, w1)" by simp
  then show ?thesis
    using assms(2,3) Some
    by (cases rule: collect_answer) (auto simp: result_updates_def exec_ok_def split: if_splits)
qed

lemma verifier_answer:
  assumes "verifier_run h s w = (Inr us, w')"
  shows "\<exists>res err nrm. us = [UExecResult res, UExecError err, UAgentTrace [lit ''VerifierAgent'']] \<or>
    us = [UExecResult res, UExecError err, UNormalization nrm, UAgentTrace [lit ''VerifierAgent'']]"
proof -
  have run: "execute_normalized h nrm code w = (Inr us, w') \<Longrightarrow>
      \<exists>res err. us = [UExecResult res, UExecError err, UNormalization nrm, UAgentTrace [lit ''VerifierAgent'']]"
    for nrm code
  proof -
    have col: "collect h nrm u = (Inr vs, u') \<Longrightarrow> \<exists>res. vs = result_updates nrm res" for u vs u'
      by (erule collect_answer) auto
    assume "execute_normalized h nrm code w = (Inr us, w')"
    then consider (body) w0 c where "try_body h nrm code (w, False) = (Inr us, (w0, c))"
      | (handler) e where "us = error_updates h nrm e"
      by (auto simp: execute_normalized_def split: prod.splits sum.splits)
    then show ?thesis
    proof cases
      case body
      then obtain u u' where "collect h nrm u = (Inr us, u')"
        by (auto simp: try_body_def with_tempdir_def in_world_def split: prod.splits option.splits
            elim!: io_bind_cases)
      then obtain res where "us = result_updates nrm res" using col by blast
      then show ?thesis by (auto simp: result_updates_def)
    qed (auto simp: error_updates_def)
  qed
  show ?thesis
    using assms
    by (auto simp: verifier_run_def Let_def result_updates_def
        split: option.splits if_splits elim!: io_bind_cases dest!: run)
qed

end
