(* ===== verification/Nodes.thy ===== *)
theory Nodes
  imports Verifier
begin

text \<open>
  The two deterministic nodes at the ends of the pipeline: \<^verbatim>\<open>nodes/parse_log.py\<close> and
  \<^verbatim>\<open>nodes/format_report.py\<close>, with the report and the result sidecar they leave on disk.

  The laws: the required fields of a parsed log are present and non-empty; the sidecar's
  category, severity and risk stay in the vocabulary of its readers; a HIGH_RISK verdict
  always shows as high risk and severity; and the sidecar reads back as the object that was
  written.
\<close>

subsection \<open>\<^verbatim>\<open>parse_log\<close>\<close>

definition required_fields :: "ustr list" where
  "required_fields = map lit [''timestamp'', ''service_name'', ''error_type'', ''message'']"

definition parse_failed :: "ustr \<Rightarrow> upd list" where
  "parse_failed msg = [UErrorLog None, UParseError (Some msg)]"

definition validate_log :: "host \<Rightarrow> ustr \<Rightarrow> ustr \<Rightarrow> upd list result" where
  "validate_log h path raw =
     (case loads raw of
        None \<Rightarrow> Inr (parse_failed
                  (lit ''Invalid JSON in '' @ path_name path @ lit '': '' @ h_json_error h raw))
      | Some (JObj kvs) \<Rightarrow>
          (let val = (\<lambda>f. or_else (map_of kvs f) JNull);
               missing = filter (\<lambda>f. \<not> truthy (val f)) required_fields
           in if missing \<noteq> []
              then Inr (parse_failed
                     (lit ''Missing required fields in '' @ path_name path @ lit '': '' @
                      join (lit '', '') missing))
              else Inr [UErrorLog (Some (map (\<lambda>f. (f, val f)) (required_fields @ [lit ''stack_trace'']))),
                        UParseError None])
      | Some v \<Rightarrow> Inl (no_attribute v (lit ''get'')))"

definition parse_log :: "host \<Rightarrow> world agent" where
  "parse_log h s = (\<lambda>w.
     let path = path_str (st_log_path s) in
     case read_text h path w of
       (Inl (FileNotFoundError m), w') \<Rightarrow>
         (Inr (parse_failed (lit ''Log file not found: '' @ path)), w')
     | (Inl e, w') \<Rightarrow> (Inl e, w')
     | (Inr raw, w') \<Rightarrow> (validate_log h path raw, w'))"

subsection \<open>The sections of the report\<close>

fun status_text :: "exec_status \<Rightarrow> ustr" where
  "status_text ExSuccess = lit ''success''"
| "status_text ExFailure = lit ''failure''"
| "status_text ExTimeout = lit ''timeout''"
| "status_text ExSkipped = lit ''skipped''"

definition nonempty :: "ustr option \<Rightarrow> bool" where
  "nonempty x \<longleftrightarrow> (case x of None \<Rightarrow> False | Some t \<Rightarrow> t \<noteq> [])"

definition sandbox_section :: "agent_state \<Rightarrow> ustr" where
  "sandbox_section s =
     (if nonempty (st_execution_error s)
      then lines [''## Sandbox Execution'', '''', ''**Status**: error'', ''**Reason**: ''] @
           the (st_execution_error s) @ newline
      else (case st_execution_result s of
        None \<Rightarrow> []
      | Some res \<Rightarrow>
          if ex_status res = ExSkipped
          then lines [''## Sandbox Execution'', '''',
                      ''**Status**: skipped (no fix script generated)'', '''']
          else lines [''## Sandbox Execution'', '''', ''**Status**: ''] @ status_text (ex_status res) @
               lines ['''', ''**Return code**: ''] @
               (case ex_return_code res of None \<Rightarrow> lit ''None'' | Some c \<Rightarrow> show_int c) @
               lines ['''', ''**Duration**: ''] @ show_nat (ex_duration_ms res) @
               lines [''ms'', '''', ''### Output'', '''', ''```'', ''''] @ ex_stdout res @
               lines [''```'', '''', ''### Errors'', '''', ''```'', ''''] @ ex_stderr res @
               lines [''```'', '''']))"

definition verdict_display :: "agent_state \<Rightarrow> ustr \<Rightarrow> ustr" where
  "verdict_display s verdict =
     (if st_approval_required s
      then [128680] @ lit '' HIGH RISK '' @ [8212] @ lit '' executed after human approval''
      else if verdict = lit ''CAUTION'' then [9888] @ lit '' CAUTION''
      else verdict)"

definition security_section :: "agent_state \<Rightarrow> ustr" where
  "security_section s =
     (case st_security_verdict s of
        None \<Rightarrow> []
      | Some verdict \<Rightarrow>
          lines [''## Security Review'', '''', ''**Verdict**: ''] @ verdict_display s verdict @
          lines ['''', ''**Routing**: ''] @
          (if nonempty (st_routing_decision s) then the (st_routing_decision s) else lit ''N/A'') @
          lines ['''', ''**Agents**: ''] @ join (lit '', '') (st_agent_trace s) @ newline)"

fun numbered :: "nat \<Rightarrow> ustr list \<Rightarrow> ustr list" where
  "numbered i [] = []"
| "numbered i (x # xs) = (show_nat i @ lit ''. '' @ x) # numbered (Suc i) xs"

definition string_index :: exn where
  "string_index =
     TypeError (lit ''string indices must be integers, not '' @ [39] @ lit ''str'' @ [39])"

definition analysis_section :: "agent_state \<Rightarrow> ustr result" where
  "analysis_section s =
     (case st_analysis_result s of
        None \<Rightarrow> Inr []
      | Some (AnaText t) \<Rightarrow> Inl string_index
      | Some (AnaDict a) \<Rightarrow> Inr
          (lines [''## Root Cause Analysis'', '''', ''**Category**: ''] @ an_category a @
           lines ['''', ''**Confidence**: ''] @ fl_fixed0 (fl_mul (an_confidence a) (fl_of_int 100)) @
           lines [''%'', '''', ''''] @ an_hypothesis a @
           lines ['''', '''', ''## Remediation Steps'', '''', ''''] @
           join newline (numbered 1 (an_steps a)) @ lines ['''', '''', '''']))"

subsection \<open>The sidecar\<close>

definition error_category_map :: "(ustr \<times> ustr) list" where
  "error_category_map =
     [(lit ''CODE'', lit ''runtime''), (lit ''INFRA'', lit ''infra''),
      (lit ''CONFIG'', lit ''config''), (lit ''SECURITY'', lit ''unknown'')]"

definition specialist_map :: "(ustr \<times> ustr) list" where
  "specialist_map = [(lit ''code_fixer'', lit ''runtime''), (lit ''infra_sre'', lit ''infra'')]"

definition v1_category_map :: "(ustr \<times> ustr) list" where
  "v1_category_map =
     [(lit ''connectivity'', lit ''infra''), (lit ''resource_exhaustion'', lit ''infra''),
      (lit ''configuration'', lit ''config''), (lit ''application_logic'', lit ''runtime'')]"

definition risk_map :: "(ustr \<times> ustr) list" where
  "risk_map = [(lit ''SAFE'', lit ''low''), (lit ''CAUTION'', lit ''medium''), (lit ''HIGH_RISK'', lit ''high'')]"

definition lookup :: "(ustr \<times> ustr) list \<Rightarrow> ustr option \<Rightarrow> ustr option" where
  "lookup table key = (case key of None \<Rightarrow> None | Some k \<Rightarrow> map_of table k)"

text \<open>\<^verbatim>\<open>if analysis: ... analysis.get\<close>: a non-empty text has no such method.\<close>

definition analysis_dict :: "agent_state \<Rightarrow> analysis_result option result" where
  "analysis_dict s =
     (case st_analysis_result s of
        None \<Rightarrow> Inr None
      | Some (AnaText t) \<Rightarrow> if t = [] then Inr None else Inl (no_attribute (JStr t) (lit ''get''))
      | Some (AnaDict a) \<Rightarrow> Inr (Some a))"

definition derive_category :: "agent_state \<Rightarrow> ustr result" where
  "derive_category s =
     (case lookup error_category_map (st_error_category s) of
        Some c \<Rightarrow> Inr c
      | None \<Rightarrow>
          (case lookup specialist_map (st_specialist s) of
             Some c \<Rightarrow> Inr c
           | None \<Rightarrow>
               res_bind (analysis_dict s) (\<lambda>a. Inr
                 (case a of
                    None \<Rightarrow> lit ''unknown''
                  | Some a \<Rightarrow> or_else (map_of v1_category_map (an_category a)) (lit ''unknown'')))))"

definition derive_severity :: "agent_state \<Rightarrow> ustr" where
  "derive_severity s =
     (if st_security_verdict s = Some (lit ''HIGH_RISK'') \<or> st_approval_required s
      then lit ''high'' else lit ''medium'')"

definition derive_summary_rest :: "agent_state \<Rightarrow> ustr result" where
  "derive_summary_rest s =
     (if nonempty (st_routing_decision s) then Inr (the (st_routing_decision s))
      else res_bind (log_index (st_error_log s) ''error_type'') (\<lambda>et.
           res_bind (log_index (st_error_log s) ''service_name'') (\<lambda>sn.
           res_bind (log_index (st_error_log s) ''message'') (\<lambda>m.
             Inr (py_str et @ lit '' in '' @ py_str sn @ lit '': '' @ py_str m)))))"

definition derive_summary :: "agent_state \<Rightarrow> ustr result" where
  "derive_summary s =
     res_bind (analysis_dict s) (\<lambda>a.
       case a of
         Some a \<Rightarrow> if an_hypothesis a \<noteq> [] then Inr (an_hypothesis a) else derive_summary_rest s
       | None \<Rightarrow> derive_summary_rest s)"

definition derive_fix :: "agent_state \<Rightarrow> json result" where
  "derive_fix s =
     res_bind (analysis_dict s) (\<lambda>a.
       let fallback = (if nonempty (st_fix_artifact s) then the (st_fix_artifact s)
                       else or_else (st_fix_script s) []);
           plan = (case a of
                     Some a \<Rightarrow> if an_steps a \<noteq> [] then join newline (an_steps a) else fallback
                   | None \<Rightarrow> fallback)
       in Inr (JObj
            [(lit ''fix_plan'', JStr plan),
             (lit ''risk_level'', JStr (or_else (lookup risk_map (st_security_verdict s)) (lit ''medium''))),
             (lit ''code_diff'', JStr [])]))"

text \<open>The object \<^verbatim>\<open>_write_result_sidecar\<close> dumps.\<close>

definition sidecar :: "agent_state \<Rightarrow> ustr \<Rightarrow> ustr \<Rightarrow> json result" where
  "sidecar s stem report_path =
     res_bind (derive_category s) (\<lambda>cat.
     res_bind (derive_summary s) (\<lambda>sm.
     res_bind (derive_fix s) (\<lambda>fx.
     res_bind (log_index (st_error_log s) ''service_name'') (\<lambda>sn.
     res_bind (log_index (st_error_log s) ''error_type'') (\<lambda>et.
       Inr (JObj
         [(lit ''trace_id'', JStr (if nonempty (st_trace_id s) then the (st_trace_id s) else stem)),
          (lit ''status'', JStr (lit ''completed'')),
          (lit ''diagnosis'', JObj
             [(lit ''category'', JStr cat),
              (lit ''severity'', JStr (derive_severity s)),
              (lit ''summary'', JStr sm)]),
          (lit ''fix'', fx),
          (lit ''service_name'', sn),
          (lit ''error_type'', et),
          (lit ''report_path'', JStr report_path)]))))))"

definition output_file :: "ustr \<Rightarrow> string \<Rightarrow> ustr" where
  "output_file stem ending = lit ''output/'' @ stem @ lit ending"

definition write_result_sidecar :: "host \<Rightarrow> agent_state \<Rightarrow> ustr \<Rightarrow> ustr \<Rightarrow> (world, unit) io" where
  "write_result_sidecar h s stem report_path =
     io_bind (io_lift (sidecar s stem report_path)) (\<lambda>v.
       write_text h (output_file stem ''-result.json'') (dumps (Some 2) v))"

subsection \<open>\<^verbatim>\<open>format_report\<close>\<close>

definition report_text :: "agent_state \<Rightarrow> ustr \<Rightarrow> ustr result" where
  "report_text s generated_at =
     (let field = (\<lambda>k f. res_bind (log_index (st_error_log s) k) (\<lambda>v. f (py_str v))) in
      res_bind (analysis_section s) (\<lambda>analysis_block.
      field ''service_name'' (\<lambda>sn.
      field ''error_type'' (\<lambda>et.
      field ''timestamp'' (\<lambda>ts.
      field ''message'' (\<lambda>msg. Inr
        (lit ''# Diagnostic Report: '' @ sn @
         lines ['''', '''', ''**Generated**: ''] @ generated_at @
         lines ['''', ''**Source log**: ''] @ st_log_path s @
         lines ['''', '''', ''## Error Summary'', '''', ''- **Service**: ''] @ sn @
         lines ['''', ''- **Error type**: ''] @ et @
         lines ['''', ''- **Timestamp**: ''] @ ts @
         lines ['''', ''- **Message**: ''] @ msg @ lines ['''', '''', ''''] @
         analysis_block @ sandbox_section s @ security_section s @
         lines [''---'', ''*Report generated by AutoSentinel Core Diagnostic Engine*'', ''''])))))))"

definition format_report :: "host \<Rightarrow> world agent" where
  "format_report h s = (\<lambda>w.
     let stem = path_stem (st_log_path s);
         report_path = output_file stem ''-report.md'';
         resolved = h_resolve h report_path
     in io_bind (io_lift (report_text s (h_now_utc h w))) (\<lambda>report.
        io_bind (host_step (h_mkdir h (lit ''output''))) (\<lambda>_.
        io_bind (write_text h report_path report) (\<lambda>_.
        io_bind (write_result_sidecar h s stem resolved) (\<lambda>_.
          io_return [UReportText report, UReportPath resolved])))) w)"

subsection \<open>Laws of \<^verbatim>\<open>parse_log\<close>\<close>

lemma validate_log_cases:
  assumes "validate_log h path raw = Inr us"
  obtains (failed) msg where "us = parse_failed msg" "msg \<noteq> []"
  | (parsed) kvs where "loads raw = Some (JObj kvs)"
      "us = [UErrorLog (Some (map (\<lambda>f. (f, or_else (map_of kvs f) JNull)) (required_fields @ [lit ''stack_trace'']))),
             UParseError None]"
      "\<forall>f \<in> set required_fields. truthy (or_else (map_of kvs f) JNull)"
  using assms
  by (auto simp: validate_log_def Let_def filter_empty_conv
      split: option.splits json.splits if_splits intro!: failed)

definition log_complete :: "error_log \<Rightarrow> bool" where
  "log_complete elog \<longleftrightarrow>
     map fst elog = required_fields @ [lit ''stack_trace''] \<and>
     (\<forall>(k, v) \<in> set (butlast elog). truthy v)"

lemma log_complete_index:
  assumes "log_complete elog" "k \<in> {''timestamp'', ''service_name'', ''error_type'', ''message''}"
  shows "\<exists>v. log_index (Some elog) k = Inr v"
proof -
  have "lit k \<in> fst ` set elog"
    using assms by (auto simp: log_complete_def required_fields_def simp flip: set_map)
  then have "map_of elog (lit k) \<noteq> None" by (simp add: map_of_eq_None_iff)
  then show ?thesis by (auto simp: log_index_def)
qed

lemma parse_log_cases:
  assumes "parse_log h s w = (r, w')"
  obtains (failed) msg where "w' = w" "r = Inr (parse_failed msg)" "msg \<noteq> []"
  | (parsed) elog where "w' = w" "r = Inr [UErrorLog (Some elog), UParseError None]" "log_complete elog"
  | (raised) e where "w' = w" "r = Inl e"
proof (cases "read_text h (path_str (st_log_path s)) w")
  case (Pair r0 w0)
  then have w0: "w0 = w" using read_text_frame [of h "path_str (st_log_path s)" w] by simp
  show ?thesis
  proof (cases r0)
    case (Inl e)
    with assms Pair w0 show ?thesis
      by (cases e) (auto simp: parse_log_def Let_def intro: raised failed)
  next
    case (Inr raw)
    with assms Pair w0 have r: "r = validate_log h (path_str (st_log_path s)) raw" "w' = w"
      by (auto simp: parse_log_def Let_def)
    show ?thesis
    proof (cases "validate_log h (path_str (st_log_path s)) raw")
      case (Inr us)
      then show ?thesis
      proof (cases rule: validate_log_cases)
        case ok: (parsed kvs)
        then have "log_complete (map (\<lambda>f. (f, or_else (map_of kvs f) JNull)) (required_fields @ [lit ''stack_trace'']))"
          by (auto simp: log_complete_def o_def)
        with ok r Inr parsed show ?thesis by auto
      qed (use r Inr failed in auto)
    qed (use r raised in auto)
  qed
qed

subsection \<open>Laws of the sidecar\<close>

definition category_vocabulary :: "ustr list" where
  "category_vocabulary = [lit ''runtime'', lit ''infra'', lit ''config'', lit ''unknown'']"

lemma derive_category_vocabulary:
  assumes "derive_category s = Inr c"
  shows "c \<in> set category_vocabulary"
proof -
  have "map_of v1_category_map k = Some c \<Longrightarrow> c \<in> set category_vocabulary" for k c
    by (auto simp: v1_category_map_def category_vocabulary_def split: if_splits)
  then have "or_else (map_of v1_category_map k) (lit ''unknown'') \<in> set category_vocabulary" for k
    by (cases "map_of v1_category_map k") (auto simp: category_vocabulary_def)
  moreover have "lookup error_category_map k = Some c \<Longrightarrow> c \<in> set category_vocabulary" for k c
    by (auto simp: lookup_def error_category_map_def category_vocabulary_def split: option.splits if_splits)
  moreover have "lookup specialist_map k = Some c \<Longrightarrow> c \<in> set category_vocabulary" for k c
    by (auto simp: lookup_def specialist_map_def category_vocabulary_def split: option.splits if_splits)
  ultimately show ?thesis
    using assms
    by (auto simp: derive_category_def res_bind_def category_vocabulary_def split: option.splits sum.splits)
qed

definition risk_of :: "agent_state \<Rightarrow> ustr" where
  "risk_of s = or_else (lookup risk_map (st_security_verdict s)) (lit ''medium'')"

lemma high_risk_is_high:
  assumes "st_security_verdict s = Some (lit ''HIGH_RISK'')"
  shows "derive_severity s = lit ''high'' \<and> risk_of s = lit ''high''"
  using assms by (simp add: derive_severity_def risk_of_def lookup_def risk_map_def)

lemma risk_of_high: "risk_of s = lit ''high'' \<Longrightarrow> st_security_verdict s = Some (lit ''HIGH_RISK'')"
  by (auto simp: risk_of_def lookup_def risk_map_def split: option.splits if_splits)

text \<open>Without an analysis and with a complete log, nothing of the sidecar can fail.\<close>

lemma sidecar_total:
  assumes "st_error_log s = Some elog" "log_complete elog" "st_analysis_result s = None"
  obtains v where "sidecar s stem p = Inr v"
proof -
  note idx = log_complete_index [OF assms(2)]
  obtain sn et m ts where "log_index (Some elog) ''service_name'' = Inr sn" "log_index (Some elog) ''error_type'' = Inr et"
    "log_index (Some elog) ''message'' = Inr m" "log_index (Some elog) ''timestamp'' = Inr ts"
    using idx [of "''service_name''"] idx [of "''error_type''"] idx [of "''message''"] idx [of "''timestamp''"]
    by auto
  then have "\<exists>m. derive_summary s = Inr m"
    using assms by (simp add: derive_summary_def derive_summary_rest_def analysis_dict_def)
  moreover have "\<exists>c. derive_category s = Inr c"
    using assms by (simp add: derive_category_def analysis_dict_def split: option.split)
  moreover have "\<exists>f. derive_fix s = Inr f"
    using assms by (simp add: derive_fix_def analysis_dict_def Let_def)
  ultimately have "\<exists>v. sidecar s stem p = Inr v"
    using assms \<open>log_index _ ''service_name'' = _\<close> \<open>log_index _ ''error_type'' = _\<close>
    by (auto simp: sidecar_def)
  with that show ?thesis by blast
qed

lemma report_text_total:
  assumes "st_error_log s = Some elog" "log_complete elog" "st_analysis_result s = None"
  shows "\<exists>t. report_text s now = Inr t"
proof -
  note idx = log_complete_index [OF assms(2)]
  obtain sn et m ts where "log_index (Some elog) ''service_name'' = Inr sn" "log_index (Some elog) ''error_type'' = Inr et"
    "log_index (Some elog) ''message'' = Inr m" "log_index (Some elog) ''timestamp'' = Inr ts"
    using idx [of "''service_name''"] idx [of "''error_type''"] idx [of "''message''"] idx [of "''timestamp''"]
    by auto
  with assms show ?thesis by (simp add: report_text_def analysis_section_def)
qed

subsection \<open>Laws of \<^verbatim>\<open>format_report\<close>\<close>

definition report_file :: "agent_state \<Rightarrow> ustr" where
  "report_file s = output_file (path_stem (st_log_path s)) ''-report.md''"

definition sidecar_file :: "agent_state \<Rightarrow> ustr" where
  "sidecar_file s = output_file (path_stem (st_log_path s)) ''-result.json''"

lemma format_report_frame:
  assumes "format_report h s w = (r, w')"
  shows "guard w' = guard w \<and> docker_log w' = docker_log w \<and> sdk_log w' = sdk_log w \<and>
    environ w' = environ w \<and>
    (\<forall>q. q \<noteq> report_file s \<longrightarrow> q \<noteq> sidecar_file s \<longrightarrow> files w' q = files w q)"
proof -
  let ?R = "\<lambda>u v. guard v = guard u \<and> docker_log v = docker_log u \<and> sdk_log v = sdk_log u \<and>
    environ v = environ u \<and>
    (\<forall>q. q \<noteq> report_file s \<longrightarrow> q \<noteq> sidecar_file s \<longrightarrow> files v q = files u q)"
  have R: "preorder ?R" by (auto simp: preorder_def)
  have wr: "io_steps (\<lambda>_. True) ?R (write_text h p t)" if "p = report_file s \<or> p = sidecar_file s" for p t
    unfolding io_steps_def
  proof (intro allI impI)
    fix w
    show "True \<and> ?R w (snd (write_text h p t w))"
      using write_text_frame [of h p t w "fst (write_text h p t w)" "snd (write_text h p t w)"] that
      by auto
  qed
  have "io_steps (\<lambda>_. True) ?R (host_step f)" for f by (simp add: io_steps_def host_step_def)
  then have steps: "io_steps (\<lambda>_. True) ?R
     (io_bind (io_lift (report_text s now)) (\<lambda>report.
        io_bind (host_step (h_mkdir h (lit ''output''))) (\<lambda>_.
        io_bind (write_text h (report_file s) report) (\<lambda>_.
        io_bind (write_result_sidecar h s (path_stem (st_log_path s)) p) (\<lambda>_.
          io_return [UReportText report, UReportPath p])))))" for now p
    unfolding write_result_sidecar_def
    by (intro io_steps_intros R wr) (simp_all add: sidecar_file_def)
  show ?thesis
    by (rule io_stepsD(2) [OF steps TrueI, of "h_now_utc h w" "h_resolve h (report_file s)"])
      (use assms in \<open>simp only: format_report_def Let_def report_file_def\<close>)
qed

lemma write_text_done:
  assumes "write_text h p t w = (Inr u, w')"
  shows "w' = w\<lparr>files := (files w)(p \<mapsto> t)\<rparr>"
  using assms by (auto simp: write_text_def split: option.splits if_splits)

lemma format_report_done:
  assumes "format_report h s w = (Inr us, w')"
  shows "\<exists>report v. report_text s (h_now_utc h w) = Inr report \<and>
    sidecar s (path_stem (st_log_path s)) (h_resolve h (report_file s)) = Inr v \<and>
    us = [UReportText report, UReportPath (h_resolve h (report_file s))] \<and>
    w' = w\<lparr>files := (files w)(report_file s \<mapsto> report, sidecar_file s \<mapsto> dumps (Some 2) v)\<rparr>"
  using assms
  by (auto simp: format_report_def Let_def report_file_def sidecar_file_def write_result_sidecar_def
      host_step_def elim!: io_bind_cases dest!: write_text_done)

lemma text_ok_lit: "text_ok (lit t)"
  using set_lit_less [of _ t] by (fastforce simp: text_ok_def is_high_def is_low_def)

lemma sidecar_json_ok:
  assumes "sidecar s stem p = Inr v" "text_ok stem" "text_ok p"
    and "\<And>t. st_trace_id s = Some t \<Longrightarrow> text_ok t"
    and "\<And>t. derive_summary s = Inr t \<Longrightarrow> text_ok t"
    and "\<And>f. derive_fix s = Inr f \<Longrightarrow> json_ok f"
    and "\<And>k x. log_index (st_error_log s) k = Inr x \<Longrightarrow> json_ok x"
  shows "json_ok v"
proof -
  obtain cat sm fx sn et where parts: "derive_category s = Inr cat" "derive_summary s = Inr sm"
    "derive_fix s = Inr fx" "log_index (st_error_log s) ''service_name'' = Inr sn"
    "log_index (st_error_log s) ''error_type'' = Inr et"
    and v: "v = JObj
         [(lit ''trace_id'', JStr (if nonempty (st_trace_id s) then the (st_trace_id s) else stem)),
          (lit ''status'', JStr (lit ''completed'')),
          (lit ''diagnosis'', JObj
             [(lit ''category'', JStr cat), (lit ''severity'', JStr (derive_severity s)),
              (lit ''summary'', JStr sm)]),
          (lit ''fix'', fx), (lit ''service_name'', sn), (lit ''error_type'', et),
          (lit ''report_path'', JStr p)]"
    using assms(1) by (auto simp: sidecar_def res_bind_def split: sum.splits)
  have "text_ok cat"
    using derive_category_vocabulary [OF parts(1)] by (auto simp: category_vocabulary_def text_ok_lit)
  moreover have "text_ok (derive_severity s)" by (simp add: derive_severity_def text_ok_lit)
  moreover have "text_ok (if nonempty (st_trace_id s) then the (st_trace_id s) else stem)"
    using assms(2,4) by (auto simp: nonempty_def split: option.splits)
  ultimately show ?thesis
    unfolding v using parts assms(3,5,6,7)
    by (auto intro!: json_ok.intros simp: text_ok_lit)
qed

text \<open>What the gateway reads is the object the node wrote.\<close>

lemma sidecar_read_back:
  assumes "format_report h s w = (Inr us, w')" "h_read h (sidecar_file s) w' = None"
    and "sidecar s (path_stem (st_log_path s)) (h_resolve h (report_file s)) = Inr v" "json_ok v"
  shows "\<exists>t. read_text h (sidecar_file s) w' = (Inr t, w') \<and> loads t = Some v"
proof -
  from format_report_done [OF assms(1)] assms(3)
  have f: "files w' (sidecar_file s) = Some (dumps (Some 2) v)" by auto
  have "13 \<notin> set (dumps (Some 2) v)"
    using dumps_plain [OF assms(4), of "Some 2"] unfolding dump_plain_def by fastforce
  with f assms(2) have "read_text h (sidecar_file s) w' = (Inr (dumps (Some 2) v), w')"
    by (simp add: read_text_def universal_newlines_id)
  with loads_dumps [OF assms(4)] show ?thesis by blast
qed

end
