(* ===== verification/Graph.thy ===== *)
theory Graph
  imports Nodes
begin

text \<open>
  \<^verbatim>\<open>autosentinel/multi_agent_graph.py\<close>: the nodes, the routers and the edges of the compiled
  graph, and its execution.  One node is active at a time, so a run is a sequence of steps; a
  node's answer is merged into the state and the router of its outgoing edges picks the next
  node.  An exception of a node ends the run, \<^verbatim>\<open>interrupt\<close> suspends it at the gate, and
  \<^verbatim>\<open>Command(resume=...)\<close> re-executes the gate with the resume value.

  The graph is acyclic, so nine steps always lead to a stop; LangGraph's own limit of 25 is
  never met.
\<close>

subsection \<open>Nodes\<close>

datatype node =
    Dispatch | ParseLog | DiagnosisNode | SupervisorRoute | CodeFixerNode | InfraSreNode
  | SecurityReviewer | SecurityGate | VerifierNode | FormatReport | CostExhausted

text \<open>The \<^verbatim>\<open>agents\<close> dictionary of \<^verbatim>\<open>build_multi_agent_graph\<close>.\<close>

record agents =
  ag_diagnosis :: "world agent"
  ag_supervisor :: "world agent"
  ag_code_fixer :: "world agent"
  ag_infra_sre :: "world agent"
  ag_security_reviewer :: "world agent"
  ag_verifier :: "world agent"

definition dispatch :: "host \<Rightarrow> world agent" where
  "dispatch h s = (\<lambda>w.
     (Inr (if nonempty (st_trace_id s) then [] else [UTraceId (h_token h w)]), w))"

definition guarded :: "world agent \<Rightarrow> world agent" where
  "guarded agent s =
     io_catch (agent s)
       (\<lambda>e. case e of
          CostGuardError _ _ _ _ \<Rightarrow> Some (io_return [UCostExhausted True])
        | _ \<Rightarrow> None)"

definition fl_of_decimal :: "decimal \<Rightarrow> pyfloat" where
  "fl_of_decimal d = fl_of_dec (dec_coeff d < 0) (nat \<bar>dec_coeff d\<bar>) (dec_exp d)"

definition cost_exhausted_node :: "world agent" where
  "cost_exhausted_node s = (\<lambda>w.
     case get_cost_guard (environ w budget_env) (guard w) of
       Inl e \<Rightarrow> (Inl e, w)
     | Inr g \<Rightarrow>
         (Inr [UCost (fl_of_decimal (total_spent g)), UAgentTrace [lit ''cost_guard_triggered'']],
          w\<lparr>guard := Some g\<rparr>))"

text \<open>
  The gate: \<open>None\<close> is the interrupt.  The resume value only ends the suspension; the code
  does not look at it.
\<close>

definition security_gate :: "'d option \<Rightarrow> agent_state \<Rightarrow> upd list option" where
  "security_gate resume_value s =
     (let approval_required = (st_security_verdict s = Some (lit ''HIGH_RISK''))
      in if approval_required \<and> resume_value = None then None
         else Some [UApproval approval_required])"

fun run_node :: "host \<Rightarrow> agents \<Rightarrow> node \<Rightarrow> world agent" where
  "run_node h ag Dispatch = dispatch h"
| "run_node h ag ParseLog = parse_log h"
| "run_node h ag DiagnosisNode = guarded (ag_diagnosis ag)"
| "run_node h ag SupervisorRoute = guarded (ag_supervisor ag)"
| "run_node h ag CodeFixerNode = guarded (ag_code_fixer ag)"
| "run_node h ag InfraSreNode = guarded (ag_infra_sre ag)"
| "run_node h ag SecurityReviewer = guarded (ag_security_reviewer ag)"
| "run_node h ag SecurityGate = (\<lambda>s. io_return [])"
| "run_node h ag VerifierNode = ag_verifier ag"
| "run_node h ag FormatReport = format_report h"
| "run_node h ag CostExhausted = cost_exhausted_node"

subsection \<open>Routing\<close>

text \<open>\<open>None\<close> is \<^verbatim>\<open>END\<close>.\<close>

definition route_after_parse :: "agent_state \<Rightarrow> node option" where
  "route_after_parse s = (if nonempty (st_parse_error s) then None else Some DiagnosisNode)"

definition or_cost_exhausted :: "node \<Rightarrow> agent_state \<Rightarrow> node option" where
  "or_cost_exhausted next_node s =
     Some (if st_cost_exhausted s = Some True then CostExhausted else next_node)"

definition route_to_specialist :: "agent_state \<Rightarrow> node option result" where
  "route_to_specialist s =
     (if st_cost_exhausted s = Some True then Inr (Some CostExhausted)
      else (let key = (if nonempty (st_specialist s) then the (st_specialist s)
                       else get_specialist_key (st_error_category s))
            in if key = lit ''code_fixer'' then Inr (Some CodeFixerNode)
               else if key = lit ''infra_sre'' then Inr (Some InfraSreNode)
               else Inl (KeyError key)))"

fun next_node :: "node \<Rightarrow> agent_state \<Rightarrow> node option result" where
  "next_node Dispatch s = Inr (Some ParseLog)"
| "next_node ParseLog s = Inr (route_after_parse s)"
| "next_node DiagnosisNode s = Inr (or_cost_exhausted SupervisorRoute s)"
| "next_node SupervisorRoute s = route_to_specialist s"
| "next_node CodeFixerNode s = Inr (or_cost_exhausted SecurityReviewer s)"
| "next_node InfraSreNode s = Inr (or_cost_exhausted SecurityReviewer s)"
| "next_node SecurityReviewer s = Inr (or_cost_exhausted SecurityGate s)"
| "next_node SecurityGate s = Inr (Some VerifierNode)"
| "next_node VerifierNode s = Inr (Some FormatReport)"
| "next_node FormatReport s = Inr None"
| "next_node CostExhausted s = Inr None"

subsection \<open>Execution\<close>

datatype status = Running node | Suspended | Finished | Failed node exn

record thread =
  th_status :: status
  th_state :: agent_state
  th_world :: world

definition thread_at :: "status \<Rightarrow> agent_state \<Rightarrow> world \<Rightarrow> thread" where
  "thread_at st s w = \<lparr>th_status = st, th_state = s, th_world = w\<rparr>"

lemma thread_at_simps [simp]:
  "th_status (thread_at st s w) = st" "th_state (thread_at st s w) = s"
  "th_world (thread_at st s w) = w"
  by (simp_all add: thread_at_def)

lemma thread_at_inject [simp]:
  "thread_at st s w = thread_at st' s' w' \<longleftrightarrow> st = st' \<and> s = s' \<and> w = w'"
  by (simp add: thread_at_def)

lemma thread_at_eta: "t = thread_at (th_status t) (th_state t) (th_world t)"
  by (simp add: thread_at_def)

text \<open>
  Merging a node's answer and following its edges.  The router is part of the node's task: if
  it raises, the task fails and its answer is not merged.
\<close>

definition follow :: "node \<Rightarrow> upd list \<Rightarrow> agent_state \<Rightarrow> world \<Rightarrow> thread" where
  "follow n us s w =
     (let s' = merge_updates us s in
      case next_node n s' of
        Inl e \<Rightarrow> thread_at (Failed n e) s w
      | Inr None \<Rightarrow> thread_at Finished s' w
      | Inr (Some m) \<Rightarrow> thread_at (Running m) s' w)"

definition step_node :: "host \<Rightarrow> agents \<Rightarrow> node \<Rightarrow> agent_state \<Rightarrow> world \<Rightarrow> thread" where
  "step_node h ag n s w =
     (if n = SecurityGate then
        (case security_gate (None :: unit option) s of
           None \<Rightarrow> thread_at Suspended s w
         | Some us \<Rightarrow> follow SecurityGate us s w)
      else
        (case run_node h ag n s w of
           (Inl e, w') \<Rightarrow> thread_at (Failed n e) s w'
         | (Inr us, w') \<Rightarrow> follow n us s w'))"

fun graph_run :: "host \<Rightarrow> agents \<Rightarrow> nat \<Rightarrow> thread \<Rightarrow> thread" where
  "graph_run h ag 0 t = t"
| "graph_run h ag (Suc k) t =
     (case th_status t of
        Running n \<Rightarrow> graph_run h ag k (step_node h ag n (th_state t) (th_world t))
      | _ \<Rightarrow> t)"

definition graph_fuel :: nat where "graph_fuel = 9"

definition graph_invoke :: "host \<Rightarrow> agents \<Rightarrow> agent_state \<Rightarrow> world \<Rightarrow> thread" where
  "graph_invoke h ag s w = graph_run h ag graph_fuel (thread_at (Running Dispatch) s w)"

text \<open>
  \<^verbatim>\<open>graph.invoke(Command(resume=d), cfg)\<close> on a suspended thread.  What LangGraph does with a
  thread that is not suspended is not modelled: the answer is \<open>None\<close>.
\<close>

definition graph_resume :: "host \<Rightarrow> agents \<Rightarrow> 'd \<Rightarrow> thread \<Rightarrow> thread option" where
  "graph_resume h ag d t =
     (case th_status t of
        Suspended \<Rightarrow>
          (case security_gate (Some d) (th_state t) of
             None \<Rightarrow> Some t
           | Some us \<Rightarrow>
               Some (graph_run h ag graph_fuel (follow SecurityGate us (th_state t) (th_world t))))
      | _ \<Rightarrow> None)"

text \<open>The same execution as a step relation; \<open>True\<close> marks a resumption.\<close>

inductive graph_step :: "host \<Rightarrow> agents \<Rightarrow> bool \<Rightarrow> thread \<Rightarrow> thread \<Rightarrow> bool"
  for h :: host and ag :: agents where
  node_answers:
    "n \<noteq> SecurityGate \<Longrightarrow> run_node h ag n s w = (Inr us, w') \<Longrightarrow>
     graph_step h ag False (thread_at (Running n) s w) (follow n us s w')"
| node_raises:
    "n \<noteq> SecurityGate \<Longrightarrow> run_node h ag n s w = (Inl e, w') \<Longrightarrow>
     graph_step h ag False (thread_at (Running n) s w) (thread_at (Failed n e) s w')"
| gate_suspends:
    "security_gate (None :: unit option) s = None \<Longrightarrow>
     graph_step h ag False (thread_at (Running SecurityGate) s w) (thread_at Suspended s w)"
| gate_passes:
    "security_gate (None :: unit option) s = Some us \<Longrightarrow>
     graph_step h ag False (thread_at (Running SecurityGate) s w)
       (follow SecurityGate us s w)"
| resumes:
    "security_gate (Some d :: unit option) s = Some us \<Longrightarrow>
     graph_step h ag True (thread_at Suspended s w) (follow SecurityGate us s w)"

inductive_cases graph_step_cases: "graph_step h ag r t t'"

subsection \<open>Steps and runs\<close>

text \<open>The step relation is deterministic, and \<open>graph_run\<close> follows it.\<close>

lemma graph_step_running:
  "graph_step h ag False t t' \<longleftrightarrow>
   (\<exists>n. th_status t = Running n \<and> t' = step_node h ag n (th_state t) (th_world t))"
proof
  assume "graph_step h ag False t t'"
  then show "\<exists>n. th_status t = Running n \<and> t' = step_node h ag n (th_state t) (th_world t)"
    by (cases rule: graph_step.cases) (auto simp: step_node_def)
next
  assume "\<exists>n. th_status t = Running n \<and> t' = step_node h ag n (th_state t) (th_world t)"
  then obtain n where n: "th_status t = Running n"
    and t': "t' = step_node h ag n (th_state t) (th_world t)" by blast
  have t: "t = thread_at (Running n) (th_state t) (th_world t)" using thread_at_eta [of t] n by simp
  show "graph_step h ag False t t'"
  proof (cases "n = SecurityGate")
    case True
    then show ?thesis
      by (subst t) (auto simp: t' step_node_def split: option.split intro: gate_suspends gate_passes)
  next
    case False
    obtain r w' where r: "run_node h ag n (th_state t) (th_world t) = (r, w')"
      by (cases "run_node h ag n (th_state t) (th_world t)")
    then show ?thesis
      using False
      by (subst t) (cases r; auto simp: t' step_node_def intro: node_answers node_raises)
  qed
qed

lemma graph_step_deterministic:
  assumes "graph_step h ag r t t1" "graph_step h ag r t t2"
  shows "t1 = t2"
proof (cases r)
  case False
  with assms show ?thesis by (auto simp: graph_step_running)
next
  case True
  have "security_gate (Some d) s = security_gate (Some d') s" for d d' :: unit and s by simp
  with assms True show ?thesis by (auto elim!: graph_step_cases)
qed

definition graph_reaches :: "host \<Rightarrow> agents \<Rightarrow> thread \<Rightarrow> thread \<Rightarrow> bool" where
  "graph_reaches h ag = (graph_step h ag False)\<^sup>*\<^sup>*"

lemma graph_run_reaches: "graph_reaches h ag t (graph_run h ag k t)"
proof (induction h ag k t rule: graph_run.induct)
  case (2 h ag k t)
  show ?case
  proof (cases "th_status t")
    case (Running n)
    with 2 have "graph_reaches h ag (step_node h ag n (th_state t) (th_world t))
        (graph_run h ag k (step_node h ag n (th_state t) (th_world t)))" by blast
    moreover have "graph_step h ag False t (step_node h ag n (th_state t) (th_world t))"
      using Running by (auto simp: graph_step_running)
    ultimately show ?thesis
      using Running by (simp add: graph_reaches_def converse_rtranclp_into_rtranclp)
  qed (simp_all add: graph_reaches_def)
qed (simp add: graph_reaches_def)

subsection \<open>Termination\<close>

text \<open>The number of nodes that can still run.\<close>

fun remaining :: "node \<Rightarrow> nat" where
  "remaining Dispatch = 9"
| "remaining ParseLog = 8"
| "remaining DiagnosisNode = 7"
| "remaining SupervisorRoute = 6"
| "remaining CodeFixerNode = 5"
| "remaining InfraSreNode = 5"
| "remaining SecurityReviewer = 4"
| "remaining SecurityGate = 3"
| "remaining VerifierNode = 2"
| "remaining FormatReport = 1"
| "remaining CostExhausted = 1"

definition steps_left :: "thread \<Rightarrow> nat" where
  "steps_left t = (case th_status t of Running n \<Rightarrow> remaining n | _ \<Rightarrow> 0)"

lemma next_node_decreases: "next_node n s = Inr (Some m) \<Longrightarrow> remaining m < remaining n"
  by (cases n)
    (auto simp: route_after_parse_def or_cost_exhausted_def route_to_specialist_def Let_def
      split: if_splits)

lemma remaining_pos [simp]: "0 < remaining n"
  by (cases n) simp_all

lemma steps_left_zero: "steps_left t = 0 \<longleftrightarrow> (\<forall>n. th_status t \<noteq> Running n)"
  by (auto simp: steps_left_def split: status.split)

lemma follow_decreases: "steps_left (follow n us s w) < remaining n"
proof -
  have "0 < remaining n" by (cases n) simp_all
  then show ?thesis
    by (auto simp: follow_def steps_left_def Let_def next_node_decreases split: sum.split option.split)
qed

lemma step_decreases: "steps_left (step_node h ag n s w) < remaining n"
proof (cases "n = SecurityGate")
  case True
  have "steps_left (thread_at Suspended s w) = 0" by (simp add: steps_left_def)
  with True follow_decreases [of SecurityGate] show ?thesis
    by (auto simp: step_node_def split: option.split)
next
  case False
  have "steps_left (thread_at (Failed n e) s w') = 0" for e w' by (simp add: steps_left_def)
  with False follow_decreases [of n] show ?thesis
    by (auto simp: step_node_def split: prod.split sum.split)
qed

lemma graph_run_stops: "steps_left t \<le> k \<Longrightarrow> th_status (graph_run h ag k t) \<noteq> Running n"
proof (induction h ag k t rule: graph_run.induct)
  case (1 h ag t)
  then show ?case using steps_left_zero by fastforce
next
  case (2 h ag k t)
  show ?case
  proof (cases "th_status t")
    case (Running m)
    then have "steps_left (step_node h ag m (th_state t) (th_world t)) \<le> k"
      using step_decreases [of h ag m "th_state t" "th_world t"] 2(2) by (simp add: steps_left_def)
    with 2 Running show ?thesis by simp
  qed (use 2 in auto)
qed

text \<open>More fuel changes nothing.\<close>

lemma graph_run_stopped: "(\<forall>n. th_status t \<noteq> Running n) \<Longrightarrow> graph_run h ag k t = t"
  by (cases k) (auto split: status.split)

lemma graph_run_enough:
  "steps_left t \<le> k \<Longrightarrow> graph_run h ag (k + j) t = graph_run h ag k t"
proof (induction h ag k t rule: graph_run.induct)
  case (1 h ag t)
  then have "\<forall>n. th_status t \<noteq> Running n" using steps_left_zero by blast
  then show ?case by (simp add: graph_run_stopped)
next
  case (2 h ag k t)
  show ?case
  proof (cases "th_status t")
    case (Running m)
    then have "steps_left (step_node h ag m (th_state t) (th_world t)) \<le> k"
      using step_decreases [of h ag m "th_state t" "th_world t"] 2(2) by (simp add: steps_left_def)
    with 2 Running show ?thesis by simp
  qed (use 2 in auto)
qed

end
