(* ===== verification/Team.thy ===== *)
theory Team
  imports Graph
begin

text \<open>
  The interface between the graph and its agents.  The locale \<open>agent_team\<close> says what the graph
  relies on: which keys an agent answers, that the five agents with a model only talk to providers
  under the incident's trace id, that the reviewer gives HIGH_RISK to every denied artifact, and
  that the verifier is the Docker one.  From that alone, in its context: no step before a
  resumption executes a denied artifact, every run has the shape of its stage, and every request
  carries the trace id.  The production agents and the mock agents of the benchmark are two teams.
\<close>

subsection \<open>Nodes with a model\<close>

text \<open>
  What an LLM node may do to the world: talk to a provider under the trace id \<open>t\<close>, and bill.
\<close>

definition llm_only :: "ustr \<Rightarrow> world \<Rightarrow> world \<Rightarrow> bool" where
  "llm_only t u v \<longleftrightarrow>
     docker_log v = docker_log u \<and> files v = files u \<and> environ v = environ u \<and>
     (\<exists>reqs. sdk_log v = sdk_log u @ reqs \<and> (\<forall>r \<in> set reqs. rq_trace_id r = t))"

lemma preorder_llm_only: "preorder (llm_only t)"
  unfolding preorder_def llm_only_def
proof (intro conjI allI impI; (elim conjE exE)?)
  fix u v w :: world and r1 r2
  assume "sdk_log v = sdk_log u @ r1" "\<forall>r \<in> set r1. rq_trace_id r = t"
    "sdk_log w = sdk_log v @ r2" "\<forall>r \<in> set r2. rq_trace_id r = t"
  then show "\<exists>reqs. sdk_log w = sdk_log u @ reqs \<and> (\<forall>r \<in> set reqs. rq_trace_id r = t)"
    by (intro exI [of _ "r1 @ r2"]) auto
qed auto

lemma guarded_steps: "preorder R \<Longrightarrow> io_steps I R (agent s) \<Longrightarrow> io_steps I R (guarded agent s)"
  unfolding guarded_def
  by (intro io_steps_intros) (auto split: exn.splits intro: io_steps_return)

lemma guarded_cases:
  assumes "guarded agent s w = (r, w')"
  obtains (answered) us where "agent s w = (Inr us, w')" "r = Inr us"
  | (exhausted) a b c d where "agent s w = (Inl (CostGuardError a b c d), w')" "r = Inr [UCostExhausted True]"
  | (raised) e where "agent s w = (Inl e, w')" "r = Inl e" "\<And>a b c d. e \<noteq> CostGuardError a b c d"
  using assms unfolding guarded_def
proof (cases rule: io_catch_cases)
  case (uncaught e)
  then show ?thesis by (cases e) (auto intro: raised)
next
  case (caught e m' w1)
  then show ?thesis by (cases e) (auto intro: exhausted)
qed (use answered in auto)

subsection \<open>Safety\<close>

definition artifact_of :: "agent_state \<Rightarrow> ustr" where
  "artifact_of s = or_else (st_fix_artifact s) []"

definition reviewed :: "agent_state \<Rightarrow> bool" where
  "reviewed s \<longleftrightarrow>
     (\<exists>v \<in> set valid_verdicts. st_security_verdict s = Some v \<and>
        (deny_listed (artifact_of s) \<longrightarrow> v = lit ''HIGH_RISK''))"

definition cleared :: "agent_state \<Rightarrow> bool" where
  "cleared s \<longleftrightarrow> reviewed s \<and> st_security_verdict s \<noteq> Some (lit ''HIGH_RISK'')"

definition executed :: "host \<Rightarrow> agent_state \<Rightarrow> world \<Rightarrow> world \<Rightarrow> bool" where
  "executed h s w0 w \<longleftrightarrow>
     (\<exists>code evs. docker_log w = docker_log w0 @ evs \<and> executed_code h s = Some code \<and>
        sandbox_session code evs)"

text \<open>The invariant of a thread that started in world \<open>w0\<close> and was not resumed.\<close>

definition thread_safe :: "host \<Rightarrow> world \<Rightarrow> thread \<Rightarrow> bool" where
  "thread_safe h w0 t \<longleftrightarrow>
     (th_status t = Running SecurityGate \<longrightarrow> reviewed (th_state t)) \<and>
     (th_status t = Suspended \<longrightarrow>
        reviewed (th_state t) \<and> st_security_verdict (th_state t) = Some (lit ''HIGH_RISK'')) \<and>
     (th_status t = Running VerifierNode \<longrightarrow> cleared (th_state t)) \<and>
     (docker_log (th_world t) = docker_log w0 \<or>
      cleared (th_state t) \<and> executed h (th_state t) w0 (th_world t) \<and>
      (th_status t = Running FormatReport \<or> th_status t = Finished \<or>
       (\<exists>e. th_status t = Failed FormatReport e)))"

text \<open>The status behind a node is one of its successors, the end or a failure.\<close>

lemma follow_cases:
  obtains (failed) e where "follow n us s w = thread_at (Failed n e) s w" "next_node n (merge_updates us s) = Inl e"
  | (ended) "follow n us s w = thread_at Finished (merge_updates us s) w"
      "next_node n (merge_updates us s) = Inr None"
  | (goes) m where "follow n us s w = thread_at (Running m) (merge_updates us s) w"
      "next_node n (merge_updates us s) = Inr (Some m)"
proof (cases "next_node n (merge_updates us s)")
  case (Inl e)
  then show ?thesis by (intro failed [of e]) (simp_all add: follow_def)
next
  case (Inr x)
  then show ?thesis by (cases x) (simp_all add: follow_def ended goes)
qed

lemma next_is_gate: "next_node n s = Inr (Some SecurityGate) \<Longrightarrow> n = SecurityReviewer \<and> st_cost_exhausted s \<noteq> Some True"
  by (cases n) (auto simp: route_after_parse_def or_cost_exhausted_def route_to_specialist_def Let_def split: if_splits)

lemma next_is_verifier: "next_node n s = Inr (Some VerifierNode) \<Longrightarrow> n = SecurityGate"
  by (cases n) (auto simp: route_after_parse_def or_cost_exhausted_def route_to_specialist_def Let_def split: if_splits)

lemma thread_safe_start: "thread_safe h w (thread_at (Running Dispatch) s w)"
  by (simp add: thread_safe_def)

subsection \<open>What each node answers\<close>

definition budget_answer :: "upd list" where
  "budget_answer = [UCostExhausted True]"

definition specialist_name :: "node \<Rightarrow> ustr" where
  "specialist_name n = (if n = CodeFixerNode then lit ''CodeFixerAgent'' else lit ''InfraSREAgent'')"

inductive node_answer :: "node \<Rightarrow> upd list \<Rightarrow> bool" where
  "node_answer Dispatch []"
| "node_answer Dispatch [UTraceId t]"
| "msg \<noteq> [] \<Longrightarrow> node_answer ParseLog (parse_failed msg)"
| "log_complete elog \<Longrightarrow> node_answer ParseLog [UErrorLog (Some elog), UParseError None]"
| "c \<in> set valid_categories \<Longrightarrow>
   node_answer DiagnosisNode [UCategory c, UAgentTrace [lit ''DiagnosisAgent'']]"
| "sp \<in> set valid_specialists \<Longrightarrow> ra \<noteq> [] \<Longrightarrow>
   node_answer SupervisorRoute [USpecialist sp, URouting ra, UAgentTrace [lit ''SupervisorAgent'']]"
| "n \<in> {CodeFixerNode, InfraSreNode} \<Longrightarrow> strip a = a \<Longrightarrow>
   node_answer n [UArtifact a, UAgentTrace [specialist_name n]]"
| "v \<in> set valid_verdicts \<Longrightarrow>
   node_answer SecurityReviewer [UVerdict v, UClassifier m, UAgentTrace [lit ''SecurityReviewerAgent'']]"
| "n \<in> {DiagnosisNode, SupervisorRoute, CodeFixerNode, InfraSreNode, SecurityReviewer} \<Longrightarrow>
   node_answer n budget_answer"
| "node_answer VerifierNode [UExecResult res, UExecError err, UAgentTrace [lit ''VerifierAgent'']]"
| "node_answer VerifierNode
     [UExecResult res, UExecError err, UNormalization nrm, UAgentTrace [lit ''VerifierAgent'']]"
| "node_answer FormatReport [UReportText rep, UReportPath p]"
| "node_answer CostExhausted [UCost x, UAgentTrace [lit ''cost_guard_triggered'']]"
| "node_answer SecurityGate [UApproval b]"

inductive_cases node_answer_cases:
  "node_answer Dispatch us" "node_answer ParseLog us" "node_answer DiagnosisNode us"
  "node_answer SupervisorRoute us" "node_answer CodeFixerNode us" "node_answer InfraSreNode us"
  "node_answer SecurityReviewer us" "node_answer SecurityGate us" "node_answer VerifierNode us"
  "node_answer FormatReport us" "node_answer CostExhausted us"

subsection \<open>The shape of a run\<close>

text \<open>How many agents have signed the trace when a node starts, and the full roll.\<close>

fun signed :: "node \<Rightarrow> nat" where
  "signed SupervisorRoute = 1"
| "signed CodeFixerNode = 2"
| "signed InfraSreNode = 2"
| "signed SecurityReviewer = 3"
| "signed SecurityGate = 4"
| "signed VerifierNode = 4"
| "signed FormatReport = 5"
| "signed _ = 0"

definition fixers :: "ustr list" where
  "fixers = [lit ''CodeFixerAgent'', lit ''InfraSREAgent'']"

definition roll :: "ustr \<Rightarrow> ustr list" where
  "roll f = [lit ''DiagnosisAgent'', lit ''SupervisorAgent'', f, lit ''SecurityReviewerAgent'',
             lit ''VerifierAgent'']"

definition log_ready :: "agent_state \<Rightarrow> bool" where
  "log_ready s \<longleftrightarrow> (\<exists>elog. st_error_log s = Some elog \<and> log_complete elog) \<and> st_parse_error s = None"

definition stage :: "node \<Rightarrow> agent_state \<Rightarrow> bool" where
  "stage n s \<longleftrightarrow>
     (n \<in> {Dispatch, ParseLog} \<or> log_ready s) \<and> st_report_path s = None \<and>
     (1 \<le> signed n \<longrightarrow> (\<exists>c \<in> set valid_categories. st_error_category s = Some c)) \<and>
     (2 \<le> signed n \<longrightarrow> (\<exists>sp \<in> set valid_specialists. st_specialist s = Some sp)) \<and>
     (2 \<le> signed n \<longrightarrow> nonempty (st_routing_decision s)) \<and>
     (3 \<le> signed n \<longrightarrow> (\<exists>a. st_fix_artifact s = Some a \<and> strip a = a)) \<and>
     (4 \<le> signed n \<longrightarrow> (\<exists>v \<in> set valid_verdicts. st_security_verdict s = Some v)) \<and>
     (if n = CostExhausted
      then st_cost_exhausted s = Some True \<and> (\<exists>k \<le> 3. \<exists>f \<in> set fixers. st_agent_trace s = take k (roll f))
      else st_cost_exhausted s \<noteq> Some True \<and> (\<exists>f \<in> set fixers. st_agent_trace s = take (signed n) (roll f)))"

text \<open>The three ways a thread finishes.\<close>

definition parse_failure :: "agent_state \<Rightarrow> bool" where
  "parse_failure s \<longleftrightarrow> nonempty (st_parse_error s) \<and> st_agent_trace s = [] \<and> st_report_path s = None"

definition budget_stop :: "agent_state \<Rightarrow> bool" where
  "budget_stop s \<longleftrightarrow> st_cost_exhausted s = Some True \<and> log_ready s \<and> st_report_path s = None \<and>
     (\<exists>k \<le> 3. \<exists>f \<in> set fixers. st_agent_trace s = take k (roll f) @ [lit ''cost_guard_triggered''])"

definition completed :: "agent_state \<Rightarrow> bool" where
  "completed s \<longleftrightarrow> stage FormatReport (s\<lparr>st_report_path := None\<rparr>) \<and> st_report_path s \<noteq> None"

text \<open>One step from stage to stage, or to the end; no router can fail.\<close>

definition arrives :: "node \<Rightarrow> agent_state \<Rightarrow> bool" where
  "arrives n s \<longleftrightarrow>
     (case next_node n s of
        Inl e \<Rightarrow> False
      | Inr None \<Rightarrow> parse_failure s \<or> budget_stop s \<or> completed s
      | Inr (Some m) \<Rightarrow> stage m s)"

lemmas stage_defs = stage_def log_ready_def roll_def fixers_def specialist_name_def
  route_after_parse_def or_cost_exhausted_def arrives_def

lemma stage_budget:
  assumes "stage n s" "n \<in> {DiagnosisNode, SupervisorRoute, CodeFixerNode, InfraSreNode, SecurityReviewer}"
  shows "arrives n (merge_updates budget_answer s)"
proof -
  have "signed n \<le> 3" using assms(2) by auto
  moreover have "log_ready (s\<lparr>st_cost_exhausted := Some True\<rparr>)" "st_report_path s = None"
    using assms by (auto simp: stage_def log_ready_def)
  moreover have "\<exists>f \<in> set fixers. st_agent_trace s = take (signed n) (roll f)"
    using assms by (auto simp: stage_def split: if_splits)
  ultimately have "stage CostExhausted (s\<lparr>st_cost_exhausted := Some True\<rparr>)" by (auto simp: stage_def)
  with assms(2) show ?thesis
    by (auto simp: arrives_def budget_answer_def or_cost_exhausted_def route_to_specialist_def)
qed

lemma route_valid:
  assumes "st_specialist s = Some sp" "sp \<in> set valid_specialists" "st_cost_exhausted s \<noteq> Some True"
  shows "route_to_specialist s = Inr (Some (if sp = lit ''code_fixer'' then CodeFixerNode else InfraSreNode))"
  using assms by (auto simp: route_to_specialist_def valid_specialists_def nonempty_def)

lemma budget_answer_node:
  assumes "node_answer n budget_answer"
  shows "n \<in> {DiagnosisNode, SupervisorRoute, CodeFixerNode, InfraSreNode, SecurityReviewer}"
  using assms by (auto simp: budget_answer_def parse_failed_def elim: node_answer.cases)

lemma stage_step:
  assumes "stage n s" "node_answer n us"
  shows "arrives n (merge_updates us s)"
proof (cases "us = budget_answer")
  case True
  with assms True budget_answer_node stage_budget show ?thesis by blast
next
  case False
  from assms(2) show ?thesis
  proof cases
    case (6 sp ra)
    then have "route_to_specialist (merge_updates us s) =
        Inr (Some (if sp = lit ''code_fixer'' then CodeFixerNode else InfraSreNode))"
      using assms(1) by (intro route_valid) (auto simp: stage_def)
    with 6 assms(1) show ?thesis by (auto simp: stage_defs nonempty_def)
  qed (use assms(1) False in \<open>auto simp: stage_defs parse_failed_def parse_failure_def budget_stop_def
        completed_def nonempty_def\<close>)
qed

definition fresh :: "agent_state \<Rightarrow> bool" where
  "fresh s \<longleftrightarrow> st_agent_trace s = [] \<and> st_report_path s = None \<and> st_cost_exhausted s \<noteq> Some True"

lemma stage_start: "fresh s \<Longrightarrow> stage Dispatch s"
  by (auto simp: fresh_def stage_def fixers_def)

definition thread_staged :: "thread \<Rightarrow> bool" where
  "thread_staged t \<longleftrightarrow>
     (case th_status t of
        Running n \<Rightarrow> stage n (th_state t)
      | Suspended \<Rightarrow> stage SecurityGate (th_state t)
      | Failed n e \<Rightarrow> stage n (th_state t)
      | Finished \<Rightarrow> parse_failure (th_state t) \<or> budget_stop (th_state t) \<or> completed (th_state t))"

text \<open>A thread that failed, failed in a node: the node it reached was called and raised.\<close>

definition node_raised :: "host \<Rightarrow> agents \<Rightarrow> thread \<Rightarrow> thread \<Rightarrow> bool" where
  "node_raised h ag t0 t \<longleftrightarrow>
     (case th_status t of
        Failed n e \<Rightarrow> n \<noteq> SecurityGate \<and>
          (\<exists>w. graph_reaches h ag t0 (thread_at (Running n) (th_state t) w) \<and>
               run_node h ag n (th_state t) w = (Inl e, th_world t))
      | _ \<Rightarrow> True)"

lemma follow_staged: "stage n s \<Longrightarrow> node_answer n us \<Longrightarrow> thread_staged (follow n us s w)"
  using stage_step [of n s us]
  by (cases rule: follow_cases [of n us s w]) (auto simp: thread_staged_def arrives_def)

lemma gate_answer: "security_gate d s = Some us \<Longrightarrow> node_answer SecurityGate us"
  by (auto simp: security_gate_def Let_def split: if_splits intro: node_answer.intros)

lemma invoke_stops: "th_status (graph_invoke h ag s w) \<noteq> Running n"
  unfolding graph_invoke_def
  by (rule graph_run_stops) (simp add: steps_left_def graph_fuel_def)

text \<open>A resumed thread: the gate passes whatever the decision, and the verifier is next.\<close>

lemma resume_eq:
  assumes "th_status t = Suspended"
  shows "graph_resume h ag d t =
    Some (graph_run h ag graph_fuel
      (thread_at (Running VerifierNode)
        ((th_state t)\<lparr>st_approval_required := st_security_verdict (th_state t) = Some (lit ''HIGH_RISK'')\<rparr>)
        (th_world t)))"
  using assms by (simp add: graph_resume_def security_gate_def Let_def follow_def)

subsection \<open>Trace identifiers\<close>

definition run_trace_id :: "host \<Rightarrow> agent_state \<Rightarrow> world \<Rightarrow> ustr" where
  "run_trace_id h s w = (if nonempty (st_trace_id s) then the (st_trace_id s) else h_token h w)"

text \<open>Every request made since the start carries the thread's trace id.\<close>

definition thread_traced :: "ustr \<Rightarrow> world \<Rightarrow> thread \<Rightarrow> bool" where
  "thread_traced tid w0 t \<longleftrightarrow>
     st_trace_id (th_state t) = Some tid \<and>
     (\<exists>reqs. sdk_log (th_world t) = sdk_log w0 @ reqs \<and> (\<forall>r \<in> set reqs. rq_trace_id r = tid))"

lemma answer_keeps_trace_id:
  "node_answer n us \<Longrightarrow> n \<noteq> Dispatch \<Longrightarrow> st_trace_id (merge_updates us s) = st_trace_id s"
  by (induction rule: node_answer.induct) (auto simp: parse_failed_def budget_answer_def)

lemma never_back_to_dispatch: "th_status (step_node h ag n s w) \<noteq> Running Dispatch"
proof -
  have "next_node m x \<noteq> Inr (Some Dispatch)" for m x
    by (cases m) (auto simp: route_after_parse_def or_cost_exhausted_def route_to_specialist_def Let_def)
  then have "th_status (follow m us x v) \<noteq> Running Dispatch" for m us x v
    by (cases rule: follow_cases [of m us x v]) auto
  then show ?thesis by (auto simp: step_node_def split: option.splits prod.splits sum.splits)
qed

subsection \<open>Teams\<close>

locale agent_team =
  fixes h :: host and ag :: agents
  assumes talks:
      "io_steps (\<lambda>_. True) (llm_only (state_trace_id s)) (ag_diagnosis ag s)"
      "io_steps (\<lambda>_. True) (llm_only (state_trace_id s)) (ag_supervisor ag s)"
      "io_steps (\<lambda>_. True) (llm_only (state_trace_id s)) (ag_code_fixer ag s)"
      "io_steps (\<lambda>_. True) (llm_only (state_trace_id s)) (ag_infra_sre ag s)"
      "io_steps (\<lambda>_. True) (llm_only (state_trace_id s)) (ag_security_reviewer ag s)"
    and diagnoses: "ag_diagnosis ag s w = (Inr us, w') \<Longrightarrow>
      \<exists>c \<in> set valid_categories. us = [UCategory c, UAgentTrace [lit ''DiagnosisAgent'']]"
    and supervises: "ag_supervisor ag s w = (Inr us, w') \<Longrightarrow>
      \<exists>sp \<in> set valid_specialists. \<exists>ra. ra \<noteq> [] \<and> us = [USpecialist sp, URouting ra, UAgentTrace [lit ''SupervisorAgent'']]"
    and fixes_code: "ag_code_fixer ag s w = (Inr us, w') \<Longrightarrow>
      \<exists>a. strip a = a \<and> us = [UArtifact a, UAgentTrace [lit ''CodeFixerAgent'']]"
    and fixes_infra: "ag_infra_sre ag s w = (Inr us, w') \<Longrightarrow>
      \<exists>a. strip a = a \<and> us = [UArtifact a, UAgentTrace [lit ''InfraSREAgent'']]"
    and reviews: "ag_security_reviewer ag s w = (Inr us, w') \<Longrightarrow>
      \<exists>v \<in> set valid_verdicts. \<exists>m. (deny_listed (artifact_of s) \<longrightarrow> v = lit ''HIGH_RISK'') \<and>
        us = [UVerdict v, UClassifier m, UAgentTrace [lit ''SecurityReviewerAgent'']]"
    and verifies: "ag_verifier ag = verifier_run h"
begin

text \<open>The nodes that touch neither containers nor files.\<close>

lemma run_node_llm_only:
  assumes "n \<noteq> VerifierNode" "n \<noteq> FormatReport"
    and "run_node h ag n s w = (r, w')"
  shows "llm_only (state_trace_id s) w w'"
proof -
  have self: "llm_only t w w" for t by (simp add: llm_only_def)
  note steps = talks [THEN guarded_steps [OF preorder_llm_only], THEN io_stepsD(2), OF TrueI]
  show ?thesis
  proof (cases n)
    case ParseLog
    with assms show ?thesis by (auto elim: parse_log_cases intro: self)
  next
    case CostExhausted
    with assms show ?thesis by (auto simp: cost_exhausted_node_def llm_only_def split: sum.splits)
  qed (use assms steps self in \<open>auto simp: dispatch_def\<close>)
qed

paragraph \<open>Safety\<close>

lemma reviewed_after: "ag_security_reviewer ag s w = (Inr us, w') \<Longrightarrow> reviewed (merge_updates us s)"
  by (auto simp: reviewed_def artifact_of_def dest!: reviews)

text \<open>Nodes other than the reviewer, the gate, the verifier and the report are harmless.\<close>

lemma thread_safe_harmless:
  assumes "run_node h ag n s w = (r, w')" "docker_log w = docker_log w0"
    and "n \<notin> {SecurityReviewer, SecurityGate, VerifierNode, FormatReport}"
  shows "thread_safe h w0 (step_node h ag n s w)"
proof -
  have same: "docker_log w' = docker_log w0"
    using run_node_llm_only [OF _ _ assms(1)] assms(2,3) by (simp add: llm_only_def)
  show ?thesis
  proof (cases r)
    case (Inl e)
    with assms same show ?thesis by (simp add: step_node_def thread_safe_def)
  next
    case (Inr us)
    have "thread_safe h w0 (follow n us s w')"
    proof (cases rule: follow_cases [of n us s w'])
      case (goes m)
      with assms(3) next_is_gate next_is_verifier have "m \<noteq> SecurityGate" "m \<noteq> VerifierNode" by blast+
      with goes same show ?thesis by (simp add: thread_safe_def)
    qed (use same in \<open>simp_all add: thread_safe_def\<close>)
    with assms Inr show ?thesis by (simp add: step_node_def)
  qed
qed

lemma thread_safe_step:
  assumes safe: "thread_safe h w0 t" and run: "th_status t = Running n"
  shows "thread_safe h w0 (step_node h ag n (th_state t) (th_world t))"
proof -
  define s where "s = th_state t"
  define w where "w = th_world t"
  obtain r w' where r: "run_node h ag n s w = (r, w')"
    by (cases "run_node h ag n s w")
  have log: "n = FormatReport \<or> docker_log w = docker_log w0"
    using safe run by (auto simp: thread_safe_def w_def)
  have "thread_safe h w0 (step_node h ag n s w)"
  proof (cases "n \<in> {SecurityReviewer, SecurityGate, VerifierNode, FormatReport}")
    case False
    with thread_safe_harmless [OF r] log show ?thesis by auto
  next
    case True
    then consider "n = SecurityReviewer" | "n = SecurityGate" | "n = VerifierNode" | "n = FormatReport"
      by auto
    then show ?thesis
    proof cases
      case 1
      have same: "docker_log w' = docker_log w0"
        using run_node_llm_only [OF _ _ r] log 1 by (simp add: llm_only_def)
      show ?thesis
      proof (cases r)
        case (Inl e)
        with 1 r same show ?thesis by (simp add: step_node_def thread_safe_def)
      next
        case (Inr us)
        from r 1 Inr have "guarded (ag_security_reviewer ag) s w = (Inr us, w')"
          by simp
        then have "us = [UCostExhausted True] \<or> reviewed (merge_updates us s)"
          by (cases rule: guarded_cases) (auto dest: reviewed_after)
        then have "next_node n (merge_updates us s) = Inr (Some SecurityGate) \<Longrightarrow> reviewed (merge_updates us s)"
          using 1 by (auto simp: or_cost_exhausted_def)
        moreover have "next_node n (merge_updates us s) \<noteq> Inr (Some VerifierNode)"
          using 1 next_is_verifier by blast
        ultimately have "thread_safe h w0 (follow n us s w')"
          using same by (cases rule: follow_cases [of n us s w']) (auto simp: thread_safe_def)
        with r 1 Inr show ?thesis by (simp add: step_node_def)
      qed
    next
      case 2
      have rev: "reviewed s" using safe run 2 by (simp add: thread_safe_def s_def)
      then have "reviewed (s\<lparr>st_approval_required := x\<rparr>)" for x by (simp add: reviewed_def artifact_of_def)
      with 2 rev log show ?thesis
        by (cases "st_security_verdict s = Some (lit ''HIGH_RISK'')")
          (simp_all add: step_node_def security_gate_def thread_safe_def follow_def cleared_def Let_def)
    next
      case 3
      have clear: "cleared s" using safe run 3 by (simp add: thread_safe_def s_def)
      from r 3 have v: "verifier_run h s w = (r, w')" by (simp add: verifies)
      show ?thesis
      proof (cases r)
        case (Inl e)
        then have "executed_code h s = None" using v
          by (auto simp: verifier_run_def executed_code_def Let_def io_bind_def
              execute_normalized_def split: option.splits sum.splits if_splits prod.splits)
        with verifier_idle v have "w' = w" by (metis snd_conv)
        with 3 r Inl log show ?thesis by (simp add: step_node_def thread_safe_def)
      next
        case (Inr us)
        from verifier_log [OF v] obtain evs where evs: "docker_log w' = docker_log w @ evs"
          "evs = [] \<or> (\<exists>code. executed_code h s = Some code \<and> sandbox_session code evs)" by blast
        have keep: "st_fix_artifact (merge_updates us s) = st_fix_artifact s"
          "st_security_verdict (merge_updates us s) = st_security_verdict s"
          using v Inr by (auto dest!: verifier_answer)
        then have "cleared (merge_updates us s)" "executed_code h (merge_updates us s) = executed_code h s"
          using clear by (simp_all add: cleared_def reviewed_def artifact_of_def executed_code_def)
        with 3 r Inr evs log show ?thesis
          by (auto simp: step_node_def thread_safe_def follow_def executed_def)
      qed
    next
      case 4
      from r 4 have f: "format_report h s w = (r, w')" by simp
      then have same: "docker_log w' = docker_log w" using format_report_frame by blast
      show ?thesis
      proof (cases r)
        case (Inl e)
        with 4 r same safe run show ?thesis
          by (auto simp: step_node_def thread_safe_def s_def w_def executed_def)
      next
        case (Inr us)
        with format_report_done f obtain rep p where us: "us = [UReportText rep, UReportPath p]" by blast
        then have "executed_code h (merge_updates us s) = executed_code h s" "cleared (merge_updates us s) = cleared s"
          by (simp_all add: executed_code_def cleared_def reviewed_def artifact_of_def)
        with 4 r Inr same safe run show ?thesis
          by (auto simp: step_node_def thread_safe_def follow_def s_def w_def executed_def)
      qed
    qed
  qed
  then show ?thesis by (simp add: s_def w_def)
qed

lemma thread_safe_reaches:
  assumes "graph_reaches h ag t t'" "thread_safe h w0 t"
  shows "thread_safe h w0 t'"
  using assms unfolding graph_reaches_def
proof (induction rule: rtranclp_induct)
  case (step u v)
  then show ?case using thread_safe_step by (auto simp: graph_step_running)
qed

paragraph \<open>Answers and shape\<close>

lemma run_node_answer:
  assumes "run_node h ag n s w = (Inr us, w')" "n \<noteq> SecurityGate"
  shows "node_answer n us"
proof (cases n)
  case Dispatch
  with assms show ?thesis by (auto simp: dispatch_def intro: node_answer.intros)
next
  case ParseLog
  with assms have "parse_log h s w = (Inr us, w')" by simp
  then show ?thesis unfolding ParseLog
    by (cases rule: parse_log_cases) (auto intro: node_answer.intros)
next
  case DiagnosisNode
  with assms have "guarded (ag_diagnosis ag) s w = (Inr us, w')" by simp
  then show ?thesis unfolding DiagnosisNode
    by (cases rule: guarded_cases)
      (auto simp: budget_answer_def [symmetric] dest!: diagnoses intro: node_answer.intros)
next
  case SupervisorRoute
  with assms have "guarded (ag_supervisor ag) s w = (Inr us, w')" by simp
  then show ?thesis unfolding SupervisorRoute
    by (cases rule: guarded_cases)
      (auto simp: budget_answer_def [symmetric] dest!: supervises intro: node_answer.intros)
next
  case CodeFixerNode
  with assms have "guarded (ag_code_fixer ag) s w = (Inr us, w')" by simp
  moreover have "strip a = a \<Longrightarrow> node_answer CodeFixerNode [UArtifact a, UAgentTrace [lit ''CodeFixerAgent'']]" for a
    using node_answer.intros(7) [of CodeFixerNode a] by (simp add: specialist_name_def)
  ultimately show ?thesis unfolding CodeFixerNode
    by (cases rule: guarded_cases)
      (auto simp: budget_answer_def [symmetric] dest!: fixes_code intro: node_answer.intros(9))
next
  case InfraSreNode
  with assms have "guarded (ag_infra_sre ag) s w = (Inr us, w')" by simp
  moreover have "strip a = a \<Longrightarrow> node_answer InfraSreNode [UArtifact a, UAgentTrace [lit ''InfraSREAgent'']]" for a
    using node_answer.intros(7) [of InfraSreNode a] by (simp add: specialist_name_def)
  ultimately show ?thesis unfolding InfraSreNode
    by (cases rule: guarded_cases)
      (auto simp: budget_answer_def [symmetric] dest!: fixes_infra intro: node_answer.intros(9))
next
  case SecurityReviewer
  from SecurityReviewer assms have "guarded (ag_security_reviewer ag) s w = (Inr us, w')" by simp
  then show ?thesis unfolding SecurityReviewer
    by (cases rule: guarded_cases) (auto simp: budget_answer_def [symmetric] dest!: reviews intro: node_answer.intros)
next
  case VerifierNode
  with assms verifier_answer show ?thesis
    by (fastforce simp: verifies intro: node_answer.intros)
next
  case FormatReport
  with assms format_report_done show ?thesis by (fastforce intro: node_answer.intros)
next
  case CostExhausted
  with assms show ?thesis
    by (auto simp: cost_exhausted_node_def intro: node_answer.intros split: sum.splits)
qed (use assms in simp)

lemma graph_step_staged:
  assumes "graph_step h ag r t t'" "thread_staged t"
  shows "thread_staged t'"
  using assms
proof cases
  case (node_answers n s w us w')
  with assms(2) run_node_answer follow_staged show ?thesis by (auto simp: thread_staged_def)
next
  case (gate_passes s us w)
  with assms(2) gate_answer follow_staged show ?thesis by (fastforce simp: thread_staged_def)
next
  case (resumes d s us w)
  with assms(2) gate_answer follow_staged show ?thesis by (fastforce simp: thread_staged_def)
qed (use assms(2) in \<open>auto simp: thread_staged_def\<close>)

lemma reaches_staged:
  assumes "graph_reaches h ag t t'" "thread_staged t"
  shows "thread_staged t'"
  using assms unfolding graph_reaches_def
  by (induction rule: rtranclp_induct) (auto intro: graph_step_staged)

text \<open>
  Where a failed thread got its exception: its last node was called on the state and in a world
  the run reached, and raised it.  In particular no router raised.
\<close>

lemma graph_step_blames:
  assumes "graph_step h ag False t t'" "thread_staged t" "th_status t' = Failed n e"
  shows "n \<noteq> SecurityGate \<and> th_status t = Running n \<and> th_state t = th_state t' \<and>
    run_node h ag n (th_state t') (th_world t) = (Inl e, th_world t')"
  using assms
proof cases
  case (node_answers m s w us w')
  with assms(2) run_node_answer have "arrives m (merge_updates us s)"
    by (auto simp: thread_staged_def intro: stage_step)
  with node_answers assms(3) show ?thesis
    by (cases rule: follow_cases [of m us s w']) (auto simp: arrives_def)
next
  case (gate_passes s us w)
  with assms(3) show ?thesis by (auto simp: follow_def)
qed (use assms(3) in auto)

lemma reaches_blames:
  assumes "graph_reaches h ag t0 t" "thread_staged t0" "\<And>n e. th_status t0 \<noteq> Failed n e"
  shows "node_raised h ag t0 t"
proof (cases "\<exists>n e. th_status t = Failed n e")
  case True
  then obtain n e where t: "th_status t = Failed n e" by blast
  with assms(3) have "t \<noteq> t0" by blast
  with assms(1) obtain u where u: "graph_reaches h ag t0 u" "graph_step h ag False u t"
    unfolding graph_reaches_def by (metis rtranclp.cases)
  note last = graph_step_blames [OF u(2) reaches_staged [OF u(1) assms(2)] t]
  then have "u = thread_at (Running n) (th_state t) (th_world u)" using thread_at_eta [of u] by simp
  with u(1) have "graph_reaches h ag t0 (thread_at (Running n) (th_state t) (th_world u))" by simp
  with last t show ?thesis by (auto simp: node_raised_def)
qed (auto simp: node_raised_def split: status.split)

lemma invoke_blames:
  "fresh s \<Longrightarrow> node_raised h ag (thread_at (Running Dispatch) s w) (graph_invoke h ag s w)"
  unfolding graph_invoke_def
  by (rule reaches_blames [OF graph_run_reaches]) (simp_all add: thread_staged_def stage_start)

lemma invoke_staged: "fresh s \<Longrightarrow> thread_staged (graph_invoke h ag s w)"
  unfolding graph_invoke_def
  by (rule reaches_staged [OF graph_run_reaches]) (simp add: thread_staged_def stage_start)

lemma invoke_safe: "thread_safe h w (graph_invoke h ag s w)"
  unfolding graph_invoke_def
  by (rule thread_safe_reaches [OF graph_run_reaches thread_safe_start])

lemma resume_staged:
  assumes "thread_staged t" "graph_resume h ag d t = Some t'"
  shows "thread_staged t'"
proof -
  have sus: "th_status t = Suspended"
    using assms(2) by (auto simp: graph_resume_def split: status.splits)
  let ?s = "(th_state t)\<lparr>st_approval_required := st_security_verdict (th_state t) = Some (lit ''HIGH_RISK'')\<rparr>"
  have "stage VerifierNode ?s"
    using assms(1) sus by (auto simp: thread_staged_def stage_def log_ready_def)
  then have "thread_staged (thread_at (Running VerifierNode) ?s (th_world t))"
    by (simp add: thread_staged_def)
  then have "thread_staged (graph_run h ag graph_fuel
      (thread_at (Running VerifierNode) ?s (th_world t)))"
    by (rule reaches_staged [OF graph_run_reaches])
  then show ?thesis using assms(2) unfolding resume_eq [OF sus] by simp
qed

paragraph \<open>Trace identifiers\<close>

lemma run_node_traffic:
  assumes "run_node h ag n s w = (r, w')" "st_trace_id s = Some tid"
  shows "\<exists>reqs. sdk_log w' = sdk_log w @ reqs \<and> (\<forall>r \<in> set reqs. rq_trace_id r = tid)"
proof (cases "n = VerifierNode \<or> n = FormatReport")
  case True
  then have "sdk_log w' = sdk_log w"
    using assms(1) verifier_log format_report_frame
    by (fastforce simp: verifies only_docker_def)
  then show ?thesis by simp
next
  case False
  with run_node_llm_only [OF _ _ assms(1)] assms(2) show ?thesis
    by (simp add: llm_only_def state_trace_id_def)
qed

lemma traced_step:
  assumes "thread_traced tid w0 t" "th_status t = Running n" "n \<noteq> Dispatch"
  shows "thread_traced tid w0 (step_node h ag n (th_state t) (th_world t))"
proof (cases "n = SecurityGate")
  case True
  with assms(1) show ?thesis
    by (auto simp: step_node_def thread_traced_def follow_def security_gate_def Let_def split: option.splits)
next
  case False
  let ?s = "th_state t" and ?w = "th_world t"
  obtain r w' where r: "run_node h ag n ?s ?w = (r, w')"
    by (cases "run_node h ag n ?s ?w")
  obtain reqs reqs' where log: "sdk_log ?w = sdk_log w0 @ reqs" "\<forall>r \<in> set reqs. rq_trace_id r = tid"
    "sdk_log w' = sdk_log ?w @ reqs'" "\<forall>r \<in> set reqs'. rq_trace_id r = tid"
    using assms(1) run_node_traffic [OF r] by (auto simp: thread_traced_def)
  then have all: "\<exists>rs. sdk_log w' = sdk_log w0 @ rs \<and> (\<forall>r \<in> set rs. rq_trace_id r = tid)"
    by (intro exI [of _ "reqs @ reqs'"]) auto
  show ?thesis
  proof (cases r)
    case (Inl e)
    with False r all assms(1) show ?thesis by (simp add: step_node_def thread_traced_def)
  next
    case (Inr us)
    with run_node_answer r False have "node_answer n us" by blast
    then have "st_trace_id (merge_updates us ?s) = Some tid"
      using answer_keeps_trace_id assms(1,3) by (simp add: thread_traced_def)
    then have "thread_traced tid w0 (follow n us ?s w')"
      using all assms(1) by (cases rule: follow_cases [of n us ?s w']) (simp_all add: thread_traced_def)
    with False r Inr show ?thesis by (simp add: step_node_def)
  qed
qed

lemma traced_run:
  "thread_traced tid w0 t \<Longrightarrow> th_status t \<noteq> Running Dispatch \<Longrightarrow>
   thread_traced tid w0 (graph_run h ag k t)"
proof (induction k arbitrary: t)
  case (Suc k)
  show ?case
  proof (cases "th_status t")
    case (Running n)
    with Suc show ?thesis using traced_step never_back_to_dispatch by auto
  qed (use Suc in auto)
qed simp

lemma invoke_traced:
  "thread_traced (run_trace_id h s w) w (graph_invoke h ag s w)"
proof -
  let ?t = "step_node h ag Dispatch s w"
  have t: "?t = thread_at (Running ParseLog)
      (if nonempty (st_trace_id s) then s else s\<lparr>st_trace_id := Some (h_token h w)\<rparr>) w"
    by (simp add: step_node_def dispatch_def follow_def)
  have "thread_traced (run_trace_id h s w) w ?t"
    unfolding t by (auto simp: thread_traced_def run_trace_id_def nonempty_def split: option.splits)
  moreover have "graph_invoke h ag s w = graph_run h ag 8 ?t"
    by (simp add: graph_invoke_def graph_fuel_def numeral_eq_Suc)
  ultimately show ?thesis using traced_run never_back_to_dispatch by metis
qed

end

end
