(* ===== verification/Production.thy ===== *)
theory Production
  imports Team
begin

text \<open>
  The graph with the agents the program runs: their clients come from the factory, the
  verifier is the Docker one.  They are a team (\<open>prod\<close>), which gives the safety of the sandbox, the
  shape of every run and the trace identifiers; the lemmas here add what they spend.
\<close>

subsection \<open>The production agents\<close>

text \<open>
  The module-level singletons: one client and configuration per agent name, as
  \<^verbatim>\<open>build_client_for_agent\<close> returned them.
\<close>

definition production_agents :: "host \<Rightarrow> (string \<Rightarrow> provider \<times> agent_model_config) \<Rightarrow> agents" where
  "production_agents h built =
     (let client = (\<lambda>name. provider_client h (fst (built name))); cfg = (\<lambda>name. snd (built name))
      in \<lparr>ag_diagnosis = diagnosis_run (client ''diagnosis'') (cfg ''diagnosis''),
          ag_supervisor = supervisor_run (client ''supervisor'') (cfg ''supervisor''),
          ag_code_fixer = code_fixer_run h (client ''code_fixer'') (cfg ''code_fixer''),
          ag_infra_sre = infra_sre_run h (client ''infra_sre'') (cfg ''infra_sre''),
          ag_security_reviewer =
            security_reviewer_run (client ''security_reviewer'') (cfg ''security_reviewer''),
          ag_verifier = verifier_run h\<rparr>)"

lemma production_agents_simps:
  "ag_diagnosis (production_agents h b) =
     diagnosis_run (provider_client h (fst (b ''diagnosis''))) (snd (b ''diagnosis''))"
  "ag_supervisor (production_agents h b) =
     supervisor_run (provider_client h (fst (b ''supervisor''))) (snd (b ''supervisor''))"
  "ag_code_fixer (production_agents h b) =
     code_fixer_run h (provider_client h (fst (b ''code_fixer''))) (snd (b ''code_fixer''))"
  "ag_infra_sre (production_agents h b) =
     infra_sre_run h (provider_client h (fst (b ''infra_sre''))) (snd (b ''infra_sre''))"
  "ag_security_reviewer (production_agents h b) =
     security_reviewer_run (provider_client h (fst (b ''security_reviewer''))) (snd (b ''security_reviewer''))"
  "ag_verifier (production_agents h b) = verifier_run h"
  by (simp_all add: production_agents_def Let_def)

lemma bill_frame:
  assumes "bill h cost w = (r, w')"
  shows "docker_log w' = docker_log w \<and> files w' = files w \<and> environ w' = environ w \<and>
    sdk_log w' = sdk_log w"
  using assms by (auto simp: bill_def split: sum.splits prod.splits)

lemma provider_complete_traffic:
  assumes "provider_complete name table h ms model trace agent k temp w = (r, w')"
  shows "llm_only trace w w' \<and> (\<exists>n \<le> 2. sdk_log w' =
    sdk_log w @ replicate n (request_of ms model trace agent k temp))"
  using assms
proof (cases rule: provider_cases)
  case (refused e)
  then show ?thesis by (auto simp: llm_only_def intro: exI [of _ "0::nat"])
next
  case (failed out e)
  note fr = invoke_with_retry_frame [OF failed(1)]
    and at = invoke_with_retry_attempts [of h "request_of ms model trace agent k temp" w]
  have "\<exists>n \<le> 2. sdk_log w' = sdk_log w @ replicate n (request_of ms model trace agent k temp)"
    using at failed(1)
    by (cases "h_sdk h (request_of ms model trace agent k temp) w")
      (auto intro: exI [of _ "1::nat"] exI [of _ "2::nat"] simp: numeral_2_eq_2)
  with fr show ?thesis by (force simp: llm_only_def)
next
  case (answered out w1 cost resp rb)
  note fr = invoke_with_retry_frame [OF answered(1)] and bf = bill_frame [OF answered(6)]
    and at = invoke_with_retry_attempts [of h "request_of ms model trace agent k temp" w]
  have "\<exists>n \<le> 2. sdk_log w' = sdk_log w @ replicate n (request_of ms model trace agent k temp)"
    using at answered(1) bf
    by (cases "h_sdk h (request_of ms model trace agent k temp) w")
      (auto intro: exI [of _ "1::nat"] exI [of _ "2::nat"] simp: numeral_2_eq_2)
  with fr bf show ?thesis by (force simp: llm_only_def)
qed

lemma provider_client_traffic:
  "\<forall>ms model name k temp.
     io_steps (\<lambda>_. True) (llm_only t) (provider_client h p ms model t name k temp)"
proof (intro allI)
  fix ms model name k temp
  have "\<exists>n tb. provider_client h p = provider_complete n tb h"
    by (cases p) (auto simp: provider_client_def ark_complete_def glm_complete_def)
  then show "io_steps (\<lambda>_. True) (llm_only t) (provider_client h p ms model t name k temp)"
    using provider_complete_traffic unfolding io_steps_def by (metis prod.collapse)
qed

lemma production_llm_only:
  fixes s :: agent_state
  defines "S \<equiv> io_steps (\<lambda>_. True) (llm_only (state_trace_id s))"
  shows "S (ag_diagnosis (production_agents h b) s)"
    and "S (ag_supervisor (production_agents h b) s)"
    and "S (ag_code_fixer (production_agents h b) s)"
    and "S (ag_infra_sre (production_agents h b) s)"
    and "S (ag_security_reviewer (production_agents h b) s)"
  unfolding S_def production_agents_simps
  by (intro agent_steps preorder_llm_only provider_client_traffic)+

lemma reviewer_verdict:
  assumes "security_reviewer_run client cfg s w = (Inr us, w')"
  shows "\<exists>v \<in> set valid_verdicts. \<exists>m. (deny_listed (artifact_of s) \<longrightarrow> v = lit ''HIGH_RISK'') \<and>
    us = [UVerdict v, UClassifier m, UAgentTrace [lit ''SecurityReviewerAgent'']]"
  using assms
  by (cases rule: security_reviewer_cases)
    (use parse_verdict_valid in \<open>auto simp: artifact_of_def valid_verdicts_def\<close>)

interpretation prod: agent_team h "production_agents h b" for h b
proof (unfold_locales, goal_cases)
  case (10 s w us w')
  then show ?case unfolding production_agents_simps by (rule reviewer_verdict)
qed (use production_llm_only diagnosis_answer supervisor_answer code_fixer_answer infra_sre_answer
    in \<open>auto simp: production_agents_simps\<close>)

subsection \<open>The budget\<close>

lemma guard_exists_when_tripped:
  "world_tripped w \<Longrightarrow> \<exists>g. guard w = Some g \<and> get_cost_guard (environ w budget_env) (guard w) = Inr g"
  by (auto simp: world_tripped_def get_cost_guard_def split: option.splits)

text \<open>A thread that is marked exhausted runs over a tripped guard, whose total it mirrors.\<close>

definition thread_billed :: "thread \<Rightarrow> bool" where
  "thread_billed t \<longleftrightarrow>
     (st_cost_exhausted (th_state t) = Some True \<longrightarrow> world_tripped (th_world t)) \<and>
     (th_status t = Finished \<longrightarrow> st_cost_exhausted (th_state t) = Some True \<longrightarrow>
        (\<exists>g. guard (th_world t) = Some g \<and>
           st_cost_accumulated (th_state t) = Some (fl_of_decimal (total_spent g))))"

lemma answer_marks_budget:
  "node_answer n us \<Longrightarrow> us \<noteq> budget_answer \<Longrightarrow>
   st_cost_exhausted (merge_updates us s) = st_cost_exhausted s"
  by (induction rule: node_answer.induct) (auto simp: parse_failed_def budget_answer_def)

lemma budget_answer_trips:
  assumes "run_node h (production_agents h b) n s w = (Inr budget_answer, w')"
  shows "n \<noteq> SecurityGate \<Longrightarrow> world_tripped w'"
proof -
  assume "n \<noteq> SecurityGate"
  with prod.run_node_answer assms have "node_answer n budget_answer" by blast
  then have llm: "n \<in> {DiagnosisNode, SupervisorRoute, CodeFixerNode, InfraSreNode, SecurityReviewer}"
    by (rule budget_answer_node)
  show ?thesis
  proof -
    from llm obtain agent where g: "guarded agent s w = (Inr budget_answer, w')"
      and agent: "agent \<in> {ag_diagnosis (production_agents h b), ag_supervisor (production_agents h b),
        ag_code_fixer (production_agents h b), ag_infra_sre (production_agents h b),
        ag_security_reviewer (production_agents h b)}"
      using assms by auto
    from g show ?thesis
    proof (cases rule: guarded_cases)
      case (answered us)
      then show ?thesis
        using agent
        by (auto simp: production_agents_simps budget_answer_def elim: security_reviewer_cases
            dest!: diagnosis_answer supervisor_answer code_fixer_answer infra_sre_answer)
    next
      case (exhausted a b' c d)
      then show ?thesis
        using agent built.agents_trip by (auto simp: production_agents_simps)
    qed simp
  qed
qed

lemma billed_step:
  assumes "thread_billed t" "thread_staged t" "th_status t = Running n"
  shows "thread_billed (step_node h (production_agents h b) n (th_state t) (th_world t))"
proof -
  define s where "s = th_state t"
  define w where "w = th_world t"
  have stage: "stage n s" using assms by (simp add: thread_staged_def s_def)
  have flag: "st_cost_exhausted s = Some True \<Longrightarrow> n = CostExhausted \<and> world_tripped w"
    using stage assms(1) by (auto simp: stage_def thread_billed_def s_def w_def split: if_splits)
  have clean: "st_cost_exhausted x \<noteq> Some True \<Longrightarrow> thread_billed (thread_at st x v)" for st x v
    by (simp add: thread_billed_def)
  have clean_follow: "thread_billed (follow m us s v)"
    if "st_cost_exhausted (merge_updates us s) \<noteq> Some True" "st_cost_exhausted s \<noteq> Some True" for m us v
    using that by (cases rule: follow_cases [of m us s v]) (simp_all add: clean)
  have "thread_billed (step_node h (production_agents h b) n s w)"
  proof (cases "n = SecurityGate")
    case True
    with flag have "st_cost_exhausted s \<noteq> Some True" by blast
    with True clean clean_follow show ?thesis
      by (auto simp: step_node_def security_gate_def Let_def)
  next
    case ng: False
    obtain r w' where r: "run_node h (production_agents h b) n s w = (r, w')"
      by (cases "run_node h (production_agents h b) n s w")
    show ?thesis
    proof (cases "n = CostExhausted")
      case True
      then have trip: "world_tripped w"
        using stage assms(1) by (simp add: stage_def thread_billed_def s_def w_def)
      obtain g where g: "guard w = Some g" "get_cost_guard (environ w budget_env) (guard w) = Inr g"
        using guard_exists_when_tripped [OF trip] by blast
      then have "r = Inr [UCost (fl_of_decimal (total_spent g)), UAgentTrace [lit ''cost_guard_triggered'']]"
        "w' = w\<lparr>guard := Some g\<rparr>"
        using r True by (auto simp: cost_exhausted_node_def)
      with True r g trip show ?thesis
        by (simp add: step_node_def follow_def thread_billed_def world_tripped_def)
    next
      case False
      with flag have nf: "st_cost_exhausted s \<noteq> Some True" by blast
      show ?thesis
      proof (cases r)
        case (Inl e)
        with ng r nf clean show ?thesis by (simp add: step_node_def)
      next
        case (Inr us)
        show ?thesis
        proof (cases "us = budget_answer")
          case True
          with r Inr ng budget_answer_trips have trip: "world_tripped w'" by blast
          have "n \<in> {DiagnosisNode, SupervisorRoute, CodeFixerNode, InfraSreNode, SecurityReviewer}"
            using prod.run_node_answer r Inr ng True budget_answer_node by blast
          then have "next_node n (merge_updates us s) \<noteq> Inr None"
            by (auto simp: True budget_answer_def or_cost_exhausted_def route_to_specialist_def)
          with trip nf ng r Inr show ?thesis
            by (cases rule: follow_cases [of n us s w']) (simp_all add: step_node_def thread_billed_def)
        next
          case no: False
          with prod.run_node_answer r Inr ng answer_marks_budget nf
          have "st_cost_exhausted (merge_updates us s) \<noteq> Some True" by metis
          with clean_follow nf ng r Inr show ?thesis by (simp add: step_node_def)
        qed
      qed
    qed
  qed
  then show ?thesis by (simp add: s_def w_def)
qed

lemma invoke_billed:
  assumes "fresh s"
  shows "thread_billed (graph_invoke h (production_agents h b) s w)"
proof -
  have "graph_reaches h (production_agents h b) t t' \<Longrightarrow> thread_billed t \<and> thread_staged t \<Longrightarrow>
      thread_billed t' \<and> thread_staged t'" for t t'
    unfolding graph_reaches_def
  proof (induction rule: rtranclp_induct)
    case (step u v)
    then obtain n where "th_status u = Running n"
      "v = step_node h (production_agents h b) n (th_state u) (th_world u)"
      by (auto simp: graph_step_running)
    moreover have "thread_staged v" using step prod.graph_step_staged by blast
    ultimately show ?case using step billed_step by blast
  qed
  moreover have "thread_billed (thread_at (Running Dispatch) s w) \<and> thread_staged (thread_at (Running Dispatch) s w)"
    using assms by (simp add: thread_billed_def thread_staged_def stage_start fresh_def)
  ultimately show ?thesis unfolding graph_invoke_def using graph_run_reaches by blast
qed

subsection \<open>Resumption\<close>

definition approved :: "agent_state \<Rightarrow> agent_state" where
  "approved s = s\<lparr>st_approval_required := st_security_verdict s = Some (lit ''HIGH_RISK'')\<rparr>"

text \<open>What a resumed thread does to the containers is what the verifier does.\<close>

lemma resume_docker:
  assumes "graph_resume h (production_agents h b) d t = Some t'"
  shows "docker_log (th_world t') = docker_log (snd (verifier_run h (approved (th_state t)) (th_world t)))"
proof -
  let ?s = "approved (th_state t)" and ?ag = "production_agents h b"
  have sus: "th_status t = Suspended"
    using assms by (auto simp: graph_resume_def split: status.splits)
  have "t' = graph_run h ?ag graph_fuel (thread_at (Running VerifierNode) ?s (th_world t))"
    using assms unfolding resume_eq [OF sus] by (simp add: approved_def)
  also have "\<dots> = graph_run h ?ag 8 (step_node h ?ag VerifierNode ?s (th_world t))"
    by (simp add: graph_fuel_def numeral_eq_Suc)
  finally have t': "t' = graph_run h ?ag 8 (step_node h ?ag VerifierNode ?s (th_world t))" .
  obtain r w1 where v: "verifier_run h ?s (th_world t) = (r, w1)"
    by (cases "verifier_run h ?s (th_world t)")
  show ?thesis
  proof (cases r)
    case (Inl e)
    with v t' show ?thesis by (simp add: step_node_def production_agents_simps numeral_eq_Suc)
  next
    case (Inr us)
    obtain r2 w2 where f: "format_report h (merge_updates us ?s) w1 = (r2, w2)"
      by (cases "format_report h (merge_updates us ?s) w1")
    have "docker_log w2 = docker_log w1" using format_report_frame [OF f] by simp
    with v t' Inr f show ?thesis
      by (cases r2) (simp_all add: step_node_def production_agents_simps follow_def numeral_eq_Suc)
  qed
qed

lemma executed_code_approved [simp]: "executed_code h (approved s) = executed_code h s"
  by (simp add: approved_def executed_code_def)

text \<open>What the invariant says of a stopped thread.\<close>

lemma executed_code_deny:
  assumes "executed_code h s = Some code"
  shows "\<exists>a. st_fix_artifact s = Some a \<and> (deny_listed code \<longleftrightarrow> deny_listed a)"
proof -
  from assms obtain a na where a: "st_fix_artifact s = Some a"
    and na: "normalize_fix_artifact h a = Inr na" "na_outcome na \<noteq> Rejected" "code = na_code na"
    by (auto simp: executed_code_def split: option.splits sum.splits if_splits)
  from na(1) have "deny_listed code \<longleftrightarrow> deny_listed a"
    by (cases rule: normalize_cases) (use na(2,3) in \<open>auto simp: rejected_def deny_listed_wrap\<close>)
  with a show ?thesis by blast
qed

lemma thread_safe_executes:
  assumes "thread_safe h w t"
  shows "docker_log (th_world t) = docker_log w \<or>
    (\<exists>artifact code evs.
       st_fix_artifact (th_state t) = Some artifact \<and> executed_code h (th_state t) = Some code \<and>
       docker_log (th_world t) = docker_log w @ evs \<and> sandbox_session code evs \<and>
       \<not> deny_listed artifact \<and> \<not> deny_listed code \<and>
       st_security_verdict (th_state t) \<in> {Some (lit ''SAFE''), Some (lit ''CAUTION'')})"
proof (cases "docker_log (th_world t) = docker_log w")
  case False
  with assms have clear: "cleared (th_state t)" and ex: "executed h (th_state t) w (th_world t)"
    by (auto simp: thread_safe_def)
  then obtain code evs where evs: "docker_log (th_world t) = docker_log w @ evs"
    "executed_code h (th_state t) = Some code" "sandbox_session code evs"
    by (auto simp: executed_def)
  from executed_code_deny [OF evs(2)] obtain a where a: "st_fix_artifact (th_state t) = Some a"
    "deny_listed code \<longleftrightarrow> deny_listed a" by blast
  from clear have "\<not> deny_listed a"
    "st_security_verdict (th_state t) \<in> {Some (lit ''SAFE''), Some (lit ''CAUTION'')}"
    using a(1) by (auto simp: cleared_def reviewed_def artifact_of_def valid_verdicts_def)
  with a evs show ?thesis by blast
qed simp

end
