(* ===== verification/Checkpoints.thy ===== *)
theory Checkpoints
  imports Production
begin

text \<open>
  The checkpointers of \<^verbatim>\<open>autosentinel/multi_agent_graph.py\<close> and what the compiled graph keeps in
  them.  An injected checkpointer wins; without a DSN every build makes its own in-memory
  saver; with one, a process-wide cache holds one open connection per DSN until the exit hook
  closes them.

  The laws: a DSN that was resolved once is answered from the cache, whatever the database
  does; the open connections are exactly the cached ones; the exit hook closes each of them,
  last one first, and leaves nothing behind; a saver made in memory starts without threads.
\<close>

subsection \<open>Selecting a saver\<close>

datatype saver = MemorySaver nat | PostgresSaver ustr

text \<open>The calls to \<^verbatim>\<open>PostgresSaver\<close> that took effect, oldest first.\<close>

datatype pg_event = PgEnter ustr | PgSetup ustr | PgExit ustr

record savers =
  sv_cache :: "(ustr \<times> saver) list"
  sv_open :: "ustr list"
  sv_made :: nat
  sv_calls :: "pg_event list"

record pg_host =
  pg_enter :: "ustr \<Rightarrow> savers \<Rightarrow> exn option"
  pg_setup :: "ustr \<Rightarrow> savers \<Rightarrow> exn option"
  pg_exit :: "ustr \<Rightarrow> savers \<Rightarrow> exn option"

definition pg_call :: "pg_event \<Rightarrow> (savers \<Rightarrow> exn option) \<Rightarrow> (savers, unit) io" where
  "pg_call ev fails = (\<lambda>sv.
     case fails sv of
       Some e \<Rightarrow> (Inl e, sv)
     | None \<Rightarrow> (Inr (), sv\<lparr>sv_calls := sv_calls sv @ [ev]\<rparr>))"

definition new_memory_saver :: "(savers, saver) io" where
  "new_memory_saver = (\<lambda>sv. (Inr (MemorySaver (sv_made sv)), sv\<lparr>sv_made := sv_made sv + 1\<rparr>))"

definition keep_saver :: "ustr \<Rightarrow> (savers, saver) io" where
  "keep_saver dsn = (\<lambda>sv.
     (Inr (PostgresSaver dsn),
      sv\<lparr>sv_open := sv_open sv @ [dsn], sv_cache := dict_set dsn (PostgresSaver dsn) (sv_cache sv)\<rparr>))"

definition resolve_checkpointer :: "pg_host \<Rightarrow> ustr option \<Rightarrow> saver option \<Rightarrow> (savers, saver) io" where
  "resolve_checkpointer ph dsn checkpointer = (\<lambda>sv.
     case checkpointer of
       Some c \<Rightarrow> (Inr c, sv)
     | None \<Rightarrow>
         if \<not> nonempty dsn then new_memory_saver sv
         else (case map_of (sv_cache sv) (the dsn) of
             Some c \<Rightarrow> (Inr c, sv)
           | None \<Rightarrow>
               io_bind (pg_call (PgEnter (the dsn)) (pg_enter ph (the dsn))) (\<lambda>_.
               io_bind (pg_call (PgSetup (the dsn)) (pg_setup ph (the dsn))) (\<lambda>_.
                 keep_saver (the dsn))) sv))"

text \<open>The exit hook pops the open connections from the end and swallows what closing raises.\<close>

fun close_each :: "pg_host \<Rightarrow> ustr list \<Rightarrow> savers \<Rightarrow> savers" where
  "close_each ph [] sv = sv"
| "close_each ph (d # ds) sv =
     close_each ph ds
       (snd (io_catch (pg_call (PgExit d) (pg_exit ph d)) (\<lambda>e. Some (io_return ()))
          (sv\<lparr>sv_open := rev ds\<rparr>)))"

definition close_open_checkpointers :: "pg_host \<Rightarrow> savers \<Rightarrow> savers" where
  "close_open_checkpointers ph sv = (close_each ph (rev (sv_open sv)) sv)\<lparr>sv_cache := []\<rparr>"

definition no_savers :: savers where
  "no_savers = \<lparr>sv_cache = [], sv_open = [], sv_made = 0, sv_calls = []\<rparr>"

subsection \<open>Threads in a saver\<close>

type_synonym checkpoint = "status \<times> agent_state"

record process =
  pr_world :: world
  pr_savers :: savers
  pr_store :: "saver \<Rightarrow> ustr \<Rightarrow> checkpoint option"

definition on_world :: "(world, 'a) io \<Rightarrow> (process, 'a) io" where
  "on_world m = (\<lambda>p. case m (pr_world p) of (r, w) \<Rightarrow> (r, p\<lparr>pr_world := w\<rparr>))"

record compiled =
  cg_agents :: agents
  cg_saver :: saver

definition dsn_env :: ustr where
  "dsn_env = lit ''AUTOSENTINEL_CHECKPOINTER_DSN''"

text \<open>\<open>None\<close> for the agents stands for the production ones.\<close>

definition build_multi_agent_graph ::
  "host \<Rightarrow> pg_host \<Rightarrow> (string \<Rightarrow> provider \<times> agent_model_config) \<Rightarrow>
   saver option \<Rightarrow> agents option \<Rightarrow> (process, compiled) io" where
  "build_multi_agent_graph h ph built checkpointer injected = (\<lambda>p.
     case resolve_checkpointer ph (environ (pr_world p) dsn_env) checkpointer (pr_savers p) of
       (Inl e, sv) \<Rightarrow> (Inl e, p\<lparr>pr_savers := sv\<rparr>)
     | (Inr c, sv) \<Rightarrow>
         (Inr \<lparr>cg_agents = or_else injected (production_agents h built), cg_saver = c\<rparr>,
          p\<lparr>pr_savers := sv\<rparr>))"

text \<open>
  \<^verbatim>\<open>graph.invoke(input, cfg)\<close>: the input is written over the thread's saved values; keys the
  input does not have keep theirs, and \<^verbatim>\<open>agent_trace\<close> is appended to.
\<close>

definition over_saved :: "checkpoint option \<Rightarrow> agent_state \<Rightarrow> agent_state" where
  "over_saved saved s =
     (case saved of
        None \<Rightarrow> s
      | Some (st, old) \<Rightarrow>
          s\<lparr>st_agent_trace := st_agent_trace old @ st_agent_trace s,
             st_trace_id := (if st_trace_id s = None then st_trace_id old else st_trace_id s),
             st_cost_accumulated :=
               (if st_cost_accumulated s = None then st_cost_accumulated old else st_cost_accumulated s),
             st_classifier_model :=
               (if st_classifier_model s = None then st_classifier_model old else st_classifier_model s),
             st_cost_exhausted :=
               (if st_cost_exhausted s = None then st_cost_exhausted old else st_cost_exhausted s),
             st_fix_normalization :=
               (if st_fix_normalization s = None then st_fix_normalization old
                else st_fix_normalization s)\<rparr>)"

definition save_thread :: "saver \<Rightarrow> ustr \<Rightarrow> thread \<Rightarrow> process \<Rightarrow> process" where
  "save_thread c tid t p =
     p\<lparr>pr_world := th_world t,
       pr_store := (pr_store p)(c := (pr_store p c)(tid \<mapsto> (th_status t, th_state t)))\<rparr>"

definition compiled_invoke :: "host \<Rightarrow> compiled \<Rightarrow> ustr \<Rightarrow> agent_state \<Rightarrow> process \<Rightarrow> thread \<times> process" where
  "compiled_invoke h g tid s p =
     (let t = graph_invoke h (cg_agents g) (over_saved (pr_store p (cg_saver g) tid) s) (pr_world p)
      in (t, save_thread (cg_saver g) tid t p))"

text \<open>
  \<^verbatim>\<open>graph.invoke(Command(resume=d), cfg)\<close>; for a thread that is not suspended the answer is
  LangGraph's (\<open>idle\<close>).
\<close>

definition compiled_resume ::
  "host \<Rightarrow> ('d \<Rightarrow> checkpoint option \<Rightarrow> world \<Rightarrow> thread) \<Rightarrow> compiled \<Rightarrow> ustr \<Rightarrow> 'd \<Rightarrow> process \<Rightarrow> thread \<times> process" where
  "compiled_resume h idle g tid d p =
     (let saved = pr_store p (cg_saver g) tid;
          t = (case saved of
                 None \<Rightarrow> idle d saved (pr_world p)
               | Some (st, s) \<Rightarrow>
                   or_else (graph_resume h (cg_agents g) d (thread_at st s (pr_world p)))
                     (idle d saved (pr_world p)))
      in (t, save_thread (cg_saver g) tid t p))"

subsection \<open>Laws\<close>

lemma pg_call_cases:
  assumes "pg_call ev f sv = (r, sv')"
  obtains (raised) e where "r = Inl e" "sv' = sv"
  | (called) "r = Inr ()" "sv' = sv\<lparr>sv_calls := sv_calls sv @ [ev]\<rparr>"
  using assms by (auto simp: pg_call_def split: option.splits)

lemma resolve_cases:
  assumes "resolve_checkpointer ph dsn checkpointer sv = (r, sv')"
  obtains (injected) c where "checkpointer = Some c" "r = Inr c" "sv' = sv"
  | (memory) "checkpointer = None" "\<not> nonempty dsn" "r = Inr (MemorySaver (sv_made sv))"
      "sv' = sv\<lparr>sv_made := sv_made sv + 1\<rparr>"
  | (cached) d c where "checkpointer = None" "dsn = Some d" "d \<noteq> []" "map_of (sv_cache sv) d = Some c"
      "r = Inr c" "sv' = sv"
  | (opened) d where "checkpointer = None" "dsn = Some d" "d \<noteq> []" "map_of (sv_cache sv) d = None"
      "r = Inr (PostgresSaver d)"
      "sv' = sv\<lparr>sv_calls := sv_calls sv @ [PgEnter d, PgSetup d], sv_open := sv_open sv @ [d],
               sv_cache := sv_cache sv @ [(d, PostgresSaver d)]\<rparr>"
  | (raised) d e where "checkpointer = None" "dsn = Some d" "d \<noteq> []" "map_of (sv_cache sv) d = None"
      "r = Inl e" "sv' = sv \<or> sv' = sv\<lparr>sv_calls := sv_calls sv @ [PgEnter d]\<rparr>"
proof (cases checkpointer)
  case (Some c)
  with assms show ?thesis by (intro injected) (auto simp: resolve_checkpointer_def)
next
  case None
  note inj = this
  show ?thesis
  proof (cases "nonempty dsn")
    case False
    with assms None show ?thesis
      by (intro memory) (auto simp: resolve_checkpointer_def new_memory_saver_def)
  next
    case True
    then obtain d where d: "dsn = Some d" "d \<noteq> []" by (auto simp: nonempty_def split: option.splits)
    show ?thesis
    proof (cases "map_of (sv_cache sv) d")
      case (Some c)
      with assms inj d True show ?thesis by (intro cached) (auto simp: resolve_checkpointer_def)
    next
      case None
      then have "d \<notin> fst ` set (sv_cache sv)" by (simp add: map_of_eq_None_iff)
      with assms inj d None True show ?thesis
        by (auto simp: resolve_checkpointer_def keep_saver_def dict_set_fresh
            elim!: io_bind_cases pg_call_cases intro: raised opened)
    qed
  qed
qed

definition savers_ok :: "savers \<Rightarrow> bool" where
  "savers_ok sv \<longleftrightarrow>
     sv_open sv = map fst (sv_cache sv) \<and> distinct (sv_open sv) \<and>
     (\<forall>(d, c) \<in> set (sv_cache sv). c = PostgresSaver d)"

lemma no_savers_ok: "savers_ok no_savers"
  by (simp add: savers_ok_def no_savers_def)

lemma resolve_ok:
  assumes "savers_ok sv" "resolve_checkpointer ph dsn c sv = (r, sv')"
  shows "savers_ok sv'"
  using assms(2)
proof (cases rule: resolve_cases)
  case (opened d)
  then have "d \<notin> fst ` set (sv_cache sv)" by (simp add: map_of_eq_None_iff)
  with opened assms(1) show ?thesis by (auto simp: savers_ok_def)
qed (use assms(1) in \<open>auto simp: savers_ok_def\<close>)

text \<open>A second resolution of the same DSN is answered without a call.\<close>

lemma resolve_again:
  assumes "resolve_checkpointer ph (Some d) None sv = (Inr c, sv')" "d \<noteq> []"
  shows "resolve_checkpointer ph' (Some d) None sv' = (Inr c, sv')"
  using assms(1)
proof (cases rule: resolve_cases)
  case (opened d')
  then have "d' \<notin> fst ` set (sv_cache sv)" by (simp add: map_of_eq_None_iff)
  with opened assms(2) have "map_of (sv_cache sv') d = Some c"
    by (simp add: map_add_def split: option.split)
  with assms(2) show ?thesis by (simp add: resolve_checkpointer_def nonempty_def)
qed (use assms in \<open>auto simp: resolve_checkpointer_def nonempty_def\<close>)

lemma close_each_frame:
  "\<exists>evs. close_each ph ds sv =
     sv\<lparr>sv_open := (if ds = [] then sv_open sv else []), sv_calls := sv_calls sv @ evs\<rparr> \<and>
     subseq evs (map PgExit ds)"
proof (induction ds arbitrary: sv)
  case Nil
  have "sv = sv\<lparr>sv_open := sv_open sv, sv_calls := sv_calls sv @ []\<rparr>" by simp
  then show ?case by (metis close_each.simps(1) list.simps(8) subseq_order.order_refl)
next
  case (Cons d ds)
  show ?case
  proof (cases "pg_exit ph d (sv\<lparr>sv_open := rev ds\<rparr>)")
    case None
    let ?sv = "sv\<lparr>sv_open := rev ds, sv_calls := sv_calls sv @ [PgExit d]\<rparr>"
    from Cons [of ?sv] obtain evs where
      "close_each ph ds ?sv = ?sv\<lparr>sv_open := (if ds = [] then sv_open ?sv else []), sv_calls := sv_calls ?sv @ evs\<rparr>"
      "subseq evs (map PgExit ds)" by blast
    with None show ?thesis
      by (intro exI [of _ "PgExit d # evs"]) (simp add: io_catch_def pg_call_def)
  next
    case (Some e)
    let ?sv = "sv\<lparr>sv_open := rev ds\<rparr>"
    from Cons [of ?sv] obtain evs where
      "close_each ph ds ?sv = ?sv\<lparr>sv_open := (if ds = [] then sv_open ?sv else []), sv_calls := sv_calls ?sv @ evs\<rparr>"
      "subseq evs (map PgExit ds)" by blast
    with Some show ?thesis
      by (intro exI [of _ evs]) (auto simp add: io_catch_def pg_call_def)
  qed
qed

text \<open>With a database that lets go, every open connection is closed, the last one first.\<close>

lemma close_each_all:
  assumes "\<And>d sv. pg_exit ph d sv = None"
  shows "sv_calls (close_each ph ds sv) = sv_calls sv @ map PgExit ds"
  by (induction ds arbitrary: sv) (simp_all add: io_catch_def pg_call_def assms)

lemma close_releases:
  "let sv' = close_open_checkpointers ph sv in sv_open sv' = [] \<and> sv_cache sv' = [] \<and> savers_ok sv'"
proof -
  obtain evs where "close_each ph (rev (sv_open sv)) sv =
      sv\<lparr>sv_open := (if rev (sv_open sv) = [] then sv_open sv else []), sv_calls := sv_calls sv @ evs\<rparr>"
    using close_each_frame by blast
  then show ?thesis by (simp add: close_open_checkpointers_def savers_ok_def)
qed

text \<open>In-memory savers that are still to be made hold no thread.\<close>

definition process_ok :: "process \<Rightarrow> bool" where
  "process_ok p \<longleftrightarrow>
     savers_ok (pr_savers p) \<and>
     (\<forall>n. sv_made (pr_savers p) \<le> n \<longrightarrow> pr_store p (MemorySaver n) = (\<lambda>_. None))"

lemma build_cases:
  assumes "build_multi_agent_graph h ph built c ags p = (r, p')"
  obtains (raised) e sv where "resolve_checkpointer ph (environ (pr_world p) dsn_env) c (pr_savers p) = (Inl e, sv)"
      "r = Inl e" "p' = p\<lparr>pr_savers := sv\<rparr>"
  | (ready) saver sv where
      "resolve_checkpointer ph (environ (pr_world p) dsn_env) c (pr_savers p) = (Inr saver, sv)"
      "r = Inr \<lparr>cg_agents = or_else ags (production_agents h built), cg_saver = saver\<rparr>"
      "p' = p\<lparr>pr_savers := sv\<rparr>"
  using assms by (auto simp: build_multi_agent_graph_def split: prod.splits sum.splits)

lemma build_ok:
  assumes "process_ok p" "build_multi_agent_graph h ph built c ags p = (r, p')"
  shows "process_ok p' \<and> pr_world p' = pr_world p \<and> pr_store p' = pr_store p"
proof -
  obtain x sv where x: "resolve_checkpointer ph (environ (pr_world p) dsn_env) c (pr_savers p) = (x, sv)"
    "p' = p\<lparr>pr_savers := sv\<rparr>"
    using assms(2) by (cases rule: build_cases) auto
  moreover have "sv_made (pr_savers p) \<le> sv_made sv"
    using x(1) by (cases rule: resolve_cases) auto
  ultimately show ?thesis using assms(1) resolve_ok by (auto simp: process_ok_def)
qed

text \<open>Without a DSN, a freshly built graph knows no thread.\<close>

lemma build_without_dsn:
  assumes "process_ok p" "\<not> nonempty (environ (pr_world p) dsn_env)"
    "build_multi_agent_graph h ph built None ags p = (r, p')"
  shows "\<exists>g. r = Inr g \<and> cg_agents g = or_else ags (production_agents h built) \<and>
     pr_store p' (cg_saver g) = (\<lambda>_. None) \<and> cg_saver g = MemorySaver (sv_made (pr_savers p))"
  using assms(3)
proof (cases rule: build_cases)
  case (raised e sv)
  with assms(2) show ?thesis by (auto simp: nonempty_def elim!: resolve_cases)
next
  case (ready saver sv)
  with assms(2) have "saver = MemorySaver (sv_made (pr_savers p))"
    by (auto simp: nonempty_def elim!: resolve_cases)
  with ready assms(1) show ?thesis by (auto simp: process_ok_def)
qed

lemma over_saved_none [simp]: "over_saved None s = s"
  by (simp add: over_saved_def)

subsection \<open>What a run leaves alone\<close>

text \<open>A run writes its own report and sidecar; no file disappears.\<close>

definition own_files :: "ustr \<Rightarrow> ustr set" where
  "own_files lp = {output_file (path_stem lp) ''-report.md'', output_file (path_stem lp) ''-result.json''}"

definition own_files_only :: "ustr \<Rightarrow> world \<Rightarrow> world \<Rightarrow> bool" where
  "own_files_only lp u v \<longleftrightarrow>
     environ v = environ u \<and> (\<forall>q. q \<notin> own_files lp \<longrightarrow> files v q = files u q) \<and>
     (\<forall>q. files u q \<noteq> None \<longrightarrow> files v q \<noteq> None)"

lemma preorder_own_files: "preorder (own_files_only lp)"
  unfolding preorder_def own_files_only_def by auto

lemma own_files_same [simp]:
  "files v = files u \<Longrightarrow> environ v = environ u \<Longrightarrow> own_files_only lp u v"
  by (simp add: own_files_only_def)

lemma write_own_file: "p \<in> own_files lp \<Longrightarrow> io_steps (\<lambda>_. True) (own_files_only lp) (write_text h p t)"
  by (auto simp: io_steps_def write_text_def own_files_only_def split: option.splits)

lemma format_report_own: "io_steps (\<lambda>_. True) (own_files_only (st_log_path s)) (format_report h s)"
proof -
  let ?R = "own_files_only (st_log_path s)"
  have wr: "io_steps (\<lambda>_. True) ?R (write_text h p t)" if "p = report_file s \<or> p = sidecar_file s" for p t
    using that by (auto simp: own_files_def report_file_def sidecar_file_def intro!: write_own_file)
  have "io_steps (\<lambda>_. True) ?R (host_step f)" for f by (simp add: io_steps_def host_step_def)
  then have "io_steps (\<lambda>_. True) ?R
     (io_bind (io_lift (report_text s now)) (\<lambda>report.
        io_bind (host_step (h_mkdir h (lit ''output''))) (\<lambda>_.
        io_bind (write_text h (report_file s) report) (\<lambda>_.
        io_bind (write_result_sidecar h s (path_stem (st_log_path s)) p) (\<lambda>_.
          io_return [UReportText report, UReportPath p])))))" for now p
    unfolding write_result_sidecar_def
    by (intro io_steps_intros preorder_own_files wr) (simp_all add: sidecar_file_def)
  then show ?thesis by (simp add: io_steps_def format_report_def Let_def report_file_def)
qed

lemma run_node_own:
  assumes "run_node h (production_agents h b) n s w = (r, w')"
  shows "own_files_only (st_log_path s) w w'"
proof (cases "n = VerifierNode \<or> n = FormatReport")
  case False
  with prod.run_node_llm_only [OF _ _ assms] show ?thesis by (simp add: llm_only_def)
next
  case True
  then show ?thesis
  proof
    assume "n = VerifierNode"
    with assms have "verifier_run h s w = (r, w')" by (simp add: production_agents_simps)
    from verifier_log [OF this] show ?thesis by (simp add: only_docker_def)
  next
    assume "n = FormatReport"
    with assms show ?thesis using io_stepsD(2) [OF format_report_own TrueI] by simp
  qed
qed

lemma step_node_own:
  "let t' = step_node h (production_agents h b) n s w in
   st_log_path (th_state t') = st_log_path s \<and> own_files_only (st_log_path s) w (th_world t')"
proof (cases "n = SecurityGate")
  case True
  then show ?thesis
    by (auto simp: step_node_def follow_def Let_def split: option.split)
next
  case False
  obtain r w' where r: "run_node h (production_agents h b) n s w = (r, w')"
    by (cases "run_node h (production_agents h b) n s w")
  have "th_world (follow n us s w') = w' \<and> st_log_path (th_state (follow n us s w')) = st_log_path s" for us
    by (simp add: follow_def Let_def split: sum.split option.split)
  with run_node_own [OF r] False r show ?thesis
    by (cases r) (simp_all add: step_node_def)
qed

lemma reaches_own:
  assumes "graph_reaches h (production_agents h b) t t'"
  shows "st_log_path (th_state t') = st_log_path (th_state t) \<and>
    own_files_only (st_log_path (th_state t)) (th_world t) (th_world t')"
  using assms unfolding graph_reaches_def
proof (induction rule: rtranclp_induct)
  case (step u v)
  from step.hyps(2) obtain n where "v = step_node h (production_agents h b) n (th_state u) (th_world u)"
    by (auto simp: graph_step_running)
  with step_node_own [of h b n "th_state u" "th_world u"] step.IH show ?case
    using preorder_own_files by (auto simp: Let_def preorder_def)
qed simp

lemma invoke_own: "own_files_only (st_log_path s) w (th_world (graph_invoke h (production_agents h b) s w))"
  using reaches_own [OF graph_run_reaches, of h b graph_fuel "thread_at (Running Dispatch) s w"]
  by (simp add: graph_invoke_def)

lemma resume_own:
  assumes "graph_resume h (production_agents h b) d t = Some t'"
  shows "own_files_only (st_log_path (th_state t)) (th_world t) (th_world t')"
proof -
  have sus: "th_status t = Suspended" using assms by (auto simp: graph_resume_def split: status.splits)
  from assms show ?thesis
    unfolding resume_eq [OF sus] option.inject
    using reaches_own [OF graph_run_reaches, of h b graph_fuel "thread_at (Running VerifierNode)
        ((th_state t)\<lparr>st_approval_required := st_security_verdict (th_state t) = Some (lit ''HIGH_RISK'')\<rparr>)
        (th_world t)"] by simp
qed

end
