(* ===== verification/Pipeline.thy ===== *)
theory Pipeline
  imports Production
begin

text \<open>
  \<^verbatim>\<open>autosentinel/__init__.py\<close> and \<^verbatim>\<open>__main__.py\<close>: the entry point that runs one incident
  through the graph, and the command line around it.

  The laws classify every outcome: a path is returned exactly when the graph completed, and
  then the report and the sidecar are on disk; a parse failure is a \<^verbatim>\<open>DiagnosticError\<close>; a
  thread that waits for approval or ran out of budget has no report path, so \<^verbatim>\<open>Path(None)\<close>
  raises \<^verbatim>\<open>TypeError\<close>.
\<close>

definition initial_state :: "ustr \<Rightarrow> ustr option \<Rightarrow> agent_state" where
  "initial_state path trace_id =
     \<lparr>st_log_path = path, st_error_log = None, st_parse_error = None, st_analysis_result = None,
      st_analysis_error = None, st_fix_script = None, st_execution_result = None,
      st_execution_error = None, st_report_text = None, st_report_path = None,
      st_error_category = None, st_fix_artifact = None, st_security_verdict = None,
      st_routing_decision = None, st_specialist = None, st_agent_trace = [],
      st_approval_required = False,
      st_trace_id = (if nonempty trace_id then trace_id else None),
      st_cost_accumulated = None, st_classifier_model = None, st_cost_exhausted = None,
      st_fix_normalization = None\<rparr>"

definition path_of_none :: exn where
  "path_of_none = TypeError (lit ''expected str, bytes or os.PathLike object, not NoneType'')"

text \<open>What \<^verbatim>\<open>run_pipeline\<close> makes of the graph's answer.\<close>

definition pipeline_outcome :: "thread \<Rightarrow> ustr result" where
  "pipeline_outcome t =
     (case th_status t of
        Failed n e \<Rightarrow> Inl e
      | _ \<Rightarrow>
          (let result = th_state t in
           if nonempty (st_parse_error result) then Inl (DiagnosticError (the (st_parse_error result)))
           else if nonempty (st_analysis_error result)
           then Inl (DiagnosticError (the (st_analysis_error result)))
           else (case st_report_path result of
                   None \<Rightarrow> Inl path_of_none
                 | Some p \<Rightarrow> Inr (path_str p))))"

definition pipeline_thread :: "host \<Rightarrow> agents \<Rightarrow> ustr \<Rightarrow> ustr option \<Rightarrow> world \<Rightarrow> thread" where
  "pipeline_thread h ag log_path trace_id w =
     graph_invoke h ag (initial_state (path_str log_path) trace_id) w"

definition run_pipeline :: "host \<Rightarrow> agents \<Rightarrow> ustr \<Rightarrow> ustr option \<Rightarrow> (world, ustr) io" where
  "run_pipeline h ag log_path trace_id = (\<lambda>w.
     if files w (path_str log_path) = None
     then (Inl (FileNotFoundError (lit ''Log file not found: '' @ path_str log_path)), w)
     else (let t = pipeline_thread h ag log_path trace_id w in (pipeline_outcome t, th_world t)))"

subsection \<open>Command line\<close>

record cli_exit =
  cli_stdout :: "ustr list"
  cli_stderr :: "ustr list"
  cli_code :: nat

text \<open>The argument parser has accepted one path; other exceptions end in a traceback.\<close>

definition cli_main :: "host \<Rightarrow> agents \<Rightarrow> ustr \<Rightarrow> (world, cli_exit) io" where
  "cli_main h ag log_path = (\<lambda>w.
     let banner = lit ''[AutoSentinel] Running diagnostic pipeline...'' in
     case run_pipeline h ag log_path None w of
       (Inr p, w') \<Rightarrow>
         (Inr \<lparr>cli_stdout = [banner, lit ''[AutoSentinel] Report written to '' @ p],
               cli_stderr = [], cli_code = 0\<rparr>, w')
     | (Inl (FileNotFoundError m), w') \<Rightarrow>
         (Inr \<lparr>cli_stdout = [banner], cli_stderr = [lit ''[AutoSentinel] Error: '' @ m],
               cli_code = 1\<rparr>, w')
     | (Inl (DiagnosticError m), w') \<Rightarrow>
         (Inr \<lparr>cli_stdout = [banner], cli_stderr = [lit ''[AutoSentinel] Pipeline error: '' @ m],
               cli_code = 1\<rparr>, w')
     | (Inl e, w') \<Rightarrow> (Inl e, w'))"

subsection \<open>Laws\<close>

lemma initial_fresh: "fresh (initial_state p tid)"
  by (simp add: fresh_def initial_state_def)

text \<open>A report path in the state means that report and sidecar are on disk.\<close>

definition filed :: "host \<Rightarrow> agent_state \<Rightarrow> world \<Rightarrow> bool" where
  "filed h s w \<longleftrightarrow>
     (\<exists>rep v. st_report_text s = Some rep \<and> st_report_path s = Some (h_resolve h (report_file s)) \<and>
        files w (report_file s) = Some rep \<and> files w (sidecar_file s) = Some (dumps (Some 2) v) \<and>
        sidecar s (path_stem (st_log_path s)) (h_resolve h (report_file s)) = Inr v)"

definition thread_filed :: "host \<Rightarrow> thread \<Rightarrow> bool" where
  "thread_filed h t \<longleftrightarrow>
     st_report_path (th_state t) = None \<or> th_status t = Finished \<and> filed h (th_state t) (th_world t)"

lemma answer_keeps_report_path:
  "node_answer n us \<Longrightarrow> n \<noteq> FormatReport \<Longrightarrow> st_report_path (merge_updates us s) = st_report_path s"
  by (induction rule: node_answer.induct) (auto simp: parse_failed_def budget_answer_def)

lemma answer_keeps_analysis:
  "st_analysis_error (merge_updates us s) = st_analysis_error s"
  by simp

lemma output_files_distinct: "report_file s \<noteq> sidecar_file s"
  by (simp add: report_file_def sidecar_file_def output_file_def)

lemma sidecar_report_keys:
  "sidecar (s\<lparr>st_report_text := x, st_report_path := y\<rparr>) stem p = sidecar s stem p" (is "sidecar ?s _ _ = _")
proof -
  have a: "analysis_dict ?s = analysis_dict s" by (simp add: analysis_dict_def)
  have "derive_summary_rest ?s = derive_summary_rest s" by (simp add: derive_summary_rest_def)
  with a have "derive_category ?s = derive_category s" "derive_summary ?s = derive_summary s"
    "derive_fix ?s = derive_fix s"
    by (simp_all add: derive_category_def derive_summary_def derive_fix_def cong: option.case_cong if_cong)
  then show ?thesis by (simp add: sidecar_def derive_severity_def)
qed

lemma filed_step:
  assumes "thread_filed h t" "th_status t = Running n"
  shows "thread_filed h (step_node h (production_agents h b) n (th_state t) (th_world t))"
proof -
  define s where "s = th_state t"
  define w where "w = th_world t"
  have none: "st_report_path s = None" using assms by (simp add: thread_filed_def s_def)
  have "thread_filed h (step_node h (production_agents h b) n s w)"
  proof (cases "n = SecurityGate")
    case True
    have "thread_filed h (follow SecurityGate us s w)" if "security_gate (None :: unit option) s = Some us" for us
      using answer_keeps_report_path [OF gate_answer [OF that], of s] none
      by (simp add: follow_def thread_filed_def)
    with True none show ?thesis by (auto simp: step_node_def thread_filed_def split: option.split)
  next
    case False
    obtain r w' where r: "run_node h (production_agents h b) n s w = (r, w')"
      by (cases "run_node h (production_agents h b) n s w")
    show ?thesis
    proof (cases r)
      case (Inl e)
      with False r none show ?thesis by (simp add: step_node_def thread_filed_def)
    next
      case (Inr us)
      show ?thesis
      proof (cases "n = FormatReport")
        case True
        with r Inr have "format_report h s w = (Inr us, w')" by simp
        from format_report_done [OF this] obtain rep v where d:
          "sidecar s (path_stem (st_log_path s)) (h_resolve h (report_file s)) = Inr v"
          "us = [UReportText rep, UReportPath (h_resolve h (report_file s))]"
          "w' = w\<lparr>files := (files w)(report_file s \<mapsto> rep, sidecar_file s \<mapsto> dumps (Some 2) v)\<rparr>"
          by blast
        have "report_file (merge_updates us s) = report_file s" "sidecar_file (merge_updates us s) = sidecar_file s"
          by (simp_all add: report_file_def sidecar_file_def)
        with d output_files_distinct [of s] sidecar_report_keys have "filed h (merge_updates us s) w'"
          by (simp add: filed_def)
        with True r Inr show ?thesis by (simp add: step_node_def follow_def thread_filed_def)
      next
        case nf: False
        with r Inr False prod.run_node_answer answer_keeps_report_path none
        have "st_report_path (merge_updates us s) = None" by metis
        with False r Inr none show ?thesis
          by (cases rule: follow_cases [of n us s w']) (simp_all add: step_node_def thread_filed_def)
      qed
    qed
  qed
  then show ?thesis by (simp add: s_def w_def)
qed

lemma invoke_filed:
  assumes "st_report_path s = None"
  shows "thread_filed h (graph_invoke h (production_agents h b) s w)"
proof -
  have "graph_reaches h (production_agents h b) t t' \<Longrightarrow> thread_filed h t \<Longrightarrow> thread_filed h t'" for t t'
    unfolding graph_reaches_def
    by (induction rule: rtranclp_induct) (auto simp: graph_step_running intro: filed_step)
  moreover have "thread_filed h (thread_at (Running Dispatch) s w)" using assms by (simp add: thread_filed_def)
  ultimately show ?thesis unfolding graph_invoke_def using graph_run_reaches by blast
qed

text \<open>No node of this graph writes the keys of the first version's analysis.\<close>

lemma invoke_no_analysis:
  fixes h ag s w defines "s' \<equiv> th_state (graph_invoke h ag s w)"
  shows "st_analysis_error s' = st_analysis_error s" "st_analysis_result s' = st_analysis_result s"
    "st_fix_script s' = st_fix_script s"
proof -
  let ?old = "\<lambda>t. (st_analysis_error (th_state t), st_analysis_result (th_state t), st_fix_script (th_state t))"
  have "graph_reaches h ag t t' \<Longrightarrow> ?old t' = ?old t" for t t'
    unfolding graph_reaches_def
  proof (induction rule: rtranclp_induct)
    case (step u v)
    then have "?old v = ?old u"
      by (auto simp: follow_def Let_def elim!: graph_step.cases split: sum.splits option.splits)
    with step show ?case by simp
  qed simp
  from this [OF graph_run_reaches]
  show "st_analysis_error s' = st_analysis_error s" "st_analysis_result s' = st_analysis_result s"
    "st_fix_script s' = st_fix_script s"
    by (simp_all add: s'_def graph_invoke_def)
qed

text \<open>A run that was not resumed gets past the gate only with a lower verdict than HIGH_RISK.\<close>

definition below_high :: "agent_state \<Rightarrow> bool" where
  "below_high s \<longleftrightarrow> st_security_verdict s \<noteq> Some (lit ''HIGH_RISK'') \<and> \<not> st_approval_required s"

definition thread_below_high :: "thread \<Rightarrow> bool" where
  "thread_below_high t \<longleftrightarrow>
     (th_status t \<in> {Running VerifierNode, Running FormatReport} \<or> st_report_path (th_state t) \<noteq> None \<longrightarrow>
      below_high (th_state t))"

lemma answer_below_high:
  assumes "node_answer n us" "n \<in> {VerifierNode, FormatReport}" "below_high s"
  shows "below_high (merge_updates us s)"
  using assms by (auto simp: below_high_def elim: node_answer_cases)

lemma follow_below_high:
  assumes "node_answer n us" "n \<noteq> SecurityGate" "st_report_path s = None"
    and "n \<in> {VerifierNode, FormatReport} \<longrightarrow> below_high s"
  shows "thread_below_high (follow n us s w)"
proof (cases "n \<in> {VerifierNode, FormatReport}")
  case True
  with assms answer_below_high have "below_high (merge_updates us s)" "below_high s" by blast+
  then show ?thesis
    by (cases rule: follow_cases [of n us s w]) (simp_all add: thread_below_high_def)
next
  case False
  then have none: "st_report_path (merge_updates us s) = None"
    using answer_keeps_report_path [OF assms(1)] assms(3) by simp
  have "m \<noteq> VerifierNode \<and> m \<noteq> FormatReport" if "next_node n (merge_updates us s) = Inr (Some m)" for m
    using that False assms(2)
    by (cases n) (auto simp: route_after_parse_def or_cost_exhausted_def route_to_specialist_def Let_def split: if_splits)
  with none assms(3) show ?thesis
    by (cases rule: follow_cases [of n us s w]) (simp_all add: thread_below_high_def)
qed

lemma step_below_high:
  assumes "graph_step h (production_agents h b) False t t'" "thread_below_high t" "thread_staged t"
  shows "thread_below_high t'"
  using assms(1)
proof cases
  case (node_answers n s w us w')
  have "st_report_path s = None" using node_answers assms(3) by (simp add: thread_staged_def stage_def)
  moreover have "n \<in> {VerifierNode, FormatReport} \<longrightarrow> below_high s"
    using node_answers assms(2) by (auto simp: thread_below_high_def)
  ultimately show ?thesis
    using node_answers prod.run_node_answer by (auto intro: follow_below_high)
next
  case (gate_passes s us w)
  then have "below_high (merge_updates us s)"
    by (auto simp: security_gate_def Let_def below_high_def split: if_splits)
  with gate_passes show ?thesis by (simp add: follow_def thread_below_high_def)
qed (use assms(2,3) in \<open>auto simp: thread_below_high_def thread_staged_def stage_def\<close>)

lemma invoke_below_high:
  assumes "fresh s"
  shows "thread_below_high (graph_invoke h (production_agents h b) s w)"
proof -
  let ?t0 = "thread_at (Running Dispatch) s w"
  have "graph_reaches h (production_agents h b) ?t0 t \<Longrightarrow> thread_below_high t \<and> thread_staged t" for t
    unfolding graph_reaches_def
  proof (induction rule: rtranclp_induct)
    case base
    with assms show ?case by (simp add: thread_below_high_def thread_staged_def stage_start) (simp add: fresh_def)
  next
    case (step u v)
    with step_below_high prod.graph_step_staged show ?case by blast
  qed
  with graph_run_reaches show ?thesis unfolding graph_invoke_def by blast
qed

text \<open>Every outcome of the pipeline, by how its thread stopped.\<close>

lemma pipeline_cases:
  fixes h :: host and b :: "string \<Rightarrow> provider \<times> agent_model_config"
  assumes "t = pipeline_thread h (production_agents h b) log_path tid w"
  obtains (completed) "th_status t = Finished" "completed (th_state t)" "filed h (th_state t) (th_world t)"
      "pipeline_outcome t = Inr (path_str (h_resolve h (report_file (th_state t))))"
  | (bad_log) "th_status t = Finished" "parse_failure (th_state t)"
      "pipeline_outcome t = Inl (DiagnosticError (the (st_parse_error (th_state t))))"
  | (budget) "th_status t = Finished" "budget_stop (th_state t)" "st_report_path (th_state t) = None"
      "pipeline_outcome t = Inl path_of_none"
  | (suspended) "th_status t = Suspended" "stage SecurityGate (th_state t)" "pipeline_outcome t = Inl path_of_none"
  | (failed) n e where "th_status t = Failed n e" "stage n (th_state t)" "pipeline_outcome t = Inl e"
proof -
  let ?s = "th_state t"
  have inv: "t = graph_invoke h (production_agents h b) (initial_state (path_str log_path) tid) w"
    using assms by (simp add: pipeline_thread_def)
  have staged: "thread_staged t" unfolding inv by (rule prod.invoke_staged [OF initial_fresh])
  have filed: "thread_filed h t"
    unfolding inv by (rule invoke_filed) (simp add: initial_state_def)
  have ana: "st_analysis_error ?s = None"
    unfolding inv by (simp add: invoke_no_analysis initial_state_def)
  have stopped: "th_status t \<noteq> Running n" for n unfolding inv by (rule invoke_stops)
  show ?thesis
  proof (cases "th_status t")
    case (Running n)
    with stopped show ?thesis by blast
  next
    case Suspended
    with staged have st: "stage SecurityGate ?s" by (simp add: thread_staged_def)
    then have "st_parse_error ?s = None" by (simp add: stage_def log_ready_def)
    with st Suspended ana filed show ?thesis
      by (intro suspended) (auto simp: pipeline_outcome_def nonempty_def thread_filed_def)
  next
    case (Failed n e)
    with staged show ?thesis by (intro failed) (auto simp: thread_staged_def pipeline_outcome_def)
  next
    case Finished
    with staged consider "parse_failure ?s" | "budget_stop ?s" "\<not> completed ?s" "\<not> parse_failure ?s"
      | "completed ?s" by (auto simp: thread_staged_def)
    then show ?thesis
    proof cases
      case 1
      with Finished show ?thesis
        by (intro bad_log) (auto simp: pipeline_outcome_def parse_failure_def Let_def)
    next
      case 3
      then have "st_parse_error ?s = None" "st_report_path ?s \<noteq> None"
        by (auto simp: completed_def stage_def log_ready_def)
      with 3 Finished filed ana show ?thesis
        by (intro completed) (auto simp: pipeline_outcome_def nonempty_def thread_filed_def filed_def)
    next
      case 2
      then have "st_parse_error ?s = None" "st_report_path ?s = None"
        by (auto simp: budget_stop_def log_ready_def)
      with 2 Finished ana show ?thesis
        by (intro budget) (auto simp: pipeline_outcome_def nonempty_def)
    qed
  qed
qed

text \<open>The keys of the state that the report and the sidecar of a completed run are made of.\<close>

lemma completed_keys:
  fixes h :: host and b :: "string \<Rightarrow> provider \<times> agent_model_config"
  assumes "t = pipeline_thread h (production_agents h b) log_path tid w" "completed (th_state t)"
  obtains cat ra art v where
    "st_error_category (th_state t) = Some cat" "cat \<in> set valid_categories"
    "st_routing_decision (th_state t) = Some ra" "ra \<noteq> []"
    "st_fix_artifact (th_state t) = Some art"
    "st_security_verdict (th_state t) = Some v" "v = lit ''SAFE'' \<or> v = lit ''CAUTION''"
    "\<not> st_approval_required (th_state t)"
    "st_analysis_result (th_state t) = None" "st_fix_script (th_state t) = None"
proof -
  have inv: "t = graph_invoke h (production_agents h b) (initial_state (path_str log_path) tid) w"
    using assms by (simp add: pipeline_thread_def)
  have "thread_below_high t" unfolding inv by (rule invoke_below_high [OF initial_fresh])
  with assms(2) have low: "below_high (th_state t)" by (simp add: thread_below_high_def completed_def)
  have "st_analysis_result (th_state t) = None" "st_fix_script (th_state t) = None"
    unfolding inv by (simp_all add: invoke_no_analysis initial_state_def)
  with assms(2) low that show ?thesis
    by (auto simp: completed_def stage_def below_high_def valid_verdicts_def nonempty_def split: option.splits)
qed

end
