(* ===== verification/Results.thy ===== *)
theory Results
  imports Checkpoints Pipeline "HOL-Library.Multiset" "HOL-Library.List_Lexorder" "HOL-Library.Product_Lexorder"
begin

text \<open>
  \<^verbatim>\<open>autosentinel/api/results.py\<close>: the sidecar files of the gateway and the search over them.
  A directory listing is a parameter (\<open>listing\<close>, the names in \<^verbatim>\<open>output/\<close> in any order).

  The laws: a sidecar this module wrote reads back as the object it was written from; the
  search never changes the files, answers at most the clamped number of incidents, in order of
  falling score and rising id, and only incidents that contain a term; entries that cannot be
  read or decoded do not count.
\<close>

subsection \<open>Paths\<close>

text \<open>\<^verbatim>\<open>Path(a) / b\<close>: an absolute right operand replaces the left one.\<close>

definition path_join :: "ustr \<Rightarrow> ustr \<Rightarrow> ustr" where
  "path_join a b = path_str (if b \<noteq> [] \<and> hd b = slash then b else a @ [slash] @ b)"

definition output_dir :: ustr where "output_dir = lit ''output''"
definition incoming_dir :: ustr where "incoming_dir = lit ''data/incoming''"
definition result_suffix :: ustr where "result_suffix = lit ''-result.json''"

definition result_path :: "ustr \<Rightarrow> ustr" where
  "result_path job_id = path_join output_dir (job_id @ result_suffix)"

definition incoming_path :: "ustr \<Rightarrow> ustr" where
  "incoming_path job_id = path_join incoming_dir (job_id @ lit ''.json'')"

subsection \<open>Reading and writing sidecars\<close>

definition loads_text :: "host \<Rightarrow> ustr \<Rightarrow> json result" where
  "loads_text h raw = (case loads raw of None \<Rightarrow> Inl (JSONDecodeError (h_json_error h raw)) | Some v \<Rightarrow> Inr v)"

definition read_json :: "host \<Rightarrow> ustr \<Rightarrow> (world, json) io" where
  "read_json h path = io_bind (read_text h path) (\<lambda>raw. io_lift (loads_text h raw))"

text \<open>The answer is \<open>JNull\<close>, Python's \<^verbatim>\<open>None\<close>, when the file is absent and when it holds \<^verbatim>\<open>null\<close>.\<close>

definition load_result :: "host \<Rightarrow> ustr \<Rightarrow> (world, json) io" where
  "load_result h job_id = (\<lambda>w.
     if files w (result_path job_id) = None then (Inr JNull, w)
     else read_json h (result_path job_id) w)"

definition or_text :: "ustr \<Rightarrow> ustr \<Rightarrow> ustr" where
  "or_text a b = (if a = [] then b else a)"

definition failed_payload :: "ustr \<Rightarrow> ustr \<Rightarrow> ustr \<Rightarrow> ustr \<Rightarrow> json" where
  "failed_payload job_id trace_id service_name error =
     JObj [(lit ''trace_id'', JStr (or_text trace_id job_id)),
           (lit ''status'', JStr (lit ''failed'')),
           (lit ''diagnosis'', JNull), (lit ''fix'', JNull),
           (lit ''service_name'', JStr service_name),
           (lit ''error_type'', JNull), (lit ''error'', JStr error)]"

text \<open>The subclasses of \<^verbatim>\<open>OSError\<close> among the exceptions told apart here.\<close>

definition is_os_error :: "exn \<Rightarrow> bool" where
  "is_os_error e =
     (case e of FileNotFoundError _ \<Rightarrow> True | OSError _ \<Rightarrow> True | ReadTimeout _ \<Rightarrow> True | _ \<Rightarrow> False)"

definition write_failed_result :: "host \<Rightarrow> ustr \<Rightarrow> ustr \<Rightarrow> ustr \<Rightarrow> ustr \<Rightarrow> (world, unit) io" where
  "write_failed_result h job_id trace_id service_name error =
     io_catch
       (io_bind (host_step (h_mkdir h output_dir)) (\<lambda>_.
          write_text h (result_path job_id)
            (dumps (Some 2) (failed_payload job_id trace_id service_name error))))
       (\<lambda>e. if is_os_error e then Some (io_return ()) else None)"

subsection \<open>Search\<close>

record incident =
  inc_id :: ustr
  inc_title :: ustr
  inc_resolution :: ustr

text \<open>\<^verbatim>\<open>v or {}\<close> and \<^verbatim>\<open>str(v or "")\<close>.\<close>

definition or_dict :: "json \<Rightarrow> json" where
  "or_dict v = (if truthy v then v else JObj [])"

definition or_str :: "json \<Rightarrow> ustr" where
  "or_str v = (if truthy v then py_str v else [])"

definition get_str :: "json \<Rightarrow> string \<Rightarrow> ustr result" where
  "get_str v k = res_bind (jget v (lit k) JNull) (\<lambda>x. Inr (or_str x))"

text \<open>The four fields of a sidecar that are searched, in order.\<close>

definition sidecar_fields :: "json \<Rightarrow> (ustr \<times> ustr \<times> ustr \<times> ustr) result" where
  "sidecar_fields data =
     res_bind (jget data (lit ''diagnosis'') JNull) (\<lambda>diagnosis.
     res_bind (jget data (lit ''fix'') JNull) (\<lambda>repair.
     res_bind (get_str data ''error_type'') (\<lambda>error_type.
     res_bind (get_str data ''service_name'') (\<lambda>service_name.
     res_bind (get_str (or_dict diagnosis) ''summary'') (\<lambda>summary.
     res_bind (get_str (or_dict repair) ''fix_plan'') (\<lambda>fix_plan.
       Inr (error_type, service_name, summary, fix_plan)))))))"

definition incoming_fields :: "host \<Rightarrow> ustr \<Rightarrow> (world, ustr list) io" where
  "incoming_fields h job_id = (\<lambda>w.
     if files w (incoming_path job_id) = None then (Inr [], w)
     else io_bind (read_json h (incoming_path job_id)) (\<lambda>payload.
            io_lift (res_bind (get_str payload ''message'') (\<lambda>m.
              res_bind (get_str payload ''stack_trace'') (\<lambda>st. Inr [m, st])))) w)"

definition score :: "ustr list \<Rightarrow> ustr list \<Rightarrow> nat" where
  "score terms haystack =
     length (filter (\<lambda>(t, f). in_text t (lower f)) (List.product terms haystack))"

definition title_of :: "ustr \<Rightarrow> ustr \<Rightarrow> ustr \<Rightarrow> ustr \<Rightarrow> ustr" where
  "title_of job_id error_type service_name summary =
     (if error_type \<noteq> [] \<and> service_name \<noteq> [] then error_type @ lit '' in '' @ service_name
      else if summary \<noteq> [] then take 80 summary
      else job_id)"

definition score_sidecar ::
  "host \<Rightarrow> ustr list \<Rightarrow> ustr \<Rightarrow> json \<Rightarrow> (world, (nat \<times> incident) option) io" where
  "score_sidecar h terms job_id data =
     io_bind (io_lift (sidecar_fields data)) (\<lambda>(error_type, service_name, summary, fix_plan).
     io_bind (incoming_fields h job_id) (\<lambda>more.
       let n = score terms ([error_type, service_name, summary, fix_plan] @ more) in
       if n = 0 then io_return None
       else io_lift (res_bind (get_str data ''trace_id'') (\<lambda>tid. Inr (Some
              (n, \<lparr>inc_id = or_text tid job_id,
                   inc_title = title_of job_id error_type service_name summary,
                   inc_resolution = or_text fix_plan summary\<rparr>))))))"

definition job_of_name :: "ustr \<Rightarrow> ustr" where
  "job_of_name name = take (length name - length result_suffix) name"

text \<open>One file of the corpus; \<^verbatim>\<open>OSError\<close> and \<^verbatim>\<open>JSONDecodeError\<close> skip it.\<close>

definition score_entry :: "host \<Rightarrow> ustr list \<Rightarrow> ustr \<Rightarrow> (world, (nat \<times> incident) option) io" where
  "score_entry h terms name = (\<lambda>w.
     case read_json h (path_join output_dir name) w of
       (Inl e, w') \<Rightarrow>
         if is_os_error e \<or> (\<exists>m. e = JSONDecodeError m) then (Inr None, w') else (Inl e, w')
     | (Inr data, w') \<Rightarrow> score_sidecar h terms (job_of_name name) data w')"

fun score_entries :: "host \<Rightarrow> ustr list \<Rightarrow> ustr list \<Rightarrow> (world, (nat \<times> incident) list) io" where
  "score_entries h terms [] = io_return []"
| "score_entries h terms (name # names) =
     io_bind (score_entry h terms name) (\<lambda>x.
     io_bind (score_entries h terms names) (\<lambda>xs.
       io_return (case x of None \<Rightarrow> xs | Some y \<Rightarrow> y # xs)))"

definition rank :: "nat \<times> incident \<Rightarrow> int \<times> ustr" where
  "rank = (\<lambda>(n, i). (- int n, inc_id i))"

definition clamp_limit :: "int \<Rightarrow> nat" where
  "clamp_limit limit = nat (max 1 (min 50 limit))"

definition corpus :: "(world \<Rightarrow> ustr list) \<Rightarrow> world \<Rightarrow> ustr list" where
  "corpus listing w = sort (filter (suffix result_suffix) (listing w))"

definition search_incidents ::
  "host \<Rightarrow> (world \<Rightarrow> ustr list) \<Rightarrow> ustr \<Rightarrow> int \<Rightarrow> (world, incident list) io" where
  "search_incidents h listing q limit = (\<lambda>w.
     io_bind (score_entries h (split_ws (lower q)) (corpus listing w)) (\<lambda>scored.
       io_return (map snd (take (clamp_limit limit) (sort_key rank scored)))) w)"

subsection \<open>Laws of the paths\<close>

lemma path_str_two:
  assumes "d \<noteq> []" "hd d \<noteq> slash" "split_at slash d = ds" "\<forall>p \<in> set ds. p \<noteq> [] \<and> p \<noteq> [dot]"
    "join [slash] ds = d" "ds \<noteq> []" "slash \<notin> set n" "n \<noteq> []" "n \<noteq> [dot]"
  shows "path_str (d @ slash # n) = d @ slash # n"
proof -
  have root: "path_root (d @ slash # n) = []"
    using assms(1,2) by (cases d) (simp_all add: path_root_def)
  have parts: "path_parts (d @ slash # n) = ds @ [n]"
    using assms(3,4,7,8,9) by (simp add: path_parts_def split_at_append split_at_no_sep filter_id_conv)
  have snoc: "join [slash] (es @ [n]) = join [slash] es @ slash # n" if "es \<noteq> []" for es
    using that
  proof (induction es)
    case (Cons x es)
    then show ?case by (cases es) simp_all
  qed simp
  with root parts assms show ?thesis by (simp add: path_str_def Let_def)
qed

lemma output_dir_path:
  assumes "slash \<notin> set n" "n \<noteq> []" "n \<noteq> [dot]"
  shows "path_join output_dir n = output_dir @ slash # n"
proof -
  have "path_str (output_dir @ slash # n) = output_dir @ slash # n"
    using assms by (intro path_str_two [where ds = "[output_dir]"])
      (auto simp: output_dir_def text_simps slash_def dot_def)
  moreover have "hd n \<noteq> slash" using assms by (cases n) auto
  ultimately show ?thesis by (simp add: path_join_def)
qed

lemma result_path_eq:
  assumes "slash \<notin> set job_id"
  shows "result_path job_id = output_file job_id ''-result.json''"
proof -
  have "slash \<notin> set (job_id @ result_suffix)" "job_id @ result_suffix \<noteq> []" "job_id @ result_suffix \<noteq> [dot]"
    using assms by (auto simp: result_suffix_def text_simps slash_def append_eq_Cons_conv)
  then have "result_path job_id = output_dir @ slash # job_id @ result_suffix"
    unfolding result_path_def by (rule output_dir_path)
  then show ?thesis by (simp add: result_suffix_def output_dir_def output_file_def text_simps slash_def)
qed

lemma incoming_dir_path:
  assumes "slash \<notin> set n" "n \<noteq> []" "n \<noteq> [dot]"
  shows "path_join incoming_dir n = incoming_dir @ slash # n" (is ?eq)
    and "path_str (path_join incoming_dir n) = path_join incoming_dir n"
proof -
  have str: "path_str (incoming_dir @ slash # n) = incoming_dir @ slash # n"
    using assms by (intro path_str_two [where ds = "[lit ''data'', lit ''incoming'']"])
      (auto simp: incoming_dir_def text_simps slash_def dot_def)
  moreover have "hd n \<noteq> slash" using assms by (cases n) auto
  ultimately show ?eq by (simp add: path_join_def)
  with str show "path_str (path_join incoming_dir n) = path_join incoming_dir n" by simp
qed

lemma incoming_path_eq:
  assumes "slash \<notin> set job_id"
  shows "incoming_path job_id = incoming_dir @ slash # job_id @ lit ''.json''"
    and "path_str (incoming_path job_id) = incoming_path job_id"
proof -
  have "slash \<notin> set (job_id @ lit ''.json'')" "job_id @ lit ''.json'' \<noteq> []" "job_id @ lit ''.json'' \<noteq> [dot]"
    using assms by (auto simp: text_simps slash_def append_eq_Cons_conv)
  from incoming_dir_path [OF this]
  show "incoming_path job_id = incoming_dir @ slash # job_id @ lit ''.json''"
    and "path_str (incoming_path job_id) = incoming_path job_id"
    by (simp_all add: incoming_path_def)
qed

text \<open>The pipeline names its sidecar after the log, and the log after the job.\<close>

lemma stem_of_incoming:
  assumes "slash \<notin> set job_id" "job_id \<noteq> []"
  shows "path_stem (incoming_path job_id) = job_id"
proof -
  have "path_stem (incoming_dir @ slash # job_id @ dot # lit ''json'') = job_id"
    using assms by (intro path_stem_of_file) (auto simp: text_simps slash_def dot_def)
  with assms show ?thesis by (simp add: incoming_path_eq text_simps dot_def)
qed

subsection \<open>Laws of the store\<close>

lemma written_json_reads:
  assumes "files w p = Some (dumps ind v)" "json_ok v" "h_read h p w = None"
  shows "read_json h p w = (Inr v, w)"
proof -
  have "13 \<notin> set (dumps ind v)"
    using dumps_plain [OF assms(2), of ind] unfolding dump_plain_def by fastforce
  with assms have "read_text h p w = (Inr (dumps ind v), w)"
    by (simp add: read_text_def universal_newlines_id)
  with loads_dumps [OF assms(2)] show ?thesis by (simp add: read_json_def loads_text_def)
qed

lemma read_json_frame: "snd (read_json h p w) = w"
  using read_text_frame [of h p w]
  by (cases "read_text h p w"; cases "fst (read_text h p w)") (auto simp: read_json_def io_bind_def)

lemma failed_payload_ok:
  "text_ok job_id \<Longrightarrow> text_ok trace_id \<Longrightarrow> text_ok service_name \<Longrightarrow> text_ok error \<Longrightarrow>
   json_ok (failed_payload job_id trace_id service_name error)"
  by (auto simp: failed_payload_def or_text_def text_ok_lit intro!: json_ok.intros)

lemma failed_payload_plain:
  "c \<in> set (dumps (Some 2) (failed_payload job_id trace_id service_name error)) \<Longrightarrow> c < 127"
proof -
  have "dump_plain (dumps (Some 2) (failed_payload job_id trace_id service_name error))"
    by (simp add: dumps_def failed_payload_def dump_plain_leads dump_plain_str dump_plain_lit text_simps
        del: item_lead.simps comma_lead.simps)
  then show "c \<in> set (dumps (Some 2) (failed_payload job_id trace_id service_name error)) \<Longrightarrow> c < 127"
    unfolding dump_plain_def by fastforce
qed

text \<open>Whatever goes wrong on the file system, the writer only touches its own file.\<close>

lemma write_failed_cases:
  assumes "write_failed_result h job_id trace_id service_name error w = (r, w')"
  obtains (written) "r = Inr ()"
      "w' = w\<lparr>files := (files w)(result_path job_id \<mapsto>
         dumps (Some 2) (failed_payload job_id trace_id service_name error))\<rparr>"
  | (swallowed) "r = Inr ()" "w' = w"
  | (raised) e where "r = Inl e" "\<not> is_os_error e" "w' = w"
proof -
  let ?m = "io_bind (host_step (h_mkdir h output_dir)) (\<lambda>_.
          write_text h (result_path job_id)
            (dumps (Some 2) (failed_payload job_id trace_id service_name error)))"
  have ascii: "\<not> (\<exists>c \<in> set (dumps (Some 2) (failed_payload job_id trace_id service_name error)).
      55296 \<le> c \<and> c \<le> 57343)"
    (is "\<not> (\<exists>c \<in> set ?t. _)")
  proof
    assume "\<exists>c \<in> set ?t. 55296 \<le> c \<and> c \<le> 57343"
    then obtain c where "c \<in> set ?t" "55296 \<le> c" by blast
    with failed_payload_plain [of c] show False by simp
  qed
  obtain r0 w0 where m: "?m w = (r0, w0)" by (cases "?m w")
  then have "(\<exists>e. r0 = Inl e \<and> w0 = w) \<or> r0 = Inr () \<and> w0 = w\<lparr>files := (files w)(result_path job_id \<mapsto>
         dumps (Some 2) (failed_payload job_id trace_id service_name error))\<rparr>"
    using ascii
    by (auto simp: host_step_def write_text_def elim!: io_bind_cases split: option.splits if_splits)
  then show ?thesis
  proof
    assume "\<exists>e. r0 = Inl e \<and> w0 = w"
    then obtain e where "r0 = Inl e" "w0 = w" by blast
    with m assms show ?thesis
      by (cases "is_os_error e") (auto simp: write_failed_result_def intro: swallowed raised)
  qed (use m assms in \<open>auto simp: write_failed_result_def intro: written\<close>)
qed

subsection \<open>Laws of the search\<close>

lemma score_entry_frame: "snd (score_entry h terms name w) = w"
proof -
  have inc: "snd (incoming_fields h j w) = w" for j
    using read_json_frame [of h "incoming_path j" w]
    by (cases "read_json h (incoming_path j) w")
      (auto simp: incoming_fields_def io_bind_def split: sum.splits)
  have sc: "snd (score_sidecar h terms j data w) = w" for j data
    using inc [of j]
    by (cases "incoming_fields h j w")
      (auto simp: score_sidecar_def io_bind_def Let_def split: sum.splits prod.splits)
  show ?thesis
    using read_json_frame [of h "path_join output_dir name" w] sc
    by (cases "read_json h (path_join output_dir name) w") (auto simp: score_entry_def split: sum.splits)
qed

text \<open>The entries with a hit, as the pure function of the files they are.\<close>

definition hit :: "host \<Rightarrow> ustr list \<Rightarrow> world \<Rightarrow> ustr \<Rightarrow> (nat \<times> incident) option" where
  "hit h terms w name = (case fst (score_entry h terms name w) of Inl e \<Rightarrow> None | Inr x \<Rightarrow> x)"

lemma score_entries_cases:
  obtains (raised) e name where "score_entries h terms names w = (Inl e, w)" "name \<in> set names"
      "fst (score_entry h terms name w) = Inl e"
  | (scored) "score_entries h terms names w = (Inr (List.map_filter (hit h terms w) names), w)"
      "\<forall>name \<in> set names. \<exists>x. fst (score_entry h terms name w) = Inr x"
proof (induction names arbitrary: thesis)
  case Nil
  show ?case by (rule Nil(2)) (simp_all add: List.map_filter_simps)
next
  case (Cons n names)
  have e: "score_entry h terms n w = (fst (score_entry h terms n w), w)"
    using score_entry_frame [of h terms n w] by (metis prod.collapse)
  show ?case
  proof (cases "fst (score_entry h terms n w)")
    case (Inl x)
    with e show ?thesis by (intro Cons.prems(1) [of x n]) auto
  next
    case (Inr x)
    with e have e': "score_entry h terms n w = (Inr x, w)" by simp
    show ?thesis
    proof (rule Cons.IH)
      fix e name assume "score_entries h terms names w = (Inl e, w)" "name \<in> set names"
        "fst (score_entry h terms name w) = Inl e"
      with e' show ?thesis by (intro Cons.prems(1) [of e name]) auto
    next
      assume "score_entries h terms names w = (Inr (List.map_filter (hit h terms w) names), w)"
        "\<forall>name \<in> set names. \<exists>x. fst (score_entry h terms name w) = Inr x"
      moreover have "hit h terms w n = x" using e' by (simp add: hit_def)
      ultimately show ?thesis
        using e' by (intro Cons.prems(2)) (auto simp: List.map_filter_simps split: option.splits)
    qed
  qed
qed

lemma hit_positive: "hit h terms w name = Some (n, i) \<Longrightarrow> 0 < n"
  by (auto simp: hit_def score_entry_def score_sidecar_def io_bind_def io_return_def io_lift_def res_bind_def Let_def
      split: prod.splits sum.splits if_splits)

lemma clamp_bounds: "1 \<le> clamp_limit l \<and> clamp_limit l \<le> 50"
  by (auto simp: clamp_limit_def)

text \<open>An answer is the best part of the entries with a hit, in order.\<close>

lemma search_answer:
  assumes "search_incidents h listing q limit w = (Inr res, w')"
  shows "w' = w \<and> (\<exists>ranked. mset ranked = mset (List.map_filter (hit h (split_ws (lower q)) w) (corpus listing w)) \<and>
     sorted (map rank ranked) \<and> list_all (\<lambda>(n, i). 0 < n) ranked \<and>
     res = map snd (take (clamp_limit limit) ranked))"
proof -
  let ?hits = "List.map_filter (hit h (split_ws (lower q)) w) (corpus listing w)"
  have "w' = w \<and> res = map snd (take (clamp_limit limit) (sort_key rank ?hits))"
    using assms
    by (cases rule: score_entries_cases [of h "split_ws (lower q)" "corpus listing w" w])
      (auto simp: search_incidents_def)
  moreover have "list_all (\<lambda>(n, i). 0 < n) (sort_key rank ?hits)"
    using hit_positive by (fastforce simp: list_all_iff List.map_filter_def)
  ultimately show ?thesis by (intro conjI exI [of _ "sort_key rank ?hits"]) auto
qed

lemma search_frame: "snd (search_incidents h listing q limit w) = w"
  by (cases rule: score_entries_cases [of h "split_ws (lower q)" "corpus listing w" w])
    (auto simp: search_incidents_def)

text \<open>A stored file that decodes to anything but an object breaks every search.\<close>

lemma search_broken:
  assumes "name \<in> set (listing w)" "suffix result_suffix name"
    "read_json h (path_join output_dir name) w = (Inr v, w)" "\<And>kvs. v \<noteq> JObj kvs"
  shows "\<exists>e. search_incidents h listing q limit w = (Inl e, w)"
proof -
  have "\<exists>e. fst (score_entry h terms name w) = Inl e" for terms
  proof (cases v)
    case (JObj kvs)
    with assms(4) show ?thesis by blast
  qed (use assms(3) in \<open>simp_all add: score_entry_def score_sidecar_def sidecar_fields_def\<close>)
  moreover have "name \<in> set (corpus listing w)" using assms(1,2) by (simp add: corpus_def)
  ultimately have "\<not> (\<forall>name \<in> set (corpus listing w). \<exists>x. fst (score_entry h (split_ws (lower q)) name w) = Inr x)"
    by (metis Inl_Inr_False)
  then show ?thesis
    by (cases rule: score_entries_cases [of h "split_ws (lower q)" "corpus listing w" w])
      (auto simp: search_incidents_def)
qed

end
