(* ===== verification/GatewayLog.thy ===== *)
theory GatewayLog
  imports PyJsonLaws
begin

text \<open>
  \<^verbatim>\<open>autosentinel/api/logging.py\<close>: structured log lines and the registry of loggers.  A log
  record carries the attributes that were passed as \<^verbatim>\<open>extra\<close>; missing ones take the formatter's
  defaults.

  The laws: every formatted record is one line, and reads back as the object it stands for;
  asking for a logger twice configures it once.
\<close>

record log_record =
  lr_level :: ustr
  lr_name :: ustr
  lr_message :: ustr
  lr_correlation :: "json option"
  lr_trace :: "json option"
  lr_event :: "json option"
  lr_payload :: "json option"

text \<open>\<^verbatim>\<open>s.replace(old, "", 1)\<close> for a non-empty \<^verbatim>\<open>old\<close>.\<close>

fun remove_first :: "ustr \<Rightarrow> ustr \<Rightarrow> ustr" where
  "remove_first pat [] = []"
| "remove_first pat (c # s) =
     (if prefix pat (c # s) then drop (length pat) (c # s) else c # remove_first pat s)"

definition logger_prefix :: ustr where
  "logger_prefix = lit ''autosentinel.''"

definition log_object :: "ustr \<Rightarrow> log_record \<Rightarrow> json" where
  "log_object now r =
     JObj [(lit ''timestamp'', JStr now),
           (lit ''severity'', JStr (lr_level r)),
           (lit ''component'', JStr (remove_first logger_prefix (lr_name r))),
           (lit ''correlation_id'', or_else (lr_correlation r) (JStr [])),
           (lit ''trace_id'', or_else (lr_trace r) (JStr [])),
           (lit ''event'', or_else (lr_event r) (JStr (lr_message r))),
           (lit ''event_payload'', or_else (lr_payload r) (JObj []))]"

definition format_record :: "ustr \<Rightarrow> log_record \<Rightarrow> ustr" where
  "format_record now r = dumps None (log_object now r)"

subsection \<open>Loggers\<close>

record logger =
  lg_handlers :: "ustr list"  \<comment> \<open>formatter of each attached handler\<close>
  lg_level :: ustr
  lg_propagate :: bool

type_synonym registry = "(ustr \<times> logger) list"

definition fresh_logger :: logger where
  "fresh_logger = \<lparr>lg_handlers = [], lg_level = lit ''NOTSET'', lg_propagate = True\<rparr>"

definition get_logger :: "ustr \<Rightarrow> registry \<Rightarrow> logger \<times> registry" where
  "get_logger component reg =
     (let name = logger_prefix @ component;
          logger = or_else (map_of reg name) fresh_logger;
          logger' = (if lg_handlers logger = []
                     then logger\<lparr>lg_handlers := [lit ''JSONFormatter''], lg_level := lit ''DEBUG'',
                                 lg_propagate := False\<rparr>
                     else logger)
      in (logger', dict_set name logger' reg))"

subsection \<open>Laws\<close>

definition record_ok :: "log_record \<Rightarrow> bool" where
  "record_ok r \<longleftrightarrow>
     text_ok (lr_level r) \<and> text_ok (lr_name r) \<and> text_ok (lr_message r) \<and>
     (\<forall>x \<in> set [lr_correlation r, lr_trace r, lr_event r, lr_payload r]. \<forall>v. x = Some v \<longrightarrow> json_ok v)"

lemma set_remove_first: "set (remove_first pat s) \<subseteq> set s"
  by (induction s) (auto dest: in_set_dropD)

lemma remove_first_prefix: "pat \<noteq> [] \<Longrightarrow> remove_first pat (pat @ s) = s"
  by (cases pat) auto

lemma text_ok_literal: "text_ok (lit t)"
  using set_lit_less [of _ t] by (fastforce simp: text_ok_def is_high_def is_low_def)

lemma log_object_ok:
  assumes "record_ok r" "text_ok now"
  shows "json_ok (log_object now r)"
proof -
  have ok: "json_ok (or_else x d)"
    if "x \<in> set [lr_correlation r, lr_trace r, lr_event r, lr_payload r]" "json_ok d" for x d
    using assms(1) that by (cases x) (auto simp: record_ok_def)
  have "text_ok (remove_first logger_prefix (lr_name r))"
    using assms(1) set_remove_first [of logger_prefix "lr_name r"] by (auto simp: record_ok_def text_ok_def)
  moreover have "json_ok (or_else (lr_correlation r) (JStr []))" "json_ok (or_else (lr_trace r) (JStr []))"
    "json_ok (or_else (lr_event r) (JStr (lr_message r)))" "json_ok (or_else (lr_payload r) (JObj []))"
    using assms(1) by (auto intro!: ok json_ok.intros simp: record_ok_def text_ok_def)
  ultimately show ?thesis
    using assms unfolding log_object_def record_ok_def
    by (intro json_ok.intros) (auto simp: text_ok_literal intro!: json_ok.intros)
qed

text \<open>Without indentation a line holds no line break, and parses to the record's object.\<close>

lemma compact_one_line:
  "json_ok v \<Longrightarrow> 10 \<notin> set (dump None lvl v)"
  "\<forall>x \<in> set xs. json_ok x \<Longrightarrow> 10 \<notin> set (dump_elems None lvl xs)"
  "\<forall>(k, x) \<in> set kvs. json_ok x \<Longrightarrow> 10 \<notin> set (dump_members None lvl kvs)"
proof -
  have esc: "10 \<notin> set (esc_u n)" for n
  proof -
    have "d < 16 \<Longrightarrow> hex_digit d \<noteq> 10" for d by (auto simp: hex_digit_def)
    then have "hex_digit (x mod 16) \<noteq> 10" for x by simp
    then show ?thesis by (simp add: esc_u_def)
  qed
  have "10 \<notin> set (dump_char c)" for c
    using esc by (simp add: dump_char_def)
  then have str: "10 \<notin> set (dump_str s)" for s by (simp add: dump_str_def)
  have "10 \<notin> set (show_nat n)" for n by (auto dest: show_nat_digits simp: is_digit_def)
  then have int: "10 \<notin> set (show_int i)" for i by (simp add: show_int_def text_simps)
  show "json_ok v \<Longrightarrow> 10 \<notin> set (dump None lvl v)"
    "\<forall>x \<in> set xs. json_ok x \<Longrightarrow> 10 \<notin> set (dump_elems None lvl xs)"
    "\<forall>(k, x) \<in> set kvs. json_ok x \<Longrightarrow> 10 \<notin> set (dump_members None lvl kvs)"
  proof (induction "None :: nat option" lvl v and "None :: nat option" lvl xs
      and "None :: nat option" lvl kvs rule: dump_dump_elems_dump_members.induct)
    case (4 lvl x)
    then show ?case by (auto elim: json_ok.cases)
  next
    case (6 lvl xs)
    then show ?case by (auto simp: text_simps elim: json_ok.cases)
  next
    case (7 lvl kvs)
    have "\<forall>(k, x) \<in> set kvs. json_ok x" using 7(2) by (auto elim: json_ok.cases)
    then show ?case using 7(1) by (simp add: text_simps)
  qed (auto simp: text_simps str int)
qed

lemma format_record_line:
  assumes "record_ok r" "text_ok now"
  shows "10 \<notin> set (format_record now r)" "loads (format_record now r) = Some (log_object now r)"
  using log_object_ok [OF assms] by (simp_all add: format_record_def dumps_def compact_one_line
      loads_dumps [unfolded dumps_def])

lemma get_logger_once:
  "get_logger c (snd (get_logger c reg)) = get_logger c reg"
proof -
  have "dict_set k v (dict_set k v d) = dict_set k v d" for k :: ustr and v :: logger and d
    by (induction d) auto
  then show ?thesis by (auto simp: get_logger_def Let_def)
qed

end
