(* ===== verification/Queue.thy ===== *)
theory Queue
  imports Results GatewayLog
begin

text \<open>
  \<^verbatim>\<open>autosentinel/api/queue.py\<close>: the job queue and the worker that runs the pipeline for each
  job.  \<^verbatim>\<open>asyncio.Queue\<close> counts unfinished tasks beside its items; what the worker relies on is
  the locale \<open>task_queue\<close>, interpreted on it as \<open>aq\<close>.

  The laws: the queue is first-in first-out and a served job is accounted for exactly once, so
  \<^verbatim>\<open>task_done\<close> never raises; the worker survives every job as long as the file system only
  raises \<^verbatim>\<open>OSError\<close>, and works the queue off.
\<close>

subsection \<open>\<^verbatim>\<open>asyncio.Queue\<close>\<close>

record 'a async_queue =
  q_items :: "'a list"
  q_unfinished :: nat

definition q_empty :: "'a async_queue" where
  "q_empty = \<lparr>q_items = [], q_unfinished = 0\<rparr>"

definition q_put :: "'a \<Rightarrow> 'a async_queue \<Rightarrow> 'a async_queue" where
  "q_put x q = q\<lparr>q_items := q_items q @ [x], q_unfinished := q_unfinished q + 1\<rparr>"

text \<open>\<open>None\<close>: the caller waits.\<close>

definition q_get :: "'a async_queue \<Rightarrow> ('a \<times> 'a async_queue) option" where
  "q_get q = (case q_items q of [] \<Rightarrow> None | x # xs \<Rightarrow> Some (x, q\<lparr>q_items := xs\<rparr>))"

definition q_task_done :: "'a async_queue \<Rightarrow> 'a async_queue result" where
  "q_task_done q =
     (if q_unfinished q = 0 then Inl (ValueError (lit ''task_done() called too many times''))
      else Inr (q\<lparr>q_unfinished := q_unfinished q - 1\<rparr>))"

text \<open>What a producer and a consumer that marks each job done rely on.\<close>

locale task_queue =
  fixes empty :: 'q
    and put :: "'a \<Rightarrow> 'q \<Rightarrow> 'q"
    and get :: "'q \<Rightarrow> ('a \<times> 'q) option"
    and finish :: "'q \<Rightarrow> 'q result"
    and contents :: "'q \<Rightarrow> 'a list"
    and unfinished :: "'q \<Rightarrow> nat"
  assumes contents_empty: "contents empty = []"
    and unfinished_empty: "unfinished empty = 0"
    and contents_put: "contents (put x q) = contents q @ [x]"
    and unfinished_put: "unfinished (put x q) = Suc (unfinished q)"
    and get_empty: "contents q = [] \<Longrightarrow> get q = None"
    and get_first: "contents q = x # xs \<Longrightarrow>
      \<exists>q'. get q = Some (x, q') \<and> contents q' = xs \<and> unfinished q' = unfinished q"
    and finish_one: "unfinished q = Suc n \<Longrightarrow>
      \<exists>q'. finish q = Inr q' \<and> contents q' = contents q \<and> unfinished q' = n"
begin

text \<open>Between two jobs exactly the waiting ones are unfinished.\<close>

lemma balanced_empty: "unfinished empty = length (contents empty)"
  by (simp add: contents_empty unfinished_empty)

lemma balanced_put: "unfinished q = length (contents q) \<Longrightarrow>
    unfinished (put x q) = length (contents (put x q))"
  by (simp add: contents_put unfinished_put)

lemma serve_one:
  assumes "unfinished q = length (contents q)" "contents q = x # xs"
  obtains q1 q2 where "get q = Some (x, q1)" "finish q1 = Inr q2" "contents q2 = xs"
    "unfinished q2 = length (contents q2)"
proof -
  obtain q1 where q1: "get q = Some (x, q1)" "contents q1 = xs" "unfinished q1 = Suc (length xs)"
    using get_first [OF assms(2)] assms by auto
  with finish_one [OF q1(3)] show ?thesis using that by auto
qed

lemma put_keeps_order: "contents (put y (put x q)) = contents q @ [x, y]"
  by (simp add: contents_put)

end

interpretation aq: task_queue q_empty q_put q_get q_task_done q_items q_unfinished
  by unfold_locales (auto simp: q_empty_def q_put_def q_get_def q_task_done_def)

subsection \<open>The pipeline in the gateway's process\<close>

record deployment =
  dp_host :: host
  dp_pg :: pg_host
  dp_built :: "string \<Rightarrow> provider \<times> agent_model_config"
  dp_uuid :: "process \<Rightarrow> ustr"
  dp_idle :: "json \<Rightarrow> checkpoint option \<Rightarrow> world \<Rightarrow> thread"
  dp_listing :: "world \<Rightarrow> ustr list"

text \<open>\<^verbatim>\<open>run_pipeline\<close> with the graph it builds and the checkpointer that graph writes to.\<close>

definition run_on :: "deployment \<Rightarrow> ustr \<Rightarrow> ustr option \<Rightarrow> (process, ustr) io" where
  "run_on d log_path trace_id = (\<lambda>p.
     if files (pr_world p) (path_str log_path) = None
     then (Inl (FileNotFoundError (lit ''Log file not found: '' @ path_str log_path)), p)
     else io_bind (build_multi_agent_graph (dp_host d) (dp_pg d) (dp_built d) None None) (\<lambda>g p.
       let thread_id = (if nonempty trace_id then the trace_id else dp_uuid d p);
           (t, p') = compiled_invoke (dp_host d) g thread_id
             (initial_state (path_str log_path) trace_id) p
       in (pipeline_outcome t, p')) p)"

subsection \<open>The worker\<close>

record alert_job =
  job_id :: ustr
  job_log_path :: ustr
  job_service :: ustr
  job_enqueued :: ustr
  job_trace :: ustr

record gateway =
  gw_process :: process
  gw_queue :: "alert_job async_queue"
  gw_log :: "log_record list"
  gw_worker :: "exn option"  \<comment> \<open>the exception that ended the worker task\<close>

definition gateway_logger :: ustr where
  "gateway_logger = lit ''autosentinel.event_gateway''"

definition log_event :: "string \<Rightarrow> string \<Rightarrow> ustr \<Rightarrow> ustr \<Rightarrow> (ustr \<times> json) list \<Rightarrow> log_record" where
  "log_event level event corr trace payload =
     \<lparr>lr_level = lit level, lr_name = gateway_logger, lr_message = lit event,
      lr_correlation = Some (JStr corr), lr_trace = Some (JStr trace),
      lr_event = Some (JStr (lit event)), lr_payload = Some (JObj payload)\<rparr>"

definition job_event :: "string \<Rightarrow> string \<Rightarrow> alert_job \<Rightarrow> (ustr \<times> json) list \<Rightarrow> log_record" where
  "job_event level event job payload =
     log_event level event (job_id job) (job_id job)
       ((lit ''service_name'', JStr (job_service job)) # payload)"

text \<open>
  The body of the worker's \<^verbatim>\<open>try\<close> with its handler: the records it logs, the exception that
  leaves the handler, and the process afterwards.
\<close>

definition process_job :: "deployment \<Rightarrow> alert_job \<Rightarrow> process \<Rightarrow> log_record list \<times> exn option \<times> process" where
  "process_job d job p =
     (let h = dp_host d;
          duration = (\<lambda>p'. (lit ''duration_ms'', JInt (int (h_elapsed h (pr_world p) (pr_world p'))))) in
      case run_on d (job_log_path job) (if job_trace job = [] then None else Some (job_trace job)) p of
        (Inr report_path, p') \<Rightarrow>
          ([job_event ''INFO'' ''processing_completed'' job
              [(lit ''report_path'', JStr report_path), duration p']], None, p')
      | (Inl exc, p') \<Rightarrow>
          (let log = [job_event ''ERROR'' ''processing_failed'' job
                        [(lit ''error'', JStr (exn_str h exc)), duration p']] in
           case on_world (write_failed_result h (job_id job) (job_trace job) (job_service job)
                   (exn_str h exc)) p' of
             (Inr _, p'') \<Rightarrow> (log, None, p'')
           | (Inl e, p'') \<Rightarrow> (log, Some e, p'')))"

text \<open>One round of the loop; with no job, or after the task has ended, nothing happens.\<close>

definition worker_round :: "deployment \<Rightarrow> gateway \<Rightarrow> gateway" where
  "worker_round d gw =
     (if gw_worker gw \<noteq> None then gw
      else case q_get (gw_queue gw) of
        None \<Rightarrow> gw
      | Some (job, q) \<Rightarrow>
          (let started = job_event ''INFO'' ''processing_started'' job
                           [(lit ''log_path'', JStr (path_str (job_log_path job)))];
               (logs, died, p) = process_job d job (gw_process gw);
               gw' = gw\<lparr>gw_process := p, gw_log := gw_log gw @ started # logs\<rparr>
           in case q_task_done q of
                Inl e \<Rightarrow> gw'\<lparr>gw_queue := q, gw_worker := Some e\<rparr>
              | Inr q' \<Rightarrow> gw'\<lparr>gw_queue := q', gw_worker := died\<rparr>))"

fun worker_rounds :: "deployment \<Rightarrow> nat \<Rightarrow> gateway \<Rightarrow> gateway" where
  "worker_rounds d 0 gw = gw"
| "worker_rounds d (Suc k) gw = worker_rounds d k (worker_round d gw)"

subsection \<open>Laws\<close>

text \<open>An identifier that passed the check is a plain file name.\<close>

lemma trace_id_plain:
  assumes "trace_id_ok t"
  shows "slash \<notin> set t" "t \<noteq> []" "text_ok t"
  using assms by (auto simp: trace_id_ok_def list_all_iff is_hex_lower_def slash_def text_ok_def
      is_high_def is_low_def is_digit_def)

text \<open>Without a DSN the gateway's pipeline is the pipeline of the command line.\<close>

lemma run_on_plain:
  assumes "process_ok p" "\<not> nonempty (environ (pr_world p) dsn_env)"
    "run_on d log_path trace_id p = (r, p')"
  shows "run_pipeline (dp_host d) (production_agents (dp_host d) (dp_built d)) log_path trace_id (pr_world p) =
     (r, pr_world p')"
proof (cases "files (pr_world p) (path_str log_path)")
  case None
  with assms(3) show ?thesis by (auto simp: run_on_def run_pipeline_def)
next
  case (Some raw)
  obtain r0 p0 where b: "build_multi_agent_graph (dp_host d) (dp_pg d) (dp_built d) None None p = (r0, p0)"
    by (cases "build_multi_agent_graph (dp_host d) (dp_pg d) (dp_built d) None None p")
  from build_without_dsn [OF assms(1,2) b] obtain g where g: "r0 = Inr g"
    "cg_agents g = production_agents (dp_host d) (dp_built d)" "pr_store p0 (cg_saver g) = (\<lambda>_. None)"
    by auto
  have "pr_world p0 = pr_world p" using build_ok [OF assms(1) b] by blast
  with Some b g assms(3) show ?thesis
    by (auto simp: run_on_def run_pipeline_def compiled_invoke_def pipeline_thread_def save_thread_def Let_def)
qed

definition queue_balanced :: "gateway \<Rightarrow> bool" where
  "queue_balanced gw \<longleftrightarrow> q_unfinished (gw_queue gw) = length (q_items (gw_queue gw))"

text \<open>A file system that only raises \<^verbatim>\<open>OSError\<close>.\<close>

definition files_raise_os :: "host \<Rightarrow> bool" where
  "files_raise_os h \<longleftrightarrow>
     (\<forall>p w e. h_mkdir h p w = Some e \<or> h_write h p w = Some e \<longrightarrow> is_os_error e)"

lemma write_failed_survives:
  assumes "files_raise_os h"
  shows "fst (write_failed_result h j t s e w) = Inr ()"
proof -
  obtain r w' where w: "write_failed_result h j t s e w = (r, w')"
    by (cases "write_failed_result h j t s e w")
  then show ?thesis
  proof (cases rule: write_failed_cases)
    case (raised e')
    let ?m = "io_bind (host_step (h_mkdir h output_dir)) (\<lambda>_.
          write_text h (result_path j) (dumps (Some 2) (failed_payload j t s e)))"
    have "fst (?m w) = Inl e'"
      using w raised by (cases "?m w") (auto simp: write_failed_result_def io_catch_def split: sum.splits if_splits)
    then obtain w0 where "?m w = (Inl e', w0)" by (cases "?m w") auto
    moreover have "\<not> (\<exists>c \<in> set (dumps (Some 2) (failed_payload j t s e)). 55296 \<le> c \<and> c \<le> 57343)"
      using failed_payload_plain by fastforce
    ultimately have "h_mkdir h output_dir w = Some e' \<or> h_write h (result_path j) w = Some e'"
      by (auto simp: host_step_def may_fail_def write_text_def elim!: io_bind_cases split: option.splits if_splits)
    with assms raised show ?thesis by (auto simp: files_raise_os_def)
  qed (use w in auto)
qed

lemma process_job_survives:
  assumes "files_raise_os (dp_host d)"
  shows "fst (snd (process_job d job p)) = None"
  using write_failed_survives [OF assms]
  by (auto simp: process_job_def on_world_def Let_def split: prod.splits sum.splits)
    (metis Inl_Inr_False fst_conv)+

lemma worker_round_serves:
  assumes "queue_balanced gw" "files_raise_os (dp_host d)" "gw_worker gw = None"
    "q_items (gw_queue gw) = job # jobs"
  shows "q_items (gw_queue (worker_round d gw)) = jobs \<and> queue_balanced (worker_round d gw) \<and>
    gw_worker (worker_round d gw) = None \<and>
    gw_process (worker_round d gw) = snd (snd (process_job d job (gw_process gw)))"
proof -
  obtain q1 q2 where "q_get (gw_queue gw) = Some (job, q1)" "q_task_done q1 = Inr q2"
    "q_items q2 = jobs" "q_unfinished q2 = length (q_items q2)"
    using aq.serve_one [OF _ assms(4)] assms(1) unfolding queue_balanced_def by blast
  moreover obtain logs p where "process_job d job (gw_process gw) = (logs, None, p)"
    using process_job_survives [OF assms(2), of job "gw_process gw"]
    by (cases "process_job d job (gw_process gw)") auto
  ultimately show ?thesis
    using assms(3) by (simp add: worker_round_def queue_balanced_def Let_def)
qed

lemma worker_idles: "q_items (gw_queue gw) = [] \<Longrightarrow> worker_round d gw = gw"
  by (simp add: worker_round_def aq.get_empty)

text \<open>The jobs in the order of their arrival, each on the process the last one left.\<close>

definition serve_jobs :: "deployment \<Rightarrow> alert_job list \<Rightarrow> process \<Rightarrow> process" where
  "serve_jobs d jobs p = fold (\<lambda>job p. snd (snd (process_job d job p))) jobs p"

lemma worker_works_off:
  assumes "queue_balanced gw" "files_raise_os (dp_host d)" "gw_worker gw = None"
    "length (q_items (gw_queue gw)) \<le> k"
  shows "q_items (gw_queue (worker_rounds d k gw)) = [] \<and> q_unfinished (gw_queue (worker_rounds d k gw)) = 0 \<and>
    gw_worker (worker_rounds d k gw) = None \<and>
    gw_process (worker_rounds d k gw) = serve_jobs d (q_items (gw_queue gw)) (gw_process gw)"
  using assms
proof (induction k arbitrary: gw)
  case 0
  then show ?case by (simp add: queue_balanced_def serve_jobs_def)
next
  case (Suc k)
  show ?case
  proof (cases "q_items (gw_queue gw)")
    case Nil
    with Suc.IH [OF Suc.prems(1-3)] show ?thesis by (simp add: worker_idles)
  next
    case (Cons job jobs)
    note step = worker_round_serves [OF Suc.prems(1-3) Cons]
    with Suc.prems(4) Cons have "length (q_items (gw_queue (worker_round d gw))) \<le> k" by simp
    with Suc.IH [of "worker_round d gw"] step Suc.prems(2) Cons show ?thesis
      by (simp add: serve_jobs_def)
  qed
qed

end
