(* ===== verification/Gateway.thy ===== *)
theory Gateway
  imports Queue
begin

text \<open>
  \<^verbatim>\<open>autosentinel/api/main.py\<close> with the request and response models of \<^verbatim>\<open>api/models.py\<close>: the
  event gateway.  The framework has validated the request; a handler answers a status and a
  body, or raises, which the framework turns into a 500.

  The gateway runs as a sequence of requests and rounds of the worker (\<open>gateway_step\<close>).  The
  laws: the worker stays alive and the queue accounted for; every waiting job has its log on
  disk, under the id the caller was given; a queued job's log parses when its required texts
  are not empty; an incident is resumable only where its thread was kept.
\<close>

subsection \<open>Models\<close>

record alert_payload =
  pl_service_name :: ustr
  pl_error_type :: ustr
  pl_message :: ustr
  pl_timestamp :: ustr
  pl_stack_trace :: "ustr option"

record resume_request =
  rq_decision :: ustr
  rq_reviewer_notes :: ustr

record alert_job_response =
  jr_job_id :: ustr
  jr_status :: ustr
  jr_message :: ustr
  jr_trace_id :: ustr

record diagnosis_result =
  dg_category :: ustr
  dg_severity :: ustr
  dg_summary :: ustr

record fix_result =
  fx_fix_plan :: ustr
  fx_risk_level :: ustr
  fx_code_diff :: ustr

record alert_status_response =
  as_job_id :: ustr
  as_trace_id :: ustr
  as_status :: ustr
  as_diagnosis :: "diagnosis_result option"
  as_fix :: "fix_result option"
  as_report_path :: "ustr option"

record resume_response =
  rr_incident_id :: ustr
  rr_trace_id :: ustr
  rr_decision :: ustr
  rr_approval_required :: bool
  rr_security_verdict :: "ustr option"
  rr_execution_status :: "ustr option"
  rr_agent_trace :: "ustr list"
  rr_report_path :: "ustr option"

datatype 'a http = HttpOk nat 'a | HttpError nat ustr

definition opt_str :: "ustr option \<Rightarrow> json" where
  "opt_str x = (case x of None \<Rightarrow> JNull | Some t \<Rightarrow> JStr t)"

definition payload_json :: "alert_payload \<Rightarrow> json" where
  "payload_json pl =
     JObj [(lit ''service_name'', JStr (pl_service_name pl)), (lit ''error_type'', JStr (pl_error_type pl)),
           (lit ''message'', JStr (pl_message pl)), (lit ''timestamp'', JStr (pl_timestamp pl)),
           (lit ''stack_trace'', opt_str (pl_stack_trace pl))]"

subsection \<open>\<^verbatim>\<open>POST /api/v1/alerts\<close>\<close>

definition on_files :: "(world, 'a) io \<Rightarrow> (gateway, 'a) io" where
  "on_files m = (\<lambda>gw. case on_world m (gw_process gw) of (r, p) \<Rightarrow> (r, gw\<lparr>gw_process := p\<rparr>))"

definition gw_world :: "gateway \<Rightarrow> world" where
  "gw_world gw = pr_world (gw_process gw)"

definition log_line :: "log_record \<Rightarrow> gateway \<Rightarrow> gateway" where
  "log_line r gw = gw\<lparr>gw_log := gw_log gw @ [r]\<rparr>"

definition invalid_trace_header :: ustr where
  "invalid_trace_header =
     lit ''invalid X-Trace-Id: must be a 32-character lowercase hex string matching ^[0-9a-f]{32}$''"

definition new_job :: "deployment \<Rightarrow> alert_payload \<Rightarrow> ustr \<Rightarrow> gateway \<Rightarrow> alert_job" where
  "new_job d payload jid gw =
     \<lparr>job_id = jid, job_log_path = incoming_path jid, job_service = pl_service_name payload,
      job_enqueued = h_now_utc (dp_host d) (gw_world gw), job_trace = jid\<rparr>"

definition accept_alert :: "deployment \<Rightarrow> alert_payload \<Rightarrow> ustr \<Rightarrow> (gateway, alert_job_response http) io" where
  "accept_alert d payload jid =
     io_bind (on_files (write_text (dp_host d) (incoming_path jid) (dumps None (payload_json payload)))) (\<lambda>_ gw.
       let gw1 = log_line (log_event ''INFO'' ''alert_received'' jid jid
                   [(lit ''service_name'', JStr (pl_service_name payload)),
                    (lit ''error_type'', JStr (pl_error_type payload))]) gw;
           gw2 = gw1\<lparr>gw_queue := q_put (new_job d payload jid gw1) (gw_queue gw1)\<rparr>;
           gw3 = log_line (log_event ''INFO'' ''alert_queued'' jid jid
                   [(lit ''service_name'', JStr (pl_service_name payload)),
                    (lit ''queue_depth'', JInt (int (length (q_items (gw_queue gw2)))))]) gw2
       in (Inr (HttpOk 202
            \<lparr>jr_job_id = jid, jr_status = lit ''accepted'',
             jr_message = lit ''Alert accepted for processing'', jr_trace_id = jid\<rparr>), gw3))"

definition ingest_alert ::
  "deployment \<Rightarrow> alert_payload \<Rightarrow> ustr option \<Rightarrow> (gateway, alert_job_response http) io" where
  "ingest_alert d payload x_trace_id = (\<lambda>gw.
     case x_trace_id of
       None \<Rightarrow> accept_alert d payload (h_token (dp_host d) (gw_world gw)) gw
     | Some tid \<Rightarrow>
         if trace_id_ok tid then accept_alert d payload tid gw
         else (Inr (HttpError 400 invalid_trace_header), gw))"

subsection \<open>\<^verbatim>\<open>GET /api/v1/alerts/{job_id}\<close>\<close>

definition not_a_mapping :: "string \<Rightarrow> json \<Rightarrow> exn" where
  "not_a_mapping model v =
     TypeError (lit ''autosentinel.api.models.'' @ lit model @
                lit ''() argument after ** must be a mapping, not '' @ type_name v)"

text \<open>\<^verbatim>\<open>Model(**v)\<close> for a model whose fields are all required texts.\<close>

definition text_field :: "(ustr \<times> json) list \<Rightarrow> string \<Rightarrow> ustr option" where
  "text_field kvs k = (case map_of kvs (lit k) of Some (JStr t) \<Rightarrow> Some t | _ \<Rightarrow> None)"

fun model_texts :: "string \<Rightarrow> string list \<Rightarrow> json \<Rightarrow> (string \<Rightarrow> ustr) result" where
  "model_texts model ks (JObj kvs) =
     (let bad = filter (\<lambda>k. text_field kvs k = None) ks
      in if bad = [] then Inr (\<lambda>k. the (text_field kvs k))
         else Inl (ValidationError (lit model) (map lit bad)))"
| "model_texts model ks v = Inl (not_a_mapping model v)"

definition mk_diagnosis :: "json \<Rightarrow> diagnosis_result option result" where
  "mk_diagnosis v =
     (if \<not> truthy v then Inr None
      else res_bind (model_texts ''DiagnosisResult'' [''category'', ''severity'', ''summary''] v) (\<lambda>f.
             Inr (Some \<lparr>dg_category = f ''category'', dg_severity = f ''severity'',
                        dg_summary = f ''summary''\<rparr>)))"

definition mk_fix :: "json \<Rightarrow> fix_result option result" where
  "mk_fix v =
     (if \<not> truthy v then Inr None
      else res_bind (model_texts ''FixResult'' [''fix_plan'', ''risk_level'', ''code_diff''] v) (\<lambda>f.
             Inr (Some \<lparr>fx_fix_plan = f ''fix_plan'', fx_risk_level = f ''risk_level'',
                        fx_code_diff = f ''code_diff''\<rparr>)))"

definition mk_report_path :: "json \<Rightarrow> ustr option result" where
  "mk_report_path v =
     (case v of JNull \<Rightarrow> Inr None | JStr t \<Rightarrow> Inr (Some t)
      | _ \<Rightarrow> Inl (ValidationError (lit ''AlertStatusResponse'') [lit ''report_path'']))"

definition status_of_result :: "ustr \<Rightarrow> json \<Rightarrow> alert_status_response result" where
  "status_of_result jid data =
     res_bind (jget data (lit ''diagnosis'') JNull) (\<lambda>diagnosis.
     res_bind (jget data (lit ''fix'') JNull) (\<lambda>repair.
     res_bind (get_str data ''trace_id'') (\<lambda>tid.
     res_bind (get_str data ''status'') (\<lambda>status.
     res_bind (mk_diagnosis diagnosis) (\<lambda>dg.
     res_bind (mk_fix repair) (\<lambda>fx.
     res_bind (jget data (lit ''report_path'') JNull) (\<lambda>rp.
     res_bind (mk_report_path rp) (\<lambda>path.
       Inr \<lparr>as_job_id = jid, as_trace_id = or_text tid jid,
            as_status = or_text status (lit ''completed''),
            as_diagnosis = dg, as_fix = fx, as_report_path = path\<rparr>))))))))"

definition get_alert_status ::
  "deployment \<Rightarrow> ustr \<Rightarrow> (gateway, alert_status_response http) io" where
  "get_alert_status d jid =
     io_bind (on_files (load_result (dp_host d) jid)) (\<lambda>data gw.
       if data \<noteq> JNull then (map_sum id (HttpOk 200) (status_of_result jid data), gw)
       else if files (gw_world gw) (incoming_path jid) \<noteq> None
       then (Inr (HttpOk 200
              \<lparr>as_job_id = jid, as_trace_id = jid, as_status = lit ''processing'',
               as_diagnosis = None, as_fix = None, as_report_path = None\<rparr>), gw)
       else (Inr (HttpError 404 (lit ''job '' @ repr_str jid @ lit '' not found'')), gw))"

subsection \<open>\<^verbatim>\<open>GET /api/v1/incidents\<close>\<close>

definition search_route :: "deployment \<Rightarrow> ustr \<Rightarrow> int option \<Rightarrow> (gateway, incident list http) io" where
  "search_route d q limit =
     io_bind (on_files (search_incidents (dp_host d) (dp_listing d) q (or_else limit 5))) (\<lambda>matches.
       io_return (HttpOk 200 matches))"

subsection \<open>\<^verbatim>\<open>POST /incidents/{incident_id}/resume\<close>\<close>

definition resume_body :: "resume_request \<Rightarrow> json" where
  "resume_body body =
     JObj [(lit ''decision'', JStr (rq_decision body)),
           (lit ''reviewer_notes'', JStr (rq_reviewer_notes body))]"

definition resume_answer :: "ustr \<Rightarrow> resume_request \<Rightarrow> agent_state \<Rightarrow> resume_response" where
  "resume_answer incident_id body s =
     \<lparr>rr_incident_id = incident_id, rr_trace_id = or_else (st_trace_id s) incident_id,
      rr_decision = rq_decision body, rr_approval_required = st_approval_required s,
      rr_security_verdict = st_security_verdict s,
      rr_execution_status = map_option (\<lambda>res. status_text (ex_status res)) (st_execution_result s),
      rr_agent_trace = st_agent_trace s, rr_report_path = st_report_path s\<rparr>"

definition resume_incident ::
  "deployment \<Rightarrow> ustr \<Rightarrow> resume_request \<Rightarrow> (gateway, resume_response http) io" where
  "resume_incident d incident_id body = (\<lambda>gw.
     case build_multi_agent_graph (dp_host d) (dp_pg d) (dp_built d) None None (gw_process gw) of
       (Inl e, p) \<Rightarrow> (Inl e, gw\<lparr>gw_process := p\<rparr>)
     | (Inr g, p) \<Rightarrow>
         if pr_store p (cg_saver g) incident_id = None
         then (Inr (HttpError 404 (lit ''no resumable incident '' @ repr_str incident_id)),
               gw\<lparr>gw_process := p\<rparr>)
         else (case compiled_resume (dp_host d) (dp_idle d) g incident_id (resume_body body) p of
             (t, p') \<Rightarrow>
               (case th_status t of
                  Failed n e \<Rightarrow> (Inl e, gw\<lparr>gw_process := p'\<rparr>)
                | _ \<Rightarrow>
                    (let s = th_state t in
                     (Inr (HttpOk 200 (resume_answer incident_id body s)),
                      log_line (log_event ''INFO'' ''incident_resumed'' incident_id
                          (or_else (st_trace_id s) incident_id)
                          [(lit ''decision'', JStr (rq_decision body))])
                        (gw\<lparr>gw_process := p'\<rparr>))))))"

subsection \<open>Life of the process\<close>

definition lifespan_start :: "deployment \<Rightarrow> process \<Rightarrow> gateway result" where
  "lifespan_start d p =
     (case h_mkdir (dp_host d) incoming_dir (pr_world p) of
        Some e \<Rightarrow> Inl e
      | None \<Rightarrow> Inr \<lparr>gw_process = p, gw_queue = q_empty, gw_log = [], gw_worker = None\<rparr>)"

inductive gateway_step :: "deployment \<Rightarrow> gateway \<Rightarrow> gateway \<Rightarrow> bool" for d :: deployment where
  alert: "ingest_alert d payload header gw = (r, gw') \<Longrightarrow> gateway_step d gw gw'"
| status: "get_alert_status d jid gw = (r', gw') \<Longrightarrow> gateway_step d gw gw'"
| search: "search_route d q limit gw = (r'', gw') \<Longrightarrow> gateway_step d gw gw'"
| resume: "resume_incident d iid body gw = (r''', gw') \<Longrightarrow> gateway_step d gw gw'"
| work: "gateway_step d gw (worker_round d gw)"

inductive gateway_reaches :: "deployment \<Rightarrow> gateway \<Rightarrow> bool" for d :: deployment where
  started: "lifespan_start d p = Inr gw \<Longrightarrow> process_ok p \<Longrightarrow> gateway_reaches d gw"
| stepped: "gateway_reaches d gw \<Longrightarrow> gateway_step d gw gw' \<Longrightarrow> gateway_reaches d gw'"

subsection \<open>Effects of the operations\<close>

text \<open>The documented behaviour of the outside that the gateway relies on.\<close>

definition deployment_ok :: "deployment \<Rightarrow> bool" where
  "deployment_ok d \<longleftrightarrow>
     files_raise_os (dp_host d) \<and> (\<forall>w. trace_id_ok (h_token (dp_host d) w)) \<and>
     (\<forall>v saved w q. files w q \<noteq> None \<longrightarrow> files (th_world (dp_idle d v saved w)) q \<noteq> None)"

text \<open>A sound process goes on to be one, and no file disappears.\<close>

definition evolves :: "process \<Rightarrow> process \<Rightarrow> bool" where
  "evolves p p' \<longleftrightarrow>
     (process_ok p \<longrightarrow> process_ok p') \<and>
     (\<forall>q. files (pr_world p) q \<noteq> None \<longrightarrow> files (pr_world p') q \<noteq> None)"

lemma preorder_evolves: "preorder evolves"
  by (auto simp: preorder_def evolves_def)

lemma evolves_refl [simp]: "evolves p p"
  by (simp add: evolves_def)

lemma evolves_trans: "evolves p q \<Longrightarrow> evolves q r \<Longrightarrow> evolves p r"
  by (simp add: evolves_def)

lemma evolves_world:
  "(\<forall>q. files (pr_world p) q \<noteq> None \<longrightarrow> files w q \<noteq> None) \<Longrightarrow> evolves p (p\<lparr>pr_world := w\<rparr>)"
  by (simp add: evolves_def process_ok_def)

lemma build_evolves:
  assumes "build_multi_agent_graph h ph built None ags p = (r, p')"
  shows "evolves p p'"
    and "r = Inr g \<Longrightarrow> process_ok p \<Longrightarrow> \<forall>n. cg_saver g = MemorySaver n \<longrightarrow> n < sv_made (pr_savers p')"
    and "r = Inr g \<Longrightarrow> cg_agents g = or_else ags (production_agents h built)"
proof -
  show "evolves p p'"
    using build_ok [OF _ assms] assms
    by (auto simp: evolves_def build_multi_agent_graph_def split: prod.splits sum.splits)
  show "r = Inr g \<Longrightarrow> cg_agents g = or_else ags (production_agents h built)"
    using assms by (cases rule: build_cases) auto
  assume g: "r = Inr g" and ok: "process_ok p"
  from assms obtain sv where sv: "p' = p\<lparr>pr_savers := sv\<rparr>"
    "resolve_checkpointer ph (environ (pr_world p) dsn_env) None (pr_savers p) = (Inr (cg_saver g), sv)"
    using g by (cases rule: build_cases) auto
  from sv(2) show "\<forall>n. cg_saver g = MemorySaver n \<longrightarrow> n < sv_made (pr_savers p')"
  proof (cases rule: resolve_cases)
    case (cached dsn c)
    then have "c = PostgresSaver dsn"
      using ok by (auto simp: process_ok_def savers_ok_def dest!: map_of_SomeD)
    with cached show ?thesis by simp
  qed (auto simp: sv(1))
qed

lemma save_evolves:
  assumes "\<forall>n. c = MemorySaver n \<longrightarrow> process_ok p \<longrightarrow> n < sv_made (pr_savers p)"
    "\<forall>q. files (pr_world p) q \<noteq> None \<longrightarrow> files (th_world t) q \<noteq> None"
  shows "evolves p (save_thread c tid t p)"
  using assms by (auto simp: evolves_def process_ok_def save_thread_def)

lemma run_on_evolves:
  assumes "run_on d lp tid p = (r, p')"
  shows "evolves p p'"
proof (cases "files (pr_world p) (path_str lp)")
  case (Some raw)
  obtain r0 p0 where b: "build_multi_agent_graph (dp_host d) (dp_pg d) (dp_built d) None None p = (r0, p0)"
    by (cases "build_multi_agent_graph (dp_host d) (dp_pg d) (dp_built d) None None p")
  show ?thesis
  proof (cases r0)
    case (Inl e)
    with Some b assms build_evolves(1) [OF b] show ?thesis by (simp add: run_on_def)
  next
    case (Inr g)
    note g = build_evolves [OF b]
    define s where "s = over_saved (pr_store p0 (cg_saver g) (if nonempty tid then the tid else dp_uuid d p0))
        (initial_state (path_str lp) tid)"
    define t where "t = graph_invoke (dp_host d) (cg_agents g) s (pr_world p0)"
    have p': "p' = save_thread (cg_saver g) (if nonempty tid then the tid else dp_uuid d p0) t p0"
      using Some b Inr assms by (auto simp: run_on_def compiled_invoke_def Let_def s_def t_def)
    have "own_files_only (st_log_path s) (pr_world p0) (th_world t)"
      unfolding t_def g(3) [OF Inr] or_else.simps by (rule invoke_own)
    then have "\<forall>q. files (pr_world p0) q \<noteq> None \<longrightarrow> files (th_world t) q \<noteq> None"
      by (simp add: own_files_only_def)
    moreover have "process_ok p \<longrightarrow> (\<forall>n. cg_saver g = MemorySaver n \<longrightarrow> n < sv_made (pr_savers p0))"
      using g(2) [OF Inr] by blast
    ultimately have "process_ok p \<longrightarrow> evolves p0 p'"
      unfolding p' by (intro impI save_evolves) auto
    moreover have "\<forall>q. files (pr_world p0) q \<noteq> None \<longrightarrow> files (pr_world p') q \<noteq> None"
      using \<open>\<forall>q. files (pr_world p0) q \<noteq> None \<longrightarrow> _ q\<close> by (simp add: p' save_thread_def)
    ultimately show ?thesis using g(1) by (auto simp: evolves_def)
  qed
qed (use assms in \<open>simp add: run_on_def\<close>)

lemma process_job_evolves: "evolves p (snd (snd (process_job d job p)))"
proof -
  obtain r p' where run: "run_on d (job_log_path job)
      (if job_trace job = [] then None else Some (job_trace job)) p = (r, p')"
    by (cases "run_on d (job_log_path job) (if job_trace job = [] then None else Some (job_trace job)) p")
  note ev = run_on_evolves [OF run]
  show ?thesis
  proof (cases r)
    case (Inl e)
    let ?m = "write_failed_result (dp_host d) (job_id job) (job_trace job) (job_service job) (exn_str (dp_host d) e)"
    obtain r' w' where m: "?m (pr_world p') = (r', w')" by (cases "?m (pr_world p')")
    then have "\<forall>q. files (pr_world p') q \<noteq> None \<longrightarrow> files w' q \<noteq> None"
      by (cases rule: write_failed_cases) auto
    then have "evolves p' (p'\<lparr>pr_world := w'\<rparr>)" by (rule evolves_world)
    with ev have "evolves p (p'\<lparr>pr_world := w'\<rparr>)" by (rule evolves_trans)
    with run Inl m show ?thesis
      by (cases r') (simp_all add: process_job_def on_world_def Let_def)
  qed (use run ev in \<open>simp add: process_job_def Let_def\<close>)
qed

text \<open>The read-only requests.\<close>

lemma on_files_id:
  assumes "\<And>w. snd (m w) = w"
  shows "snd (on_files m gw) = gw"
proof -
  obtain r where "m (pr_world (gw_process gw)) = (r, pr_world (gw_process gw))"
    using assms by (metis prod.collapse)
  then show ?thesis by (simp add: on_files_def on_world_def)
qed

lemma load_result_frame: "snd (load_result h jid w) = w"
  by (simp add: load_result_def read_json_frame)

lemma status_reads: "snd (get_alert_status d jid gw) = gw"
proof -
  have "snd (on_files (load_result (dp_host d) jid) gw) = gw"
    by (rule on_files_id) (rule load_result_frame)
  then show ?thesis
    by (cases "on_files (load_result (dp_host d) jid) gw") (auto simp: get_alert_status_def io_bind_def split: sum.split)
qed

lemma search_reads: "snd (search_route d q limit gw) = gw"
proof -
  let ?m = "search_incidents (dp_host d) (dp_listing d) q (or_else limit 5)"
  have "snd (on_files ?m gw) = gw" by (rule on_files_id) (rule search_frame)
  then show ?thesis
    by (cases "on_files ?m gw") (auto simp: search_route_def io_bind_def split: sum.split)
qed

lemma accept_cases:
  assumes "accept_alert d payload jid gw = (r, gw')"
  obtains (raised) e where "r = Inl e" "gw' = gw"
  | (accepted) gw1 where "gw_queue gw1 = gw_queue gw" "gw_worker gw1 = gw_worker gw"
      "gw_process gw1 = (gw_process gw)\<lparr>pr_world := (gw_world gw)\<lparr>files :=
         (files (gw_world gw))(incoming_path jid \<mapsto> dumps None (payload_json payload))\<rparr>\<rparr>"
      "gw_queue gw' = q_put (new_job d payload jid gw1) (gw_queue gw)"
      "gw_worker gw' = gw_worker gw" "gw_process gw' = gw_process gw1"
      "r = Inr (HttpOk 202 \<lparr>jr_job_id = jid, jr_status = lit ''accepted'',
             jr_message = lit ''Alert accepted for processing'', jr_trace_id = jid\<rparr>)"
proof -
  have plain: "dump_plain (dumps None (payload_json payload))"
    by (simp add: dumps_def payload_json_def opt_str_def dump_plain_leads dump_plain_str dump_plain_lit text_simps
        del: item_lead.simps comma_lead.simps split: option.split)
  then have "\<not> (\<exists>c \<in> set (dumps None (payload_json payload)). 55296 \<le> c \<and> c \<le> 57343)"
    unfolding dump_plain_def by fastforce
  then have w: "write_text (dp_host d) (incoming_path jid) (dumps None (payload_json payload)) (gw_world gw) =
     (case h_write (dp_host d) (incoming_path jid) (gw_world gw) of
        Some e \<Rightarrow> (Inl e, gw_world gw)
      | None \<Rightarrow> (Inr (), (gw_world gw)\<lparr>files :=
          (files (gw_world gw))(incoming_path jid \<mapsto> dumps None (payload_json payload))\<rparr>))"
    unfolding write_text_def by (simp only: if_False)
  show ?thesis
  proof (cases "h_write (dp_host d) (incoming_path jid) (gw_world gw)")
    case (Some e)
    with w assms show ?thesis
      by (intro raised [of e]) (simp_all add: accept_alert_def io_bind_def on_files_def on_world_def gw_world_def)
  next
    case None
    let ?p = "(gw_process gw)\<lparr>pr_world := (gw_world gw)\<lparr>files :=
         (files (gw_world gw))(incoming_path jid \<mapsto> dumps None (payload_json payload))\<rparr>\<rparr>"
    let ?gw1 = "log_line (log_event ''INFO'' ''alert_received'' jid jid
                   [(lit ''service_name'', JStr (pl_service_name payload)),
                    (lit ''error_type'', JStr (pl_error_type payload))]) (gw\<lparr>gw_process := ?p\<rparr>)"
    from None w have "on_files (write_text (dp_host d) (incoming_path jid) (dumps None (payload_json payload))) gw =
        (Inr (), gw\<lparr>gw_process := ?p\<rparr>)"
      by (simp add: on_files_def on_world_def gw_world_def)
    with assms show ?thesis
      by (intro accepted [of ?gw1]) (auto simp: accept_alert_def Let_def log_line_def)
  qed
qed

lemma resume_effect:
  assumes "resume_incident d iid body gw = (r, gw')"
    and "\<And>v saved w q. files w q \<noteq> None \<Longrightarrow> files (th_world (dp_idle d v saved w)) q \<noteq> None"
    and "process_ok (gw_process gw)"
  shows "gw_queue gw' = gw_queue gw \<and> gw_worker gw' = gw_worker gw \<and>
    evolves (gw_process gw) (gw_process gw')"
proof -
  let ?h = "dp_host d"
  obtain r0 p where b: "build_multi_agent_graph ?h (dp_pg d) (dp_built d) None None (gw_process gw) = (r0, p)"
    by (cases "build_multi_agent_graph ?h (dp_pg d) (dp_built d) None None (gw_process gw)")
  note ev = build_evolves [OF b]
  show ?thesis
  proof (cases r0)
    case (Inl e)
    with b ev(1) assms(1) show ?thesis by (auto simp: resume_incident_def)
  next
    case (Inr g)
    show ?thesis
    proof (cases "pr_store p (cg_saver g) iid")
      case None
      with b ev(1) Inr assms(1) show ?thesis by (auto simp: resume_incident_def)
    next
      case (Some cp)
      obtain st s where cp: "cp = (st, s)" by (cases cp)
      define t where "t = fst (compiled_resume ?h (dp_idle d) g iid (resume_body body) p)"
      have cr: "compiled_resume ?h (dp_idle d) g iid (resume_body body) p = (t, save_thread (cg_saver g) iid t p)"
        by (simp add: t_def compiled_resume_def Let_def)
      have t: "t = or_else (graph_resume ?h (cg_agents g) (resume_body body) (thread_at st s (pr_world p)))
                     (dp_idle d (resume_body body) (Some cp) (pr_world p))"
        using Some cp by (simp add: t_def compiled_resume_def Let_def)
      have "\<forall>q. files (pr_world p) q \<noteq> None \<longrightarrow> files (th_world t) q \<noteq> None"
      proof (cases "graph_resume ?h (cg_agents g) (resume_body body) (thread_at st s (pr_world p))")
        case None
        with t assms(2) show ?thesis by simp
      next
        case (Some t')
        with ev(3) [OF Inr] have "own_files_only (st_log_path s) (pr_world p) (th_world t')"
          using resume_own [of ?h "dp_built d" "resume_body body" "thread_at st s (pr_world p)" t'] by simp
        with Some t show ?thesis by (simp add: own_files_only_def)
      qed
      then have "evolves p (save_thread (cg_saver g) iid t p)"
        using ev(2) [OF Inr assms(3)] by (intro save_evolves) auto
      with ev(1) have "evolves (gw_process gw) (save_thread (cg_saver g) iid t p)" by (rule evolves_trans)
      with assms(1) b Inr Some cr show ?thesis
        by (auto simp: resume_incident_def Let_def log_line_def split: status.splits)
    qed
  qed
qed

subsection \<open>The invariant of the gateway\<close>

text \<open>A waiting job runs under the id its caller was given, and its log is on disk.\<close>

definition job_ready :: "gateway \<Rightarrow> alert_job \<Rightarrow> bool" where
  "job_ready gw job \<longleftrightarrow>
     trace_id_ok (job_id job) \<and> job_trace job = job_id job \<and>
     job_log_path job = incoming_path (job_id job) \<and>
     files (gw_world gw) (job_log_path job) \<noteq> None"

definition gateway_inv :: "gateway \<Rightarrow> bool" where
  "gateway_inv gw \<longleftrightarrow>
     queue_balanced gw \<and> gw_worker gw = None \<and> process_ok (gw_process gw) \<and>
     (\<forall>job \<in> set (q_items (gw_queue gw)). job_ready gw job)"

lemma job_ready_evolves:
  "job_ready gw job \<Longrightarrow> evolves (gw_process gw) (gw_process gw') \<Longrightarrow> job_ready gw' job"
  unfolding job_ready_def evolves_def gw_world_def by blast

lemma inv_frame:
  assumes "gateway_inv gw" "gw_queue gw' = gw_queue gw" "gw_worker gw' = gw_worker gw"
    "evolves (gw_process gw) (gw_process gw')"
  shows "gateway_inv gw'"
  using assms job_ready_evolves [of gw _ gw']
  by (auto simp: gateway_inv_def queue_balanced_def evolves_def)

lemma accept_inv:
  assumes "gateway_inv gw" "trace_id_ok jid" "accept_alert d payload jid gw = (r, gw')"
  shows "gateway_inv gw'"
  using assms(3)
proof (cases rule: accept_cases)
  case (accepted gw1)
  have ev: "evolves (gw_process gw) (gw_process gw')"
    unfolding accepted by (rule evolves_world) (simp add: gw_world_def)
  have "job_ready gw' (new_job d payload jid gw1)"
    using assms(2) accepted by (simp add: job_ready_def new_job_def gw_world_def)
  moreover have "q_items (gw_queue gw') = q_items (gw_queue gw) @ [new_job d payload jid gw1]"
    by (simp add: accepted aq.contents_put)
  moreover have "queue_balanced gw'"
    using assms(1) aq.balanced_put [of "gw_queue gw"]
    by (simp add: gateway_inv_def queue_balanced_def accepted)
  ultimately show ?thesis
    using assms(1) ev accepted(5) job_ready_evolves [OF _ ev]
    by (auto simp: gateway_inv_def evolves_def)
qed (use assms(1) in simp)

lemma gateway_step_inv:
  assumes "gateway_step d gw gw'" "gateway_inv gw" "deployment_ok d"
  shows "gateway_inv gw'"
  using assms(1)
proof (cases rule: gateway_step.cases)
  case (alert payload header r)
  then show ?thesis
  proof (cases header)
    case None
    with alert have "accept_alert d payload (h_token (dp_host d) (gw_world gw)) gw = (r, gw')"
      by (simp add: ingest_alert_def)
    moreover have "trace_id_ok (h_token (dp_host d) (gw_world gw))"
      using assms(3) unfolding deployment_ok_def by blast
    ultimately show ?thesis using accept_inv [OF assms(2)] by blast
  next
    case (Some tid)
    with alert assms(2) show ?thesis
      by (cases "trace_id_ok tid") (auto simp: ingest_alert_def intro: accept_inv)
  qed
next
  case (status jid r')
  with assms(2) show ?thesis using status_reads [of d jid gw] by simp
next
  case (search q limit r'')
  with assms(2) show ?thesis using search_reads [of d q limit gw] by simp
next
  case (resume iid body r''')
  have "process_ok (gw_process gw)" using assms(2) by (simp add: gateway_inv_def)
  moreover have "files w q \<noteq> None \<Longrightarrow> files (th_world (dp_idle d v saved w)) q \<noteq> None" for v saved w q
    using assms(3) unfolding deployment_ok_def by blast
  ultimately show ?thesis
    using resume_effect [OF resume] inv_frame [OF assms(2)] by blast
next
  case work
  show ?thesis
  proof (cases "q_items (gw_queue gw)")
    case Nil
    with assms(2) show ?thesis by (simp add: work worker_idles)
  next
    case (Cons job jobs)
    have os: "files_raise_os (dp_host d)" using assms(3) by (simp add: deployment_ok_def)
    note serves = worker_round_serves [OF _ os _ Cons]
    have s: "q_items (gw_queue gw') = jobs" "queue_balanced gw'" "gw_worker gw' = None"
      "gw_process gw' = snd (snd (process_job d job (gw_process gw)))"
      using serves assms(2) by (simp_all add: work gateway_inv_def)
    have ev: "evolves (gw_process gw) (gw_process gw')" unfolding s(4) by (rule process_job_evolves)
    show ?thesis
      using assms(2) s ev job_ready_evolves [OF _ ev] Cons by (auto simp: gateway_inv_def evolves_def)
  qed
qed

lemma gateway_reaches_inv: "gateway_reaches d gw \<Longrightarrow> deployment_ok d \<Longrightarrow> gateway_inv gw"
proof (induction rule: gateway_reaches.induct)
  case (started p gw)
  then show ?case
    by (auto simp: lifespan_start_def gateway_inv_def queue_balanced_def q_empty_def split: option.splits)
next
  case (stepped gw gw')
  then show ?case using gateway_step_inv by blast
qed

text \<open>A reached gateway works off its queue.\<close>

lemma gateway_works_off:
  assumes "gateway_reaches d gw" "deployment_ok d" "length (q_items (gw_queue gw)) \<le> k"
  shows "q_items (gw_queue (worker_rounds d k gw)) = [] \<and> q_unfinished (gw_queue (worker_rounds d k gw)) = 0 \<and>
    gw_worker (worker_rounds d k gw) = None \<and>
    gw_process (worker_rounds d k gw) = serve_jobs d (q_items (gw_queue gw)) (gw_process gw)"
  using gateway_reaches_inv [OF assms(1,2)] assms
  by (intro worker_works_off) (auto simp: gateway_inv_def deployment_ok_def)

subsection \<open>From the request to the parser\<close>

definition payload_text_ok :: "alert_payload \<Rightarrow> bool" where
  "payload_text_ok pl \<longleftrightarrow>
     text_ok (pl_service_name pl) \<and> text_ok (pl_error_type pl) \<and> text_ok (pl_message pl) \<and>
     text_ok (pl_timestamp pl) \<and> (\<forall>t. pl_stack_trace pl = Some t \<longrightarrow> text_ok t)"

lemma payload_json_ok: "payload_text_ok pl \<Longrightarrow> json_ok (payload_json pl)"
  by (auto simp: payload_json_def payload_text_ok_def opt_str_def text_ok_lit
      intro!: json_ok.intros split: option.split)

definition payload_complete :: "alert_payload \<Rightarrow> bool" where
  "payload_complete pl \<longleftrightarrow>
     pl_service_name pl \<noteq> [] \<and> pl_error_type pl \<noteq> [] \<and> pl_message pl \<noteq> [] \<and> pl_timestamp pl \<noteq> []"

definition payload_log :: "alert_payload \<Rightarrow> error_log" where
  "payload_log pl =
     [(lit ''timestamp'', JStr (pl_timestamp pl)), (lit ''service_name'', JStr (pl_service_name pl)),
      (lit ''error_type'', JStr (pl_error_type pl)), (lit ''message'', JStr (pl_message pl)),
      (lit ''stack_trace'', opt_str (pl_stack_trace pl))]"

lemma validate_log_object:
  assumes "loads raw = Some (JObj kvs)"
    and "missing = filter (\<lambda>f. \<not> truthy (or_else (map_of kvs f) JNull)) required_fields"
  shows "validate_log h path raw =
    (if missing \<noteq> []
     then Inr (parse_failed (lit ''Missing required fields in '' @ path_name path @ lit '': '' @ join (lit '', '') missing))
     else Inr [UErrorLog (Some (map (\<lambda>f. (f, or_else (map_of kvs f) JNull)) (required_fields @ [lit ''stack_trace'']))),
               UParseError None])"
  unfolding validate_log_def assms(1) assms(2) Let_def by simp

text \<open>An accepted alert parses exactly when its four required texts are not empty.\<close>

lemma payload_parses:
  assumes "payload_text_ok pl"
  shows "if payload_complete pl
    then validate_log h path (dumps None (payload_json pl)) =
         Inr [UErrorLog (Some (payload_log pl)), UParseError None]
    else \<exists>msg. msg \<noteq> [] \<and> validate_log h path (dumps None (payload_json pl)) = Inr (parse_failed msg)"
proof -
  let ?kvs = "[(lit ''service_name'', JStr (pl_service_name pl)), (lit ''error_type'', JStr (pl_error_type pl)),
       (lit ''message'', JStr (pl_message pl)), (lit ''timestamp'', JStr (pl_timestamp pl)),
       (lit ''stack_trace'', opt_str (pl_stack_trace pl))]"
  let ?missing = "filter (\<lambda>f. \<not> truthy (or_else (map_of ?kvs f) JNull)) required_fields"
  have loads: "loads (dumps None (payload_json pl)) = Some (JObj ?kvs)"
    using loads_dumps [OF payload_json_ok [OF assms]] by (simp add: payload_json_def)
  have missing: "?missing = [] \<longleftrightarrow> payload_complete pl"
    by (auto simp: required_fields_def payload_complete_def)
  have log: "map (\<lambda>f. (f, or_else (map_of ?kvs f) JNull)) (required_fields @ [lit ''stack_trace'']) = payload_log pl"
    by (simp add: required_fields_def payload_log_def)
  note val = validate_log_object [OF loads refl, of h path, unfolded log]
  show ?thesis
  proof (cases "payload_complete pl")
    case True
    with missing val show ?thesis by (simp only: if_True if_False simp_thms)
  next
    case False
    with missing have "?missing \<noteq> []" by blast
    with val have "validate_log h path (dumps None (payload_json pl)) =
        Inr (parse_failed (lit ''Missing required fields in '' @ path_name path @ lit '': '' @ join (lit '', '') ?missing))"
      by (simp only: if_True simp_thms)
    then have "\<exists>msg. msg \<noteq> [] \<and> validate_log h path (dumps None (payload_json pl)) = Inr (parse_failed msg)"
      by (intro exI conjI) (simp_all only: append_is_Nil_conv lit_eq_Nil list.distinct simp_thms)
    with False show ?thesis by (simp only: if_False)
  qed
qed

text \<open>What an accepted alert becomes for the pipeline that runs its job.\<close>

lemma stored_payload_parses:
  assumes "payload_text_ok pl" "path_str path = path" "h_read h path w = None"
    "files w path = Some (dumps None (payload_json pl))"
  shows "\<exists>us. parse_log h (initial_state path tid) w = (Inr us, w) \<and>
    (if payload_complete pl then us = [UErrorLog (Some (payload_log pl)), UParseError None]
     else \<exists>msg. msg \<noteq> [] \<and> us = parse_failed msg)"
proof -
  have "13 \<notin> set (dumps None (payload_json pl))"
    using dumps_plain [OF payload_json_ok [OF assms(1)], of None] unfolding dump_plain_def by fastforce
  with assms(3,4) have "read_text h path w = (Inr (dumps None (payload_json pl)), w)"
    by (simp add: read_text_def universal_newlines_id)
  then have "parse_log h (initial_state path tid) w = (validate_log h path (dumps None (payload_json pl)), w)"
    by (simp add: parse_log_def initial_state_def assms(2))
  with payload_parses [OF assms(1), of h path] show ?thesis by (auto split: if_splits)
qed

lemma ingest_outcome:
  assumes "deployment_ok d" "payload_text_ok payload" "\<And>q w. h_read (dp_host d) q w = None"
  shows "case ingest_alert d payload header gw of
     (Inl e, gw') \<Rightarrow> gw' = gw
   | (Inr (HttpError code msg), gw') \<Rightarrow>
       code = 400 \<and> gw' = gw \<and> (\<exists>t. header = Some t \<and> \<not> trace_id_ok t)
   | (Inr (HttpOk code resp), gw') \<Rightarrow>
       code = 202 \<and>
       (\<exists>job us. q_items (gw_queue gw') = q_items (gw_queue gw) @ [job] \<and> job_ready gw' job \<and>
          job_id job = jr_job_id resp \<and> job_id job = or_else header (h_token (dp_host d) (gw_world gw)) \<and>
          parse_log (dp_host d) (initial_state (path_str (job_log_path job)) (Some (job_trace job))) (gw_world gw') =
            (Inr us, gw_world gw') \<and>
          (if payload_complete payload then us = [UErrorLog (Some (payload_log payload)), UParseError None]
           else \<exists>msg. msg \<noteq> [] \<and> us = parse_failed msg))"
proof -
  let ?h = "dp_host d"
  have goal: "case accept_alert d payload jid gw of
     (Inl e, gw') \<Rightarrow> gw' = gw
   | (Inr (HttpError code msg), gw') \<Rightarrow> False
   | (Inr (HttpOk code resp), gw') \<Rightarrow>
       code = 202 \<and>
       (\<exists>job us. q_items (gw_queue gw') = q_items (gw_queue gw) @ [job] \<and> job_ready gw' job \<and>
          job_id job = jr_job_id resp \<and> job_id job = jid \<and>
          parse_log ?h (initial_state (path_str (job_log_path job)) (Some (job_trace job))) (gw_world gw') =
            (Inr us, gw_world gw') \<and>
          (if payload_complete payload then us = [UErrorLog (Some (payload_log payload)), UParseError None]
           else \<exists>msg. msg \<noteq> [] \<and> us = parse_failed msg))"
    if jid: "trace_id_ok jid" for jid
  proof -
    obtain r gw' where acc: "accept_alert d payload jid gw = (r, gw')"
      by (cases "accept_alert d payload jid gw")
    then show ?thesis
    proof (cases rule: accept_cases)
      case (accepted gw1)
      have stored: "files (gw_world gw') (incoming_path jid) = Some (dumps None (payload_json payload))"
        using accepted by (simp add: gw_world_def)
      have path: "path_str (incoming_path jid) = incoming_path jid"
        by (rule incoming_path_eq(2) [OF trace_id_plain(1) [OF jid]])
      have "job_ready gw' (new_job d payload jid gw1)"
        using jid stored by (simp add: job_ready_def new_job_def)
      moreover have "q_items (gw_queue gw') = q_items (gw_queue gw) @ [new_job d payload jid gw1]"
        unfolding accepted(4) by (rule aq.contents_put)
      moreover note stored_payload_parses [OF assms(2) path assms(3) stored, of "Some jid"]
      moreover have "job_id (new_job d payload jid gw1) = jid"
        "job_log_path (new_job d payload jid gw1) = incoming_path jid"
        "job_trace (new_job d payload jid gw1) = jid" by (simp_all add: new_job_def)
      ultimately show ?thesis using acc accepted(7) path by (auto split del: if_split)
    qed (use acc in simp)
  qed
  show ?thesis
  proof (cases header)
    case None
    have "trace_id_ok (h_token ?h (gw_world gw))" using assms(1) unfolding deployment_ok_def by blast
    from goal [OF this] None show ?thesis
      by (auto simp: ingest_alert_def split: prod.splits sum.splits http.splits
          split del: if_split)
  next
    case (Some t)
    show ?thesis
    proof (cases "trace_id_ok t")
      case True
      from goal [OF this] Some True show ?thesis
        by (auto simp: ingest_alert_def split: prod.splits sum.splits http.splits
          split del: if_split)
    qed (use Some in \<open>simp add: ingest_alert_def\<close>)
  qed
qed

subsection \<open>What a caller sees of its job\<close>

text \<open>Every sidecar the report node writes is accepted by the models of the status route.\<close>

lemma derive_fix_fields:
  assumes "derive_fix s = Inr f"
  obtains plan where "f = JObj [(lit ''fix_plan'', JStr plan), (lit ''risk_level'', JStr (risk_of s)), (lit ''code_diff'', JStr [])]"
  using assms by (auto simp: derive_fix_def res_bind_def Let_def risk_of_def split: sum.splits)

lemma status_of_sidecar:
  assumes "sidecar s stem p = Inr v"
  shows "\<exists>cat sm plan. derive_category s = Inr cat \<and> derive_summary s = Inr sm \<and>
    derive_fix s = Inr (JObj [(lit ''fix_plan'', JStr plan), (lit ''risk_level'', JStr (risk_of s)), (lit ''code_diff'', JStr [])]) \<and>
    status_of_result jid v = Inr
      \<lparr>as_job_id = jid,
       as_trace_id = or_text (if nonempty (st_trace_id s) then the (st_trace_id s) else stem) jid,
       as_status = lit ''completed'',
       as_diagnosis = Some \<lparr>dg_category = cat, dg_severity = derive_severity s, dg_summary = sm\<rparr>,
       as_fix = Some \<lparr>fx_fix_plan = plan, fx_risk_level = risk_of s, fx_code_diff = []\<rparr>,
       as_report_path = Some p\<rparr>"
proof -
  obtain cat sm f sn et where parts: "derive_category s = Inr cat" "derive_summary s = Inr sm" "derive_fix s = Inr f"
    and v: "v = JObj
         [(lit ''trace_id'', JStr (if nonempty (st_trace_id s) then the (st_trace_id s) else stem)),
          (lit ''status'', JStr (lit ''completed'')),
          (lit ''diagnosis'', JObj
             [(lit ''category'', JStr cat), (lit ''severity'', JStr (derive_severity s)),
              (lit ''summary'', JStr sm)]),
          (lit ''fix'', f), (lit ''service_name'', sn), (lit ''error_type'', et),
          (lit ''report_path'', JStr p)]"
    using assms by (auto simp: sidecar_def res_bind_def split: sum.splits)
  from parts(3) obtain plan where f: "f = JObj [(lit ''fix_plan'', JStr plan), (lit ''risk_level'', JStr (risk_of s)), (lit ''code_diff'', JStr [])]"
    by (rule derive_fix_fields)
  have "get_str v ''trace_id'' = Inr (if nonempty (st_trace_id s) then the (st_trace_id s) else stem)"
    "get_str v ''status'' = Inr (lit ''completed'')"
    by (auto simp: v get_str_def or_str_def)
  moreover have "jget v (lit ''diagnosis'') JNull = Inr (JObj
             [(lit ''category'', JStr cat), (lit ''severity'', JStr (derive_severity s)),
              (lit ''summary'', JStr sm)])" "jget v (lit ''fix'') JNull = Inr f"
    "jget v (lit ''report_path'') JNull = Inr (JStr p)"
    by (simp_all add: v)
  ultimately have "status_of_result jid v = Inr
      \<lparr>as_job_id = jid,
       as_trace_id = or_text (if nonempty (st_trace_id s) then the (st_trace_id s) else stem) jid,
       as_status = or_text (lit ''completed'') (lit ''completed''),
       as_diagnosis = Some \<lparr>dg_category = cat, dg_severity = derive_severity s, dg_summary = sm\<rparr>,
       as_fix = Some \<lparr>fx_fix_plan = plan, fx_risk_level = risk_of s, fx_code_diff = []\<rparr>,
       as_report_path = Some p\<rparr>"
    by (simp only: status_of_result_def res_bind_simps)
      (simp add: f mk_diagnosis_def mk_fix_def mk_report_path_def text_field_def)
  with parts f show ?thesis by (auto simp: or_text_def)
qed

text \<open>
  What the readers of the sidecar see of the keys of a completed run: the category and the risk
  through their tables, the routing sentence as the summary, the artifact as the fix.
\<close>

definition diagnosis_categories :: "(ustr \<times> ustr) list" where
  "diagnosis_categories =
     [(lit ''CODE'', lit ''runtime''), (lit ''INFRA'', lit ''infra''), (lit ''CONFIG'', lit ''config''),
      (lit ''SECURITY'', lit ''unknown'')]"

definition completed_risks :: "(ustr \<times> ustr) list" where
  "completed_risks = [(lit ''SAFE'', lit ''low''), (lit ''CAUTION'', lit ''medium'')]"

lemma completed_sidecar_parts:
  fixes h :: host and b :: "string \<Rightarrow> provider \<times> agent_model_config"
  assumes "t = pipeline_thread h (production_agents h b) log_path tid w" "completed (th_state t)"
  obtains c cat ra art v risk where
    "st_error_category (th_state t) = Some c" "map_of diagnosis_categories c = Some cat"
    "derive_category (th_state t) = Inr cat"
    "st_routing_decision (th_state t) = Some ra" "derive_summary (th_state t) = Inr ra"
    "st_security_verdict (th_state t) = Some v" "map_of completed_risks v = Some risk"
    "derive_severity (th_state t) = lit ''medium''"
    "st_fix_artifact (th_state t) = Some art"
    "derive_fix (th_state t) = Inr (JObj
       [(lit ''fix_plan'', JStr art), (lit ''risk_level'', JStr risk), (lit ''code_diff'', JStr [])])"
proof (cases rule: completed_keys [OF assms])
  case (1 c ra art v)
  let ?s = "th_state t"
  obtain cat where cat: "map_of diagnosis_categories c = Some cat" "derive_category ?s = Inr cat"
    using 1(1,2)
    by (auto simp: valid_categories_def diagnosis_categories_def derive_category_def lookup_def error_category_map_def)
  obtain risk where risk: "map_of completed_risks v = Some risk" "lookup risk_map (Some v) = Some risk"
    using 1(7) by (auto simp: completed_risks_def lookup_def risk_map_def)
  have "derive_summary ?s = Inr ra"
    using 1(3,4,9) by (simp add: derive_summary_def analysis_dict_def derive_summary_rest_def nonempty_def)
  moreover have "derive_fix ?s = Inr (JObj
       [(lit ''fix_plan'', JStr art), (lit ''risk_level'', JStr risk), (lit ''code_diff'', JStr [])])"
    using 1(5,6,9,10) risk(2) by (simp add: derive_fix_def analysis_dict_def nonempty_def Let_def)
  moreover have "derive_severity ?s = lit ''medium''" using 1(6-8) by (auto simp: derive_severity_def)
  ultimately show ?thesis using 1 cat risk(1) by (intro that)
qed

lemma status_of_failed:
  "status_of_result jid (failed_payload jid trace service error) = Inr
     \<lparr>as_job_id = jid, as_trace_id = or_text (or_text trace jid) jid, as_status = lit ''failed'',
      as_diagnosis = None, as_fix = None, as_report_path = None\<rparr>"
  by (auto simp: status_of_result_def failed_payload_def get_str_def or_str_def mk_diagnosis_def
      mk_fix_def mk_report_path_def or_text_def)

text \<open>A job whose pipeline raised is reported as failed, under its own id.\<close>

lemma failed_job_reported:
  assumes "run_on d (job_log_path job) (if job_trace job = [] then None else Some (job_trace job)) p = (Inl exc, p1)"
    and "\<And>w. h_mkdir (dp_host d) output_dir w = None" "\<And>q w. h_write (dp_host d) q w = None"
    and "\<And>q w. h_read (dp_host d) q w = None"
    and "text_ok (job_id job)" "text_ok (job_trace job)" "text_ok (job_service job)"
      "text_ok (exn_str (dp_host d) exc)"
    and "gw_process gw = snd (snd (process_job d job p))"
  shows "fst (get_alert_status d (job_id job) gw) = Inr (HttpOk 200
    \<lparr>as_job_id = job_id job, as_trace_id = or_text (or_text (job_trace job) (job_id job)) (job_id job),
     as_status = lit ''failed'', as_diagnosis = None, as_fix = None, as_report_path = None\<rparr>)"
proof -
  let ?h = "dp_host d" and ?v = "failed_payload (job_id job) (job_trace job) (job_service job) (exn_str (dp_host d) exc)"
  obtain r w' where w: "write_failed_result ?h (job_id job) (job_trace job) (job_service job) (exn_str ?h exc)
      (pr_world p1) = (r, w')"
    by (cases "write_failed_result ?h (job_id job) (job_trace job) (job_service job) (exn_str ?h exc) (pr_world p1)")
  have "\<not> (\<exists>c \<in> set (dumps (Some 2) ?v). 55296 \<le> c \<and> c \<le> 57343)" using failed_payload_plain by fastforce
  with w assms(2,3) have done': "w' = (pr_world p1)\<lparr>files := (files (pr_world p1))(result_path (job_id job) \<mapsto> dumps (Some 2) ?v)\<rparr>"
    by (auto simp: write_failed_result_def host_step_def may_fail_def io_bind_def io_catch_def write_text_def)
  have "snd (snd (process_job d job p)) = p1\<lparr>pr_world := w'\<rparr>"
    using assms(1) w by (cases r) (simp_all add: process_job_def on_world_def Let_def)
  then have gw: "pr_world (gw_process gw) = w'" using assms(9) by simp
  have "read_json ?h (result_path (job_id job)) w' = (Inr ?v, w')"
    using assms(4-8) done' by (intro written_json_reads [where ind = "Some 2"] failed_payload_ok) auto
  then have "on_files (load_result ?h (job_id job)) gw = (Inr ?v, gw)"
    using done' gw by (simp add: on_files_def on_world_def load_result_def)
  moreover have "?v \<noteq> JNull" by (simp add: failed_payload_def)
  ultimately show ?thesis by (simp add: get_alert_status_def status_of_failed)
qed

text \<open>
  The answer for any job that was run without a DSN: failed when the pipeline raised, else the
  diagnosis and the report of its sidecar.
\<close>

lemma job_status_reported:
  fixes d p job
  defines "s \<equiv> th_state (pipeline_thread (dp_host d) (production_agents (dp_host d) (dp_built d))
      (job_log_path job) (Some (job_trace job)) (pr_world p))"
    and "report \<equiv> h_resolve (dp_host d) (output_file (job_id job) ''-report.md'')"
  assumes p: "process_ok p" "\<not> nonempty (environ (pr_world p) dsn_env)"
    and job: "trace_id_ok (job_id job)" "job_trace job = job_id job" "job_log_path job = incoming_path (job_id job)"
    and calm: "\<And>q w. h_mkdir (dp_host d) q w = None" "\<And>q w. h_write (dp_host d) q w = None"
      "\<And>q w. h_read (dp_host d) q w = None"
    and texts: "text_ok (job_service job)"
      "\<And>e. fst (run_on d (job_log_path job) (Some (job_trace job)) p) = Inl e \<Longrightarrow> text_ok (exn_str (dp_host d) e)"
      "\<And>v. sidecar s (job_id job) report = Inr v \<Longrightarrow> json_ok v"
    and gw: "gw_process gw = snd (snd (process_job d job p))"
  shows "\<exists>r. fst (get_alert_status d (job_id job) gw) = Inr (HttpOk 200 r) \<and>
    as_job_id r = job_id job \<and> as_trace_id r = job_id job \<and>
    (case fst (run_on d (job_log_path job) (Some (job_trace job)) p) of
       Inl e \<Rightarrow> as_status r = lit ''failed'' \<and> as_diagnosis r = None \<and> as_fix r = None \<and> as_report_path r = None
     | Inr path \<Rightarrow>
         (\<exists>c cat ra art v risk.
            st_error_category s = Some c \<and> map_of diagnosis_categories c = Some cat \<and>
            st_routing_decision s = Some ra \<and> st_fix_artifact s = Some art \<and>
            st_security_verdict s = Some v \<and> map_of completed_risks v = Some risk \<and>
            as_status r = lit ''completed'' \<and>
            as_diagnosis r = Some \<lparr>dg_category = cat, dg_severity = lit ''medium'', dg_summary = ra\<rparr> \<and>
            as_fix r = Some \<lparr>fx_fix_plan = art, fx_risk_level = risk, fx_code_diff = []\<rparr> \<and>
            as_report_path r = Some report \<and> path_str report = path))"
proof -
  let ?h = "dp_host d" and ?jid = "job_id job"
  note plain = trace_id_plain [OF job(1)]
  have tid: "(if job_trace job = [] then None else Some (job_trace job)) = Some ?jid" using job(2) plain by simp
  obtain r p' where run: "run_on d (job_log_path job) (Some ?jid) p = (r, p')"
    by (cases "run_on d (job_log_path job) (Some ?jid) p")
  show ?thesis
  proof (cases r)
    case (Inl e)
    have "fst (get_alert_status d ?jid gw) = Inr (HttpOk 200
      \<lparr>as_job_id = ?jid, as_trace_id = or_text (or_text (job_trace job) ?jid) ?jid,
       as_status = lit ''failed'', as_diagnosis = None, as_fix = None, as_report_path = None\<rparr>)"
      using run Inl tid plain job(2) texts(2)
      by (intro failed_job_reported [OF _ calm(1,2,3) plain(3) _ texts(1) _ gw]) auto
    with Inl run job(2) plain show ?thesis by (simp add: or_text_def)
  next
    case (Inr path)
    define t where "t = pipeline_thread ?h (production_agents ?h (dp_built d)) (job_log_path job) (Some ?jid) (pr_world p)"
    have "run_pipeline ?h (production_agents ?h (dp_built d)) (job_log_path job) (Some ?jid) (pr_world p) = (Inr path, pr_world p')"
      using run_on_plain [OF p run] Inr by simp
    then have out: "pipeline_outcome t = Inr path" "th_world t = pr_world p'"
      by (auto simp: run_pipeline_def t_def Let_def split: if_splits)
    then have filed: "filed ?h (th_state t) (th_world t)" "path = path_str (h_resolve ?h (report_file (th_state t)))"
      by (cases rule: pipeline_cases [OF t_def]; simp)+
    have done': "completed (th_state t)" using out(1) by (cases rule: pipeline_cases [OF t_def]) simp_all
    have log: "st_log_path (th_state t) = incoming_path ?jid"
      using reaches_own [OF graph_run_reaches, of ?h "dp_built d" graph_fuel
          "thread_at (Running Dispatch) (initial_state (path_str (job_log_path job)) (Some ?jid)) (pr_world p)"]
        incoming_path_eq(2) [OF plain(1)] job(3)
      by (simp add: t_def pipeline_thread_def graph_invoke_def initial_state_def)
    then have stem: "path_stem (st_log_path (th_state t)) = ?jid" using stem_of_incoming plain by simp
    obtain rep v where v: "files (th_world t) (sidecar_file (th_state t)) = Some (dumps (Some 2) v)"
      "sidecar (th_state t) ?jid (h_resolve ?h (report_file (th_state t))) = Inr v"
      using filed(1) stem by (auto simp: filed_def)
    have rf: "report_file (th_state t) = output_file ?jid ''-report.md''"
      "sidecar_file (th_state t) = result_path ?jid"
      using stem result_path_eq [OF plain(1)] by (simp_all add: report_file_def sidecar_file_def)
    have jok: "json_ok v" using texts(3) [of v] v(2) rf(1) job(2) by (simp add: t_def s_def report_def)
    have trace: "st_trace_id (th_state t) = Some ?jid"
      using prod.invoke_traced [of ?h "initial_state (path_str (job_log_path job)) (Some ?jid)" "pr_world p" "dp_built d"] plain
      by (simp add: t_def pipeline_thread_def thread_traced_def run_trace_id_def initial_state_def nonempty_def)
    have "gw_process gw = p'" using gw run Inr tid by (simp add: process_job_def Let_def)
    then have gww: "gw_world gw = th_world t" using out by (simp add: gw_world_def)
    then have "read_json ?h (result_path ?jid) (gw_world gw) = (Inr v, gw_world gw)"
      using v(1) rf jok calm(3) by (intro written_json_reads [where ind = "Some 2"]) auto
    then have "on_files (load_result ?h ?jid) gw = (Inr v, gw)"
      using v(1) rf gww by (simp add: on_files_def on_world_def load_result_def gw_world_def)
    moreover have "v \<noteq> JNull" using v(2) by (auto simp: sidecar_def res_bind_def split: sum.splits)
    moreover obtain cat sm plan where parts: "derive_category (th_state t) = Inr cat" "derive_summary (th_state t) = Inr sm"
      "derive_fix (th_state t) = Inr (JObj [(lit ''fix_plan'', JStr plan), (lit ''risk_level'', JStr (risk_of (th_state t))),
         (lit ''code_diff'', JStr [])])"
      and status: "status_of_result ?jid v = Inr
      \<lparr>as_job_id = ?jid, as_trace_id = or_text ?jid ?jid, as_status = lit ''completed'',
       as_diagnosis = Some \<lparr>dg_category = cat, dg_severity = derive_severity (th_state t), dg_summary = sm\<rparr>,
       as_fix = Some \<lparr>fx_fix_plan = plan, fx_risk_level = risk_of (th_state t), fx_code_diff = []\<rparr>,
       as_report_path = Some (h_resolve ?h (report_file (th_state t)))\<rparr>"
      using status_of_sidecar [OF v(2), of ?jid] trace plain by (auto simp: nonempty_def)
    ultimately have answer: "fst (get_alert_status d ?jid gw) = Inr (HttpOk 200
      \<lparr>as_job_id = ?jid, as_trace_id = or_text ?jid ?jid, as_status = lit ''completed'',
       as_diagnosis = Some \<lparr>dg_category = cat, dg_severity = derive_severity (th_state t), dg_summary = sm\<rparr>,
       as_fix = Some \<lparr>fx_fix_plan = plan, fx_risk_level = risk_of (th_state t), fx_code_diff = []\<rparr>,
       as_report_path = Some report\<rparr>)"
      by (simp add: get_alert_status_def rf(1) report_def)
    have s: "th_state t = s" using job(2) by (simp add: t_def s_def)
    from Inr run job(2) plain filed(2) answer parts rf(1) show ?thesis
      by (cases rule: completed_sidecar_parts [OF t_def done']) (simp add: or_text_def s report_def)
  qed
qed

subsection \<open>Resumption\<close>

text \<open>Without a DSN every graph keeps its own threads, so no incident can be resumed.\<close>

lemma resume_needs_dsn:
  assumes "process_ok (gw_process gw)" "\<not> nonempty (environ (gw_world gw) dsn_env)"
  shows "fst (resume_incident d iid body gw) =
    Inr (HttpError 404 (lit ''no resumable incident '' @ repr_str iid))"
proof -
  obtain r p where b: "build_multi_agent_graph (dp_host d) (dp_pg d) (dp_built d) None None (gw_process gw) = (r, p)"
    by (cases "build_multi_agent_graph (dp_host d) (dp_pg d) (dp_built d) None None (gw_process gw)")
  from build_without_dsn [OF assms(1) _ b] assms(2) obtain g where
    "r = Inr g" "pr_store p (cg_saver g) = (\<lambda>_. None)" by (auto simp: gw_world_def)
  with b show ?thesis by (simp add: resume_incident_def)
qed

text \<open>With one, resuming a suspended incident runs its verifier, whatever the body says.\<close>

lemma resume_executes:
  assumes "environ (gw_world gw) dsn_env = Some dsn" "dsn \<noteq> []"
    and "map_of (sv_cache (pr_savers (gw_process gw))) dsn = Some c"
    and "pr_store (gw_process gw) c iid = Some (Suspended, s)"
  shows "docker_log (gw_world (snd (resume_incident d iid body gw))) =
    docker_log (snd (verifier_run (dp_host d) (approved s) (gw_world gw)))"
proof -
  let ?h = "dp_host d" and ?p = "gw_process gw"
  let ?ag = "production_agents ?h (dp_built d)"
  let ?t0 = "thread_at Suspended s (pr_world ?p)"
  have b: "build_multi_agent_graph ?h (dp_pg d) (dp_built d) None None ?p = (Inr \<lparr>cg_agents = ?ag, cg_saver = c\<rparr>, ?p)"
    using assms(1-3) by (simp add: build_multi_agent_graph_def resolve_checkpointer_def nonempty_def gw_world_def)
  obtain t where t: "graph_resume ?h ?ag (resume_body body) ?t0 = Some t"
    using resume_eq [of ?t0 ?h ?ag "resume_body body"] by simp
  then have "docker_log (th_world t) = docker_log (snd (verifier_run ?h (approved s) (gw_world gw)))"
    using resume_docker [of ?h "dp_built d" "resume_body body" ?t0 t] by (simp add: gw_world_def)
  moreover have "gw_world (snd (resume_incident d iid body gw)) = th_world t"
    using b t assms(4)
    by (auto simp: resume_incident_def compiled_resume_def save_thread_def gw_world_def log_line_def Let_def
        split: status.split)
  ultimately show ?thesis by simp
qed

end
