(* ===== verification/Lifecycle.thy ===== *)
theory Lifecycle
  imports Gateway
begin

text \<open>
  The end of the gateway's process: the shutdown half of \<^verbatim>\<open>lifespan\<close> in \<^verbatim>\<open>api/main.py\<close>, and what
  cancelling does to \<^verbatim>\<open>worker\<close> in \<^verbatim>\<open>api/queue.py\<close>, between two jobs or in the middle of one.  The
  queue lives in the process, so a restart begins with an empty one.

  The lemmas show that a shutdown never fails while the worker is alive, that the job in flight
  runs to its end unobserved, and that waiting jobs are never processed after a restart: whatever
  the service does later (other alerts, their jobs, queries, cancellations, further restarts), as
  long as nobody submits an alert under the same id, their status stays \<open>processing\<close>.
\<close>

definition cancelled_error :: exn where
  "cancelled_error = OtherError (lit ''CancelledError'') []"

text \<open>
  \<^verbatim>\<open>task.cancel(); await task\<close> with \<^verbatim>\<open>CancelledError\<close> caught.  A worker that waits for a job ends
  with \<^verbatim>\<open>CancelledError\<close>; of one that has ended before, its own exception is raised.
\<close>

definition lifespan_shutdown :: "(gateway, unit) io" where
  "lifespan_shutdown = (\<lambda>gw.
     case gw_worker gw of
       None \<Rightarrow> (Inr (), gw\<lparr>gw_worker := Some cancelled_error\<rparr>)
     | Some e \<Rightarrow> (if e = cancelled_error then Inr () else Inl e, gw))"

text \<open>
  A cancellation that arrives while the worker awaits \<^verbatim>\<open>asyncio.to_thread(run_pipeline, ...)\<close>.  The
  thread goes on to the end of its pipeline; \<^verbatim>\<open>except Exception\<close> does not catch the cancellation,
  so neither outcome is logged and no failed result is written; \<^verbatim>\<open>finally\<close> counts the job as done.
\<close>

definition cancelled_round :: "deployment \<Rightarrow> gateway \<Rightarrow> gateway" where
  "cancelled_round d gw =
     (case q_get (gw_queue gw) of
        None \<Rightarrow> gw\<lparr>gw_worker := Some cancelled_error\<rparr>
      | Some (job, q) \<Rightarrow>
          (let started = job_event ''INFO'' ''processing_started'' job
                           [(lit ''log_path'', JStr (path_str (job_log_path job)))];
               p = snd (run_on d (job_log_path job)
                     (if job_trace job = [] then None else Some (job_trace job)) (gw_process gw));
               gw' = gw\<lparr>gw_process := p, gw_log := gw_log gw @ [started]\<rparr>
           in case q_task_done q of
                Inl e \<Rightarrow> gw'\<lparr>gw_queue := q, gw_worker := Some e\<rparr>
              | Inr q' \<Rightarrow> gw'\<lparr>gw_queue := q', gw_worker := Some cancelled_error\<rparr>))"

text \<open>A restart keeps the file system and nothing else of the gateway.\<close>

definition restarts_to :: "deployment \<Rightarrow> gateway \<Rightarrow> gateway \<Rightarrow> bool" where
  "restarts_to d gw gw' \<longleftrightarrow>
     (\<exists>p. lifespan_start d p = Inr gw' \<and> process_ok p \<and> files (pr_world p) = files (gw_world gw))"

text \<open>
  The later life of the service as the owner of the identifier \<open>jid\<close> sees it: every request and
  every round of the worker, cancellations and restarts included, except an alert that is accepted
  under \<open>jid\<close> again.  Incidents are only resumed while no checkpointer DSN is configured.
\<close>

inductive later_step :: "deployment \<Rightarrow> ustr \<Rightarrow> gateway \<Rightarrow> gateway \<Rightarrow> bool"
  for d :: deployment and jid :: ustr where
  later_alert:
    "or_else header (h_token (dp_host d) (gw_world gw)) \<noteq> jid \<Longrightarrow>
     ingest_alert d payload header gw = (r, gw') \<Longrightarrow> later_step d jid gw gw'"
| later_status: "get_alert_status d j gw = (r1, gw') \<Longrightarrow> later_step d jid gw gw'"
| later_search: "search_route d q limit gw = (r2, gw') \<Longrightarrow> later_step d jid gw gw'"
| later_resume:
    "\<not> nonempty (environ (gw_world gw) dsn_env) \<Longrightarrow>
     resume_incident d iid body gw = (r3, gw') \<Longrightarrow> later_step d jid gw gw'"
| later_work: "later_step d jid gw (worker_round d gw)"
| later_cancel: "later_step d jid gw (cancelled_round d gw)"
| later_restart: "restarts_to d gw gw' \<Longrightarrow> later_step d jid gw gw'"

subsection \<open>Laws\<close>

lemma shutdown_alive:
  assumes "gateway_reaches d gw" "deployment_ok d"
  shows "lifespan_shutdown gw = (Inr (), gw\<lparr>gw_worker := Some cancelled_error\<rparr>)"
  using gateway_reaches_inv [OF assms] by (simp add: lifespan_shutdown_def gateway_inv_def)

lemma shutdown_ends_work: "worker_round d (snd (lifespan_shutdown gw)) = snd (lifespan_shutdown gw)"
  by (simp add: lifespan_shutdown_def worker_round_def split: option.split)

lemma worker_rounds_idle: "q_items (gw_queue gw) = [] \<Longrightarrow> worker_rounds d k gw = gw"
  by (induction k) (simp_all add: worker_idles)

text \<open>The job in flight: its pipeline has run, but nothing says how it ended.\<close>

lemma cancelled_in_flight:
  assumes "gateway_inv gw" "q_items (gw_queue gw) = job # jobs"
  shows "gw_worker (cancelled_round d gw) = Some cancelled_error \<and>
    q_items (gw_queue (cancelled_round d gw)) = jobs \<and>
    gw_process (cancelled_round d gw) =
      snd (run_on d (job_log_path job) (if job_trace job = [] then None else Some (job_trace job)) (gw_process gw)) \<and>
    length (gw_log (cancelled_round d gw)) = Suc (length (gw_log gw))"
proof -
  have "q_unfinished (gw_queue gw) = length (q_items (gw_queue gw))"
    using assms(1) by (simp add: gateway_inv_def queue_balanced_def)
  then obtain q1 q2 where "q_get (gw_queue gw) = Some (job, q1)" "q_task_done q1 = Inr q2" "q_items q2 = jobs"
    using aq.serve_one [OF _ assms(2)] by metis
  then show ?thesis by (simp add: cancelled_round_def Let_def)
qed

lemma status_processing:
  assumes "files (gw_world gw) (result_path jid) = None" "files (gw_world gw) (incoming_path jid) \<noteq> None"
  shows "fst (get_alert_status d jid gw) = Inr (HttpOk 200
    \<lparr>as_job_id = jid, as_trace_id = jid, as_status = lit ''processing'', as_diagnosis = None, as_fix = None,
     as_report_path = None\<rparr>)"
  using assms
  by (simp add: get_alert_status_def load_result_def on_files_def on_world_def gw_world_def io_bind_def)

subsection \<open>The files of other jobs\<close>

text \<open>Distinct identifiers of full length name distinct files.\<close>

lemma foreign_files:
  assumes "trace_id_ok j" "trace_id_ok jid" "j \<noteq> jid"
  shows "{result_path jid, incoming_path jid} \<inter>
    (insert (result_path j) (insert (incoming_path j) (own_files (incoming_path j)))) = {}"
proof -
  note plain = trace_id_plain [OF assms(1)] trace_id_plain [OF assms(2)]
  have len: "length j = length jid" using assms(1,2) by (simp add: trace_id_ok_def)
  have "own_files (incoming_path j) = {output_file j ''-report.md'', output_file j ''-result.json''}"
    using stem_of_incoming plain(1,2) by (simp add: own_files_def)
  moreover have "result_path j = output_file j ''-result.json''" "result_path jid = output_file jid ''-result.json''"
    using result_path_eq plain by blast+
  moreover have "output_file jid e \<noteq> output_file j e'" for e e'
    using len assms(3) by (simp add: output_file_def)
  moreover have "incoming_path jid \<noteq> output_file k e" "output_file k e \<noteq> incoming_path j"
    "incoming_path jid \<noteq> incoming_path j" for k e
    using assms(3) by (simp_all add: incoming_path_eq plain incoming_dir_def output_file_def text_simps)
  ultimately show ?thesis by auto
qed

lemma run_on_own:
  assumes "run_on d lp tid p = (r, p')" "q \<notin> own_files (path_str lp)"
  shows "files (pr_world p') q = files (pr_world p) q"
proof (cases "files (pr_world p) (path_str lp)")
  case (Some raw)
  obtain r0 p0 where b: "build_multi_agent_graph (dp_host d) (dp_pg d) (dp_built d) None None p = (r0, p0)"
    by (cases "build_multi_agent_graph (dp_host d) (dp_pg d) (dp_built d) None None p")
  have same: "pr_world p0 = pr_world p"
    using b by (auto simp: build_multi_agent_graph_def split: prod.splits sum.splits)
  show ?thesis
  proof (cases r0)
    case (Inr g)
    note g = build_evolves(3) [OF b Inr]
    define s where "s = over_saved (pr_store p0 (cg_saver g) (if nonempty tid then the tid else dp_uuid d p0))
        (initial_state (path_str lp) tid)"
    have "st_log_path s = path_str lp" by (simp add: s_def over_saved_def initial_state_def split: option.split)
    with assms(2) invoke_own [of s "pr_world p0" "dp_host d" "dp_built d"]
    have "files (th_world (graph_invoke (dp_host d) (cg_agents g) s (pr_world p0))) q = files (pr_world p0) q"
      by (simp add: own_files_only_def g)
    moreover have "p' = save_thread (cg_saver g) (if nonempty tid then the tid else dp_uuid d p0)
        (graph_invoke (dp_host d) (cg_agents g) s (pr_world p0)) p0"
      using Some b Inr assms(1) by (auto simp: run_on_def compiled_invoke_def Let_def s_def)
    ultimately show ?thesis by (simp add: save_thread_def same)
  qed (use Some b same assms in \<open>simp add: run_on_def\<close>)
qed (use assms in \<open>simp add: run_on_def\<close>)

lemma process_job_own:
  assumes "q \<notin> own_files (path_str (job_log_path job))" "q \<noteq> result_path (job_id job)"
  shows "files (pr_world (snd (snd (process_job d job p)))) q = files (pr_world p) q"
proof -
  obtain r p' where run: "run_on d (job_log_path job)
      (if job_trace job = [] then None else Some (job_trace job)) p = (r, p')"
    by (cases "run_on d (job_log_path job) (if job_trace job = [] then None else Some (job_trace job)) p")
  note own = run_on_own [OF run assms(1)]
  show ?thesis
  proof (cases r)
    case (Inl e)
    let ?m = "write_failed_result (dp_host d) (job_id job) (job_trace job) (job_service job) (exn_str (dp_host d) e)"
    obtain r' w' where m: "?m (pr_world p') = (r', w')" by (cases "?m (pr_world p')")
    then have "files w' q = files (pr_world p') q" using assms(2) by (cases rule: write_failed_cases) auto
    with run Inl m own show ?thesis by (cases r') (simp_all add: process_job_def on_world_def Let_def)
  qed (use run own in \<open>simp add: process_job_def Let_def\<close>)
qed

subsection \<open>A lost job stays lost\<close>

text \<open>The incident's log is stored, it has no result, and no waiting job is about it.\<close>

definition foreign_job :: "ustr \<Rightarrow> alert_job \<Rightarrow> bool" where
  "foreign_job jid job \<longleftrightarrow>
     trace_id_ok (job_id job) \<and> job_id job \<noteq> jid \<and> job_log_path job = incoming_path (job_id job)"

definition unserved :: "ustr \<Rightarrow> gateway \<Rightarrow> bool" where
  "unserved jid gw \<longleftrightarrow>
     trace_id_ok jid \<and> process_ok (gw_process gw) \<and>
     files (gw_world gw) (result_path jid) = None \<and> files (gw_world gw) (incoming_path jid) \<noteq> None \<and>
     (\<forall>job \<in> set (q_items (gw_queue gw)). foreign_job jid job)"

text \<open>What keeps it: sound processes, the two files untouched, only foreign jobs added.\<close>

lemma unserved_frame:
  assumes "unserved jid gw" "process_ok (gw_process gw')"
    and "\<And>q. q \<in> {result_path jid, incoming_path jid} \<Longrightarrow> files (gw_world gw') q = files (gw_world gw) q"
    and "\<And>job. job \<in> set (q_items (gw_queue gw')) \<Longrightarrow> job \<notin> set (q_items (gw_queue gw)) \<Longrightarrow> foreign_job jid job"
  shows "unserved jid gw'"
  using assms by (fastforce simp: unserved_def)

lemma served_foreign:
  assumes "unserved jid gw" "foreign_job jid job" "q \<in> {result_path jid, incoming_path jid}"
  shows "q \<notin> own_files (path_str (job_log_path job))" "q \<noteq> result_path (job_id job)"
proof -
  have ok: "trace_id_ok (job_id job)" "trace_id_ok jid" "job_id job \<noteq> jid"
    and path: "job_log_path job = incoming_path (job_id job)"
    using assms(1,2) by (simp_all add: foreign_job_def unserved_def)
  have "path_str (job_log_path job) = incoming_path (job_id job)"
    unfolding path by (rule incoming_path_eq(2) [OF trace_id_plain(1) [OF ok(1)]])
  with foreign_files [OF ok] assms(3) show "q \<notin> own_files (path_str (job_log_path job))" "q \<noteq> result_path (job_id job)"
    by auto
qed

lemma worker_round_cases:
  obtains (idle) "worker_round d gw = gw"
  | (served) job jobs where "q_items (gw_queue gw) = job # jobs" "q_items (gw_queue (worker_round d gw)) = jobs"
      "gw_process (worker_round d gw) = snd (snd (process_job d job (gw_process gw)))"
proof (cases "q_items (gw_queue gw)")
  case Nil
  then show ?thesis by (intro idle) (simp add: worker_round_def q_get_def)
next
  case (Cons job jobs)
  show ?thesis
  proof (cases "gw_worker gw")
    case None
    obtain logs died p where "process_job d job (gw_process gw) = (logs, died, p)"
      by (cases "process_job d job (gw_process gw)")
    with None Cons show ?thesis
      by (intro served [of job jobs]) (simp_all add: worker_round_def q_get_def q_task_done_def Let_def)
  qed (auto simp: worker_round_def intro: idle)
qed

lemma cancelled_round_cases:
  obtains (idle) "gw_process (cancelled_round d gw) = gw_process gw" "gw_queue (cancelled_round d gw) = gw_queue gw"
  | (cut) job jobs where "q_items (gw_queue gw) = job # jobs" "q_items (gw_queue (cancelled_round d gw)) = jobs"
      "gw_process (cancelled_round d gw) =
         snd (run_on d (job_log_path job) (if job_trace job = [] then None else Some (job_trace job)) (gw_process gw))"
proof (cases "q_items (gw_queue gw)")
  case Nil
  then show ?thesis by (intro idle) (simp_all add: cancelled_round_def q_get_def)
next
  case (Cons job jobs)
  then show ?thesis
    by (intro cut [of job jobs]) (simp_all add: cancelled_round_def q_get_def q_task_done_def Let_def)
qed

lemma unserved_work:
  assumes "unserved jid gw"
  shows "unserved jid (worker_round d gw)"
proof (cases rule: worker_round_cases [of d gw])
  case (served job jobs)
  then have foreign: "foreign_job jid job" using assms by (simp add: unserved_def)
  from process_job_evolves [of "gw_process gw" d job] assms served(3)
  have "process_ok (gw_process (worker_round d gw))" by (simp add: evolves_def unserved_def)
  moreover note process_job_own [OF served_foreign [OF assms foreign], of _ d "gw_process gw"]
  ultimately show ?thesis
    using assms served by (intro unserved_frame [OF assms]) (auto simp: gw_world_def)
qed (use assms in simp)

lemma unserved_cancel:
  assumes "unserved jid gw"
  shows "unserved jid (cancelled_round d gw)"
proof (cases rule: cancelled_round_cases [of d gw])
  case (cut job jobs)
  let ?tid = "if job_trace job = [] then None else Some (job_trace job)"
  from cut have foreign: "foreign_job jid job" using assms by (simp add: unserved_def)
  obtain r p where run: "run_on d (job_log_path job) ?tid (gw_process gw) = (r, p)"
    by (cases "run_on d (job_log_path job) ?tid (gw_process gw)")
  with cut have p: "gw_process (cancelled_round d gw) = p" by simp
  have "process_ok p" using run_on_evolves [OF run] assms by (simp add: evolves_def unserved_def)
  with p run_on_own [OF run served_foreign(1) [OF assms foreign]] show ?thesis
    using assms cut by (intro unserved_frame [OF assms]) (auto simp: gw_world_def)
qed (use assms in \<open>auto simp: unserved_def gw_world_def\<close>)

lemma unserved_accept:
  assumes "unserved jid gw" "trace_id_ok j" "j \<noteq> jid" "accept_alert d payload j gw = (r, gw')"
  shows "unserved jid gw'"
  using assms(4)
proof (cases rule: accept_cases)
  case (accepted gw1)
  have "trace_id_ok jid" using assms(1) by (simp add: unserved_def)
  from foreign_files [OF assms(2) this assms(3)]
  have other: "q \<in> {result_path jid, incoming_path jid} \<Longrightarrow> q \<noteq> incoming_path j" for q by auto
  have "foreign_job jid (new_job d payload j gw1)" using assms(2,3) by (simp add: foreign_job_def new_job_def)
  with accepted other show ?thesis
    using assms(1)
    by (intro unserved_frame [OF assms(1)]) (auto simp: gw_world_def q_put_def unserved_def process_ok_def)
qed (use assms(1) in simp)

lemma unserved_step:
  assumes "deployment_ok d" "later_step d jid gw gw'" "unserved jid gw"
  shows "unserved jid gw'"
  using assms(2)
proof cases
  case (later_alert header payload r)
  have "trace_id_ok (h_token (dp_host d) (gw_world gw))" using assms(1) by (simp add: deployment_ok_def)
  with later_alert assms(3) show ?thesis
    by (cases header) (auto simp: ingest_alert_def intro: unserved_accept split: if_splits)
next
  case (later_status j r1)
  with status_reads [of d j gw] assms(3) show ?thesis by simp
next
  case (later_search q limit r2)
  with search_reads [of d q limit gw] assms(3) show ?thesis by simp
next
  case (later_resume iid body r3)
  have ok: "process_ok (gw_process gw)" using assms(3) by (simp add: unserved_def)
  obtain b p where b: "build_multi_agent_graph (dp_host d) (dp_pg d) (dp_built d) None None (gw_process gw) = (b, p)"
    by (cases "build_multi_agent_graph (dp_host d) (dp_pg d) (dp_built d) None None (gw_process gw)")
  from build_without_dsn [OF ok _ b] later_resume(1) obtain g where g: "b = Inr g" "pr_store p (cg_saver g) = (\<lambda>_. None)"
    by (auto simp: gw_world_def)
  with b later_resume(2) have "gw' = gw\<lparr>gw_process := p\<rparr>" by (simp add: resume_incident_def)
  with build_ok [OF ok b] assms(3) show ?thesis by (simp add: unserved_def gw_world_def)
next
  case later_restart
  then obtain p where "lifespan_start d p = Inr gw'" "process_ok p" "files (pr_world p) = files (gw_world gw)"
    by (auto simp: restarts_to_def)
  with assms(3) show ?thesis
    by (auto simp: lifespan_start_def unserved_def gw_world_def q_empty_def split: option.splits)
qed (use assms(3) unserved_work unserved_cancel in auto)

lemma unserved_later:
  assumes "(later_step d jid)\<^sup>*\<^sup>* gw gw'" "deployment_ok d" "unserved jid gw"
  shows "unserved jid gw'"
  using assms by (induction rule: rtranclp_induct) (auto intro: unserved_step)

text \<open>A job that waits when the service is restarted is one of these.\<close>

lemma restarted_unserved:
  assumes "gateway_reaches d gw" "deployment_ok d" "job \<in> set (q_items (gw_queue gw))"
    and "files (gw_world gw) (result_path (job_id job)) = None"
    and "restarts_to d (snd (lifespan_shutdown gw)) gw'"
  shows "unserved (job_id job) gw'"
proof -
  have ready: "job_ready gw job"
    using gateway_reaches_inv [OF assms(1,2)] assms(3) by (simp add: gateway_inv_def)
  have "gw_world (snd (lifespan_shutdown gw)) = gw_world gw"
    by (simp add: lifespan_shutdown_def gw_world_def split: option.split)
  then obtain p where "lifespan_start d p = Inr gw'" "process_ok p" "files (pr_world p) = files (gw_world gw)"
    using assms(5) by (auto simp: restarts_to_def)
  with ready assms(4) show ?thesis
    by (auto simp: lifespan_start_def unserved_def gw_world_def q_empty_def job_ready_def split: option.splits)
qed

lemma waiting_job_lost:
  assumes "gateway_reaches d gw" "deployment_ok d" "job \<in> set (q_items (gw_queue gw))"
    and "files (gw_world gw) (result_path (job_id job)) = None"
    and "restarts_to d (snd (lifespan_shutdown gw)) gw'" "(later_step d (job_id job))\<^sup>*\<^sup>* gw' gw''"
  shows "fst (get_alert_status d (job_id job) gw'') = Inr (HttpOk 200
      \<lparr>as_job_id = job_id job, as_trace_id = job_id job, as_status = lit ''processing'', as_diagnosis = None,
       as_fix = None, as_report_path = None\<rparr>)"
  using unserved_later [OF assms(6,2) restarted_unserved [OF assms(1-5)]]
  by (intro status_processing) (simp_all add: unserved_def)

end
