(* ===== verification/PyRound.thy ===== *)
theory PyRound
  imports PyFloat PyExn
begin

text \<open>
  Rounding of floats to integers and to two digits, and the bounds that survive rounding: a
  quotient between two integers below \<open>2 ^ 53\<close> rounds to a float between them.  The benchmark
  reports rest on these.
\<close>

text \<open>\<^verbatim>\<open>int(x)\<close>: towards zero.\<close>

fun fl_trunc :: "pyfloat \<Rightarrow> int result" where
  "fl_trunc NaN = Inl (ValueError (lit ''cannot convert float NaN to integer''))"
| "fl_trunc (Inf s) = Inl (OtherError (lit ''OverflowError'') (lit ''cannot convert float infinity to integer''))"
| "fl_trunc (Fin s m e) = Inr (fl_signed s (fl_num (Fin s m e) div fl_den (Fin s m e)))"

text \<open>\<^verbatim>\<open>round(x)\<close>: to the nearest integer, ties to even.\<close>

fun fl_round :: "pyfloat \<Rightarrow> int result" where
  "fl_round NaN = Inl (ValueError (lit ''cannot convert float NaN to integer''))"
| "fl_round (Inf s) = Inl (OtherError (lit ''OverflowError'') (lit ''cannot convert float infinity to integer''))"
| "fl_round (Fin s m e) = Inr (fl_signed s (half_even_div (fl_num (Fin s m e)) (fl_den (Fin s m e))))"

text \<open>\<^verbatim>\<open>round(x, 2)\<close>: the nearest hundredth, read back as a float.\<close>

fun fl_round2 :: "pyfloat \<Rightarrow> pyfloat" where
  "fl_round2 (Fin s m e) = fl_of_ratio s (half_even_div (fl_num (Fin s m e) * 100) (fl_den (Fin s m e))) 100"
| "fl_round2 x = x"

text \<open>\<^verbatim>\<open>x / c\<close> for a positive integral float.\<close>

fun fl_div_nat :: "pyfloat \<Rightarrow> nat \<Rightarrow> pyfloat" where
  "fl_div_nat (Fin s m e) c = fl_of_ratio s (fl_num (Fin s m e)) (fl_den (Fin s m e) * c)"
| "fl_div_nat x c = x"

subsection \<open>Bounds\<close>

lemma bitlen_bounds: "n < 2 ^ bitlen n \<and> (0 < n \<longrightarrow> 2 ^ (bitlen n - 1) \<le> n)"
proof (induction n rule: bitlen.induct)
  case (1 n)
  show ?case
  proof (cases "n = 0")
    case True
    then show ?thesis by (simp add: bitlen.simps)
  next
    case False
    with 1 have ih: "n div 2 < 2 ^ bitlen (n div 2)" "0 < n div 2 \<longrightarrow> 2 ^ (bitlen (n div 2) - 1) \<le> n div 2"
      by auto
    have b: "bitlen n = Suc (bitlen (n div 2))" using False by (simp add: bitlen.simps)
    have "n < 2 ^ bitlen n" using ih(1) by (simp add: b)
    moreover have "2 ^ bitlen (n div 2) \<le> n"
    proof (cases "n div 2 = 0")
      case True
      then show ?thesis using False by (simp add: bitlen.simps)
    next
      case ne: False
      then have "bitlen (n div 2) = Suc (bitlen (n div 2 div 2))" by (simp add: bitlen.simps)
      with ih(2) ne have "2 ^ bitlen (n div 2) \<le> 2 * (n div 2)" by simp
      then show ?thesis by linarith
    qed
    ultimately show ?thesis by (simp add: b)
  qed
qed

lemma half_even_div_le:
  assumes "0 < d" "n \<le> k * d"
  shows "half_even_div n d \<le> k"
proof (cases "n div d < k")
  case True
  then show ?thesis using half_even_div_cases [of n d] by auto
next
  case False
  have "n div d \<le> k" using assms by (metis div_le_mono nonzero_mult_div_cancel_right not_gr_zero)
  with False have q: "n div d = k" by simp
  then have "n mod d = 0" using assms by (metis add_diff_cancel_left' diff_is_0_eq' div_mult_mod_eq le_zero_eq)
  with q assms(1) show ?thesis by (simp add: half_even_div_def)
qed

lemma half_even_div_at_least: "0 < d \<Longrightarrow> k * d \<le> n \<Longrightarrow> k \<le> half_even_div n d"
  using half_even_div_ge [of n d] by (metis div_le_mono nonzero_mult_div_cancel_right not_gr_zero order_trans)

text \<open>Below \<open>2 ^ 53\<close> the unit in the last place is at most one.\<close>

lemma ulp_exp_nonpos:
  assumes "0 < d" "n < 2 ^ 53 * d"
  shows "ulp_exp n d \<le> 0"
proof -
  have "int (bitlen n) - int (bitlen d) \<le> 53"
  proof (rule ccontr)
    assume "\<not> int (bitlen n) - int (bitlen d) \<le> 53"
    then have le: "bitlen d + 53 \<le> bitlen n - 1" "0 < bitlen n" by auto
    then have "0 < n" by (metis bitlen.simps less_irrefl neq0_conv)
    with bitlen_bounds [of n] have "2 ^ (bitlen n - 1) \<le> n" by blast
    moreover have "(2 :: nat) ^ (bitlen d + 53) \<le> 2 ^ (bitlen n - 1)" using le by (intro power_increasing) auto
    ultimately have "2 ^ bitlen d * 2 ^ 53 \<le> n" by (simp add: power_add)
    moreover have "d * 2 ^ 53 \<le> 2 ^ bitlen d * 2 ^ 53"
      using bitlen_bounds [of d] by (intro mult_le_mono1) simp
    ultimately have "2 ^ 53 * d \<le> n" by (metis mult.commute order_trans)
    with assms(2) show False by simp
  qed
  moreover have "ulp_exp n d \<le> 0" if "int (bitlen n) - int (bitlen d) = 53"
    using that assms by (simp add: ulp_exp_def Let_def mult.commute)
  ultimately show ?thesis by (cases "int (bitlen n) - int (bitlen d) = 53") (auto simp: ulp_exp_def Let_def)
qed

lemma scaled_eq: "of_nat m * 2 powi (- int k) = (of_nat m / 2 ^ k :: rat)"
  by (simp add: power_int_minus divide_inverse)

lemma scaled_le: "m \<le> h * 2 ^ k \<Longrightarrow> (of_nat m * 2 powi (- int k) :: rat) \<le> of_nat h"
proof -
  assume "m \<le> h * 2 ^ k"
  then have "(of_nat m :: rat) \<le> of_nat (h * 2 ^ k)" by (simp only: of_nat_le_iff)
  then show ?thesis by (simp add: scaled_eq pos_divide_le_eq)
qed

lemma scaled_ge: "h * 2 ^ k \<le> m \<Longrightarrow> of_nat h \<le> (of_nat m * 2 powi (- int k) :: rat)"
proof -
  assume "h * 2 ^ k \<le> m"
  then have "(of_nat (h * 2 ^ k) :: rat) \<le> of_nat m" by (simp only: of_nat_le_iff)
  then show ?thesis by (simp add: scaled_eq pos_le_divide_eq)
qed

text \<open>A quotient between two integers rounds to a float between them.\<close>

lemma fl_of_ratio_between:
  assumes "0 < d" "lo * d \<le> n" "n \<le> hi * d" "hi < 2 ^ 53"
  obtains m e where "fl_of_ratio s n d = Fin s m e"
    "of_nat lo \<le> (of_nat m * 2 powi e :: rat)" "(of_nat m * 2 powi e :: rat) \<le> of_nat hi"
proof -
  define k where "k = nat (- ulp_exp n d)"
  have "n < 2 ^ 53 * d" using assms by (meson le_less_trans mult_less_mono1)
  then have e0: "ulp_exp n d \<le> 0" using assms(1) by (rule ulp_exp_nonpos [rotated])
  then have ek: "ulp_exp n d = - int k" by (simp add: k_def)
  define m0 where "m0 = half_even_div (n * 2 ^ k) d"
  have sc: "scale_div n d (ulp_exp n d) = m0" using e0 by (simp add: scale_div_def m0_def k_def)
  have "m0 \<le> hi * 2 ^ k"
    unfolding m0_def using assms(1,3) by (intro half_even_div_le) (auto simp: mult.assoc mult.left_commute)
  then have hi: "(of_nat m0 * 2 powi (- int k) :: rat) \<le> of_nat hi"
    by (rule scaled_le)
  have "lo * 2 ^ k \<le> m0"
    unfolding m0_def using assms(1,2) by (intro half_even_div_at_least) (auto simp: mult.assoc mult.commute mult.left_commute)
  then have lo: "of_nat lo \<le> (of_nat m0 * 2 powi (- int k) :: rat)"
    by (rule scaled_ge)
  consider (zero) "m0 = 0" | (carry) "m0 = 2 ^ 53" | (plain) "m0 \<noteq> 0" "m0 \<noteq> 2 ^ 53" by blast
  then show ?thesis
  proof cases
    case zero
    with lo hi sc show ?thesis by (intro that [of 0 0]) (simp_all add: fl_of_ratio_def Let_def)
  next
    case carry
    have "(of_nat (2 ^ 52) * 2 powi (- int k + 1) :: rat) = of_nat m0 * 2 powi (- int k)"
      using power_int_add [of "2 :: rat" "- int k" 1] by (simp add: carry)
    with lo hi sc carry ek show ?thesis
      by (intro that [of "2 ^ 52" "- int k + 1"]) (simp_all add: fl_of_ratio_def Let_def)
  next
    case plain
    with lo hi sc ek show ?thesis by (intro that [of m0 "- int k"]) (simp_all add: fl_of_ratio_def Let_def)
  qed
qed

definition fl_between :: "rat \<Rightarrow> rat \<Rightarrow> pyfloat \<Rightarrow> bool" where
  "fl_between lo hi x \<longleftrightarrow> (\<exists>m e. x = Fin False m e) \<and> lo \<le> fl_val x \<and> fl_val x \<le> hi"

lemma fl_betweenE:
  assumes "fl_between lo hi x"
  obtains m e where "x = Fin False m e" "lo \<le> of_nat m * 2 powi e" "of_nat m * 2 powi e \<le> hi"
  using assms by (auto simp: fl_between_def)

lemma powi_ratio: "of_nat (a * 2 ^ nat e) / of_nat (2 ^ nat (- e)) = (of_nat a * 2 powi e :: rat)"
proof (cases "0 \<le> e")
  case True
  then have "nat (- e) = 0" by simp
  with True show ?thesis by (simp add: power_int_def)
next
  case False
  then have "nat e = 0" by simp
  with False show ?thesis by (simp add: power_int_def field_simps)
qed

lemma ratio_between:
  assumes "0 < d" "of_nat lo \<le> (of_nat n / of_nat d :: rat)" "(of_nat n / of_nat d :: rat) \<le> of_nat hi" "hi < 2 ^ 53"
  shows "fl_between (of_nat lo) (of_nat hi) (fl_of_ratio False n d)"
proof -
  have "(of_nat (lo * d) :: rat) \<le> of_nat n" "(of_nat n :: rat) \<le> of_nat (hi * d)"
    using assms(1-3) by (simp_all add: field_simps)
  then have "lo * d \<le> n" "n \<le> hi * d" by (simp_all only: of_nat_le_iff)
  from fl_of_ratio_between [OF assms(1) this assms(4), of False] obtain m e where
    "fl_of_ratio False n d = Fin False m e" "of_nat lo \<le> (of_nat m * 2 powi e :: rat)"
    "(of_nat m * 2 powi e :: rat) \<le> of_nat hi" .
  then show ?thesis by (simp add: fl_between_def)
qed

lemma fl_of_int_between: "n < 2 ^ 53 \<Longrightarrow> fl_between (of_nat n) (of_nat n) (fl_of_int (int n))"
  using ratio_between [of 1 n n n] by (simp add: fl_of_int_def)

lemma fl_mul_between:
  assumes "fl_between (of_nat a) (of_nat b) x" "fl_between (of_nat c) (of_nat d) y" "b * d < 2 ^ 53"
  shows "fl_between (of_nat (a * c)) (of_nat (b * d)) (fl_mul x y)"
proof -
  obtain m e where x: "x = Fin False m e" "of_nat a \<le> of_nat m * (2 powi e :: rat)" "of_nat m * (2 powi e :: rat) \<le> of_nat b"
    using assms(1) by (rule fl_betweenE)
  obtain m' e' where y: "y = Fin False m' e'" "of_nat c \<le> of_nat m' * (2 powi e' :: rat)" "of_nat m' * (2 powi e' :: rat) \<le> of_nat d"
    using assms(2) by (rule fl_betweenE)
  have v: "(of_nat (m * m' * 2 ^ nat (e + e')) / of_nat (2 ^ nat (- (e + e'))) :: rat) =
      (of_nat m * 2 powi e) * (of_nat m' * 2 powi e')"
    unfolding powi_ratio by (simp add: power_int_add)
  have "of_nat (a * c) \<le> (of_nat m * 2 powi e) * (of_nat m' * 2 powi e' :: rat)"
    unfolding of_nat_mult by (intro mult_mono x y) auto
  moreover have "(of_nat m * 2 powi e) * (of_nat m' * 2 powi e' :: rat) \<le> of_nat (b * d)"
    unfolding of_nat_mult using x y by (intro mult_mono) auto
  ultimately have "fl_between (of_nat (a * c)) (of_nat (b * d))
      (fl_of_ratio False (m * m' * 2 ^ nat (e + e')) (2 ^ nat (- (e + e'))))"
    using assms(3) by (intro ratio_between) (simp_all only: v, simp)
  then show ?thesis by (simp add: x(1) y(1))
qed

lemma fl_div_nat_between:
  assumes "fl_between (of_nat a) (of_nat b) x" "0 < c" "lo * c \<le> a" "b \<le> hi * c" "hi < 2 ^ 53"
  shows "fl_between (of_nat lo) (of_nat hi) (fl_div_nat x c)"
proof -
  obtain m e where x: "x = Fin False m e" "of_nat a \<le> of_nat m * (2 powi e :: rat)" "of_nat m * (2 powi e :: rat) \<le> of_nat b"
    using assms(1) by (rule fl_betweenE)
  have v: "(of_nat (fl_num x) / of_nat (fl_den x * c) :: rat) = (of_nat m * 2 powi e) / of_nat c"
    unfolding x(1) fl_num.simps fl_den.simps of_nat_mult [of _ c] powi_ratio [symmetric] by simp
  have "(of_nat (lo * c) :: rat) \<le> of_nat a" "(of_nat b :: rat) \<le> of_nat (hi * c)"
    using assms(3,4) by (simp_all only: of_nat_le_iff)
  with x(2,3) have "of_nat lo * of_nat c \<le> of_nat m * (2 powi e :: rat)" "of_nat m * (2 powi e :: rat) \<le> of_nat hi * of_nat c"
    by simp_all
  then have "of_nat lo \<le> (of_nat m * 2 powi e) / (of_nat c :: rat)" "(of_nat m * 2 powi e) / (of_nat c :: rat) \<le> of_nat hi"
    using assms(2) by (simp_all add: pos_le_divide_eq pos_divide_le_eq)
  then have "of_nat lo \<le> (of_nat (fl_num x) / of_nat (fl_den x * c) :: rat)"
    "(of_nat (fl_num x) / of_nat (fl_den x * c) :: rat) \<le> of_nat hi" by (simp_all only: v)
  moreover have "0 < fl_den x * c" using assms(2) by (simp add: x(1))
  ultimately have "fl_between (of_nat lo) (of_nat hi) (fl_of_ratio False (fl_num x) (fl_den x * c))"
    using assms(5) by (intro ratio_between)
  then show ?thesis by (simp add: x(1))
qed

lemma fl_add_val:
  assumes "fl_signed s (m * 2 ^ nat (e - min e e')) + fl_signed s' (m' * 2 ^ nat (e' - min e e')) = c"
  shows "of_int c * 2 powi (min e e') = fl_val (Fin s m e) + fl_val (Fin s' m' e')"
proof -
  have p: "2 ^ nat (e - min e e') * 2 powi (min e e') = (2 powi e :: rat)"
    "2 ^ nat (e' - min e e') * 2 powi (min e e') = (2 powi e' :: rat)"
    by (simp_all add: power_int_of_nat [symmetric] power_int_add [symmetric])
  have "of_int c = (if s then -1 else 1) * of_nat m * 2 ^ nat (e - min e e') +
      (if s' then -1 else 1) * of_nat m' * (2 ^ nat (e' - min e e') :: rat)"
    by (auto simp flip: assms)
  then show ?thesis by (simp add: distrib_right mult.assoc p)
qed

lemma fl_add_between:
  assumes "x = Fin s m e" "y = Fin s' m' e'" "of_nat lo \<le> fl_val x + fl_val y" "fl_val x + fl_val y \<le> of_nat hi"
    "hi < 2 ^ 53" "\<not> (s \<and> s')"
  shows "fl_between (of_nat lo) (of_nat hi) (fl_add x y)"
proof -
  define f where "f = min e e'"
  define c where "c = fl_signed s (m * 2 ^ nat (e - f)) + fl_signed s' (m' * 2 ^ nat (e' - f))"
  have v: "of_int c * 2 powi f = fl_val x + fl_val y"
    using fl_add_val [of s m e e' s' m' c] by (simp add: c_def f_def assms(1,2))
  have add: "fl_add x y = (if c = 0 then Fin (s \<and> s') 0 0
      else fl_of_ratio (c < 0) (nat \<bar>c\<bar> * 2 ^ nat f) (2 ^ nat (- f)))"
    by (simp add: assms(1,2) Let_def c_def f_def)
  have "0 \<le> of_int c * (2 powi f :: rat)" using v assms(3) by (metis of_nat_0_le_iff order_trans)
  moreover have "0 < (2 powi f :: rat)" by simp
  ultimately have pos: "0 \<le> c" by (simp add: zero_le_mult_iff)
  show ?thesis
  proof (cases "c = 0")
    case True
    with v assms(3,4,6) add show ?thesis by (simp add: fl_between_def)
  next
    case False
    have "of_nat (nat \<bar>c\<bar>) = (of_int c :: rat)" using pos by simp
    then have "(of_nat (nat \<bar>c\<bar> * 2 ^ nat f) / of_nat (2 ^ nat (- f)) :: rat) = fl_val x + fl_val y"
      unfolding powi_ratio v [symmetric] by simp
    with assms(3-5) have "fl_between (of_nat lo) (of_nat hi) (fl_of_ratio False (nat \<bar>c\<bar> * 2 ^ nat f) (2 ^ nat (- f)))"
      by (intro ratio_between) simp_all
    with False pos add show ?thesis by simp
  qed
qed

text \<open>Rounding and truncation stay between.\<close>

lemma fl_num_den:
  assumes "fl_between (of_nat lo) (of_nat hi) x"
  shows "lo * fl_den x \<le> fl_num x" "fl_num x \<le> hi * fl_den x" "0 < fl_den x"
proof -
  obtain m e where x: "x = Fin False m e" "of_nat lo \<le> of_nat m * (2 powi e :: rat)" "of_nat m * (2 powi e :: rat) \<le> of_nat hi"
    using assms by (rule fl_betweenE)
  show "0 < fl_den x" by (simp add: x(1))
  have v: "(of_nat (fl_num x) / of_nat (fl_den x) :: rat) = of_nat m * 2 powi e"
    unfolding x(1) fl_num.simps fl_den.simps by (rule powi_ratio)
  have "of_nat lo \<le> (of_nat (fl_num x) / of_nat (fl_den x) :: rat)"
    "(of_nat (fl_num x) / of_nat (fl_den x) :: rat) \<le> of_nat hi"
    unfolding v by (rule x(2), rule x(3))
  moreover have "(0 :: rat) < of_nat (fl_den x)" using \<open>0 < fl_den x\<close> by (simp only: of_nat_0_less_iff)
  ultimately have "(of_nat (lo * fl_den x) :: rat) \<le> of_nat (fl_num x)"
    "(of_nat (fl_num x) :: rat) \<le> of_nat (hi * fl_den x)"
    by (simp_all only: pos_le_divide_eq pos_divide_le_eq of_nat_mult)
  then show "lo * fl_den x \<le> fl_num x" "fl_num x \<le> hi * fl_den x" by (simp_all only: of_nat_le_iff)
qed

lemma fl_round_between:
  assumes "fl_between (of_nat lo) (of_nat hi) x"
  shows "\<exists>n. fl_round x = Inr (int n) \<and> lo \<le> n \<and> n \<le> hi"
proof -
  obtain m e where x: "x = Fin False m e" using assms by (rule fl_betweenE)
  note nd = fl_num_den [OF assms]
  show ?thesis
    using half_even_div_le [OF nd(3) nd(2)] half_even_div_at_least [OF nd(3) nd(1)]
    by (simp add: x)
qed

lemma fl_trunc_between:
  assumes "fl_between (of_nat lo) (of_nat hi) x"
  shows "\<exists>n. fl_trunc x = Inr (int n) \<and> lo \<le> n \<and> n \<le> hi \<and> of_nat n \<le> fl_val x \<and> fl_val x < of_nat (Suc n)"
proof -
  obtain m e where x: "x = Fin False m e" using assms by (rule fl_betweenE)
  note nd = fl_num_den [OF assms]
  let ?n = "fl_num x div fl_den x"
  have v: "fl_val x = of_nat (fl_num x) / of_nat (fl_den x)"
    unfolding x fl_num.simps fl_den.simps by (simp only: powi_ratio) simp
  have "fl_num x < Suc ?n * fl_den x" "?n * fl_den x \<le> fl_num x"
    using dividend_less_div_times [OF nd(3), of "fl_num x"] by (simp_all add: algebra_simps)
  then have "(of_nat (fl_num x) :: rat) < of_nat (Suc ?n * fl_den x)" "(of_nat (?n * fl_den x) :: rat) \<le> of_nat (fl_num x)"
    by (simp_all only: of_nat_less_iff of_nat_le_iff)
  with nd(3) have "of_nat ?n \<le> fl_val x" "fl_val x < of_nat (Suc ?n)"
    unfolding v by (simp_all only: pos_le_divide_eq pos_divide_less_eq of_nat_0_less_iff of_nat_mult)
  moreover have "lo \<le> ?n" "?n \<le> hi"
    using nd by (metis div_le_mono nonzero_mult_div_cancel_right not_gr_zero)+
  moreover have "fl_trunc x = Inr (int ?n)" by (simp add: x)
  ultimately show ?thesis by blast
qed

lemma fl_round2_unit:
  assumes "fl_between 0 1 x"
  shows "fl_between 0 1 (fl_round2 x)"
proof -
  obtain m e where x: "x = Fin False m e" using assms by (rule fl_betweenE)
  have "fl_between (of_nat 0) (of_nat 1) x" using assms by simp
  note nd = fl_num_den [OF this]
  have "half_even_div (fl_num x * 100) (fl_den x) \<le> 100"
    using nd by (intro half_even_div_le) auto
  then have "(of_nat (half_even_div (fl_num x * 100) (fl_den x)) / of_nat 100 :: rat) \<le> of_nat 1"
    by (simp add: pos_divide_le_eq)
  then have "fl_between (of_nat 0) (of_nat 1) (fl_of_ratio False (half_even_div (fl_num x * 100) (fl_den x)) 100)"
    by (intro ratio_between) simp_all
  then show ?thesis by (simp add: x)
qed

text \<open>A share of a positive number is between nought and one.\<close>

lemma fl_share_unit:
  assumes "r \<le> n" "0 < n"
  shows "fl_between 0 1 (fl_round2 (fl_div_int (int r) n))"
proof -
  have "fl_between (of_nat 0) (of_nat 1) (fl_of_ratio False r n)"
    using assms by (intro ratio_between) (simp_all add: pos_divide_le_eq)
  then show ?thesis using fl_round2_unit by (simp add: fl_div_int_def)
qed

subsection \<open>Thresholds\<close>

text \<open>Below \<open>2 ^ (53 - k)\<close> the unit in the last place is at most \<open>2 ^ - k\<close>.\<close>

lemma ulp_exp_le:
  assumes "0 < d" "0 < n" "n * 2 ^ k < 2 ^ 53 * d" "k \<le> 1074"
  shows "ulp_exp n d \<le> - int k"
proof -
  have le: "int (bitlen n) - int (bitlen d) - 53 \<le> - int k"
  proof (rule ccontr)
    assume "\<not> int (bitlen n) - int (bitlen d) - 53 \<le> - int k"
    then have b: "bitlen d + 53 < bitlen n + k" by linarith
    have "0 < bitlen n" using assms(2) by (simp add: bitlen.simps)
    moreover have "2 ^ (bitlen n - 1) \<le> n" using bitlen_bounds [of n] assms(2) by blast
    then have "(2 :: nat) ^ (bitlen n - 1 + k) \<le> n * 2 ^ k" by (simp add: power_add)
    moreover have "(2 :: nat) ^ (bitlen d + 53) \<le> 2 ^ (bitlen n - 1 + k)"
      using b \<open>0 < bitlen n\<close> by (intro power_increasing) linarith+
    moreover have "2 ^ 53 * d \<le> 2 ^ (bitlen d + 53)"
      using bitlen_bounds [of d] by (simp add: power_add)
    ultimately show False using assms(3) by linarith
  qed
  show ?thesis
  proof (cases "int (bitlen n) - int (bitlen d) - 53 = - int k")
    case True
    then have "\<not> d * 2 ^ nat (- int k) * 2 ^ 53 \<le> n * 2 ^ nat (- (- int k))" using assms(3) by simp
    with True assms(4) show ?thesis by (simp add: ulp_exp_def Let_def)
  next
    case False
    with le assms(4) show ?thesis by (auto simp: ulp_exp_def Let_def)
  qed
qed

text \<open>A quotient between two multiples of \<open>2 ^ - k\<close> rounds to a float between them.\<close>

lemma fl_of_ratio_grid:
  assumes "0 < d" "lo * d \<le> n * 2 ^ k" "n * 2 ^ k \<le> hi * d" "hi < 2 ^ 53" "k \<le> 1074"
  shows "\<exists>m e. fl_of_ratio s n d = Fin s m e \<and>
    of_nat lo \<le> (of_nat m * 2 powi e * 2 ^ k :: rat) \<and> (of_nat m * 2 powi e * 2 ^ k :: rat) \<le> of_nat hi"
proof (cases "n = 0")
  case True
  then have "lo = 0" using assms(1,2) by simp
  with True show ?thesis
    by (intro exI [of _ 0], auto simp add: fl_of_ratio_def scale_div_def half_even_div_def Let_def)
next
  case False
  define j where "j = nat (- ulp_exp n d)"
  have "n * 2 ^ k < 2 ^ 53 * d" using assms(1,3,4) by (meson le_less_trans mult_less_mono1)
  then have e0: "ulp_exp n d \<le> - int k" using assms(1,5) False by (intro ulp_exp_le) auto
  then have ek: "ulp_exp n d = - int j" and jk: "k \<le> j" by (simp_all add: j_def)
  define i where "i = j - k"
  have j: "j = k + i" using jk by (simp add: i_def)
  define m0 where "m0 = half_even_div (n * 2 ^ j) d"
  have sc: "scale_div n d (ulp_exp n d) = m0" by (simp add: ek scale_div_def m0_def)
  have "m0 \<le> hi * 2 ^ i"
    unfolding m0_def using assms(1) mult_le_mono1 [OF assms(3), of "2 ^ i"]
    by (intro half_even_div_le) (simp_all add: j power_add ac_simps)
  then have "(of_nat m0 :: rat) \<le> of_nat (hi * 2 ^ i)" by (simp only: of_nat_le_iff)
  then have hi: "of_nat m0 * 2 powi (- int j) * 2 ^ k \<le> (of_nat hi :: rat)"
    unfolding scaled_eq j by (simp add: power_add field_simps)
  have "lo * 2 ^ i \<le> m0"
    unfolding m0_def using assms(1) mult_le_mono1 [OF assms(2), of "2 ^ i"]
    by (intro half_even_div_at_least) (simp_all add: j power_add ac_simps)
  then have "(of_nat (lo * 2 ^ i) :: rat) \<le> of_nat m0" by (simp only: of_nat_le_iff)
  then have lo: "of_nat lo \<le> (of_nat m0 * 2 powi (- int j) * 2 ^ k :: rat)"
    unfolding scaled_eq j by (simp add: power_add field_simps)
  consider (zero) "m0 = 0" | (carry) "m0 = 2 ^ 53" | (plain) "m0 \<noteq> 0" "m0 \<noteq> 2 ^ 53" by blast
  then show ?thesis
  proof cases
    case zero
    with lo hi sc show ?thesis by (intro exI [of _ 0]) (simp add: fl_of_ratio_def Let_def)
  next
    case carry
    have fl: "fl_of_ratio s n d = Fin s (2 ^ 52) (- int j + 1)"
      using sc carry ek by (simp add: fl_of_ratio_def Let_def)
    have "(of_nat (2 ^ 52) * 2 powi (- int j + 1) :: rat) = of_nat m0 * 2 powi (- int j)"
      using power_int_add [of "2 :: rat" "- int j" 1] by (simp add: carry)
    with lo hi have "of_nat lo \<le> (of_nat (2 ^ 52) * 2 powi (- int j + 1) * 2 ^ k :: rat) \<and>
        (of_nat (2 ^ 52) * 2 powi (- int j + 1) * 2 ^ k :: rat) \<le> of_nat hi" by (simp only: simp_thms)
    with fl show ?thesis by blast
  next
    case plain
    then have "fl_of_ratio s n d = Fin s m0 (- int j)" using sc ek by (simp add: fl_of_ratio_def Let_def)
    with lo hi show ?thesis by blast
  qed
qed

text \<open>The threshold 0.70 on a share of at most \<open>2 ^ 48\<close> cases decides exactly.\<close>

lemma seven_tenths: "fl_of_dec False 70 (-2) = Fin False 6305039478318694 (-53)"
  by (simp add: fl_of_dec_def fl_of_ratio_def ulp_exp_def scale_div_def half_even_div_def bitlen.simps Let_def)

lemma share_reaches_threshold:
  assumes "r \<le> n" "0 < n" "n \<le> 2 ^ 48"
  shows "fl_le (fl_of_dec False 70 (-2)) (fl_div_int (int r) n) \<longleftrightarrow> 7 * n \<le> 10 * r"
proof -
  let ?C = "6305039478318694 :: nat"
  have le: "fl_le (fl_of_dec False 70 (-2)) (Fin False m e) \<longleftrightarrow> of_nat ?C \<le> (of_nat m * 2 powi e * 2 ^ 53 :: rat)" for m e
    unfolding seven_tenths by (simp add: power_int_minus field_simps)
  have div: "fl_div_int (int r) n = fl_of_ratio False r n" by (simp add: fl_div_int_def)
  show ?thesis
  proof (cases "7 * n \<le> 10 * r")
    case True
    have "?C * n \<le> r * 2 ^ 53" using True by simp
    have "\<exists>m e. fl_of_ratio False r n = Fin False m e \<and> of_nat ?C \<le> (of_nat m * 2 powi e * 2 ^ 53 :: rat)"
    proof (cases "r = n")
      case True
      from fl_of_ratio_between [OF assms(2), of 1 n 1 False] obtain m e where
        "fl_of_ratio False n n = Fin False m e" "(of_nat m * 2 powi e :: rat) = 1" by auto
      with True show ?thesis by (intro exI [of _ m] exI [of _ e]) simp
    next
      case False
      then have "r * 2 ^ 53 \<le> (2 ^ 53 - 1) * n" using assms by simp
      with fl_of_ratio_grid [OF assms(2) \<open>?C * n \<le> r * 2 ^ 53\<close>, of "2 ^ 53 - 1" False] show ?thesis by auto
    qed
    with True le div show ?thesis by auto
  next
    case False
    then have "r * 2 ^ 53 \<le> (?C - 1) * n" using assms by simp
    from fl_of_ratio_grid [of n 0 r 53 "?C - 1" False] this assms(2) obtain m e where
      "fl_of_ratio False r n = Fin False m e" "(of_nat m * 2 powi e * 2 ^ 53 :: rat) \<le> of_nat (?C - 1)" by auto
    with False le div show ?thesis by (auto simp: not_le intro: le_less_trans)
  qed
qed

end
