(* ===== verification/Benchmark.thy ===== *)
theory Benchmark
  imports Queue PyRound
begin

text \<open>
  \<^verbatim>\<open>autosentinel/benchmark.py\<close>: the scenario and result schemas, the loader, and the smoke
  runner.  The YAML reader with its type conversions is a parameter of the loader; the field
  checks are defined.  The runner catches every exception of a scenario.

  The laws: a scenario counts as resolved only if a container ran its code and exited with 0;
  the report counts every scenario once, its rate is between 0 and 1, and an empty set of
  scenarios divides by zero.
\<close>

subsection \<open>Schemas\<close>

record scenario =
  sc_id :: ustr
  sc_category :: ustr
  sc_log_path :: ustr
  sc_classification :: ustr
  sc_action :: ustr
  sc_verdict :: ustr
  sc_notes :: ustr
  sc_labeled_by :: ustr
  sc_labeled_at :: ustr

definition scenario_categories :: "ustr list" where
  "scenario_categories = [lit ''CODE'', lit ''INFRA'', lit ''SECURITY'', lit ''CONFIG'']"

definition scenario_verdicts :: "ustr list" where
  "scenario_verdicts = [lit ''SAFE'', lit ''CAUTION'', lit ''HIGH_RISK'']"

definition is_lower_az :: "nat \<Rightarrow> bool" where
  "is_lower_az c \<longleftrightarrow> 97 \<le> c \<and> c \<le> 122"

definition underscore :: nat where "underscore = 95"

text \<open>
  The pattern of scenario ids; \<open>digit\<close> is the decimal digit class \<^verbatim>\<open>\d\<close> of the pattern engine,
  which is not confined to ASCII.
\<close>

definition scenario_id_ok :: "(nat \<Rightarrow> bool) \<Rightarrow> ustr \<Rightarrow> bool" where
  "scenario_id_ok digit s \<longleftrightarrow>
     3 \<le> length s \<and> list_all digit (take 3 s) \<and>
     (case drop 3 s of
        [] \<Rightarrow> False
      | c # t \<Rightarrow>
          c = underscore \<and> takeWhile is_lower_az t \<noteq> [] \<and>
          (case dropWhile is_lower_az t of
             [] \<Rightarrow> False
           | c' # u \<Rightarrow>
               c' = underscore \<and> u \<noteq> [] \<and>
               list_all (\<lambda>x. is_lower_az x \<or> is_digit x \<or> x = underscore) u))"

definition scenario_errors :: "(nat \<Rightarrow> bool) \<Rightarrow> scenario \<Rightarrow> ustr list" where
  "scenario_errors digit sc =
     (if scenario_id_ok digit (sc_id sc) then [] else [lit ''scenario_id'']) @
     (if sc_category sc \<in> set scenario_categories then [] else [lit ''category'']) @
     (if sc_verdict sc \<in> set scenario_verdicts then [] else [lit ''expected_security_verdict'']) @
     (if sc_labeled_by sc \<noteq> [] then [] else [lit ''human_labeled_by''])"

definition validate_scenario :: "(nat \<Rightarrow> bool) \<Rightarrow> scenario \<Rightarrow> scenario result" where
  "validate_scenario digit sc =
     (if scenario_errors digit sc = [] then Inr sc
      else Inl (ValidationError (lit ''BenchmarkScenario'') (scenario_errors digit sc)))"

record benchmark_result =
  br_scenario_id :: ustr
  br_classification :: ustr
  br_resolution :: ustr
  br_passed :: bool
  br_latency_ms :: int
  br_cost :: decimal
  br_currency :: ustr
  br_trace_id :: ustr
  br_error :: "ustr option"

definition result_errors :: "benchmark_result \<Rightarrow> ustr list" where
  "result_errors r =
     (if 0 \<le> br_latency_ms r then [] else [lit ''latency_ms'']) @
     (if 0 \<le> dec_coeff (br_cost r) then [] else [lit ''cost''])"

definition mk_benchmark_result :: "benchmark_result \<Rightarrow> benchmark_result result" where
  "mk_benchmark_result r =
     (if result_errors r = [] then Inr r
      else Inl (ValidationError (lit ''BenchmarkResult'') (result_errors r)))"

subsection \<open>Loading\<close>

record scenario_source =
  src_digit :: "nat \<Rightarrow> bool"
  src_default_dir :: ustr
  src_listing :: "ustr \<Rightarrow> world \<Rightarrow> ustr list"
  src_yaml :: "ustr \<Rightarrow> scenario result"  \<comment> \<open>\<^verbatim>\<open>yaml.safe_load\<close> and the conversion to the field types\<close>

definition load_scenario :: "host \<Rightarrow> scenario_source \<Rightarrow> ustr \<Rightarrow> (world, scenario) io" where
  "load_scenario h src path =
     io_bind (read_text h path) (\<lambda>raw.
       io_lift (res_bind (src_yaml src raw) (validate_scenario (src_digit src))))"

fun io_each :: "('a \<Rightarrow> ('w, 'b) io) \<Rightarrow> 'a list \<Rightarrow> ('w, 'b list) io" where
  "io_each f [] = io_return []"
| "io_each f (x # xs) = io_bind (f x) (\<lambda>y. io_bind (io_each f xs) (\<lambda>ys. io_return (y # ys)))"

definition load_scenarios :: "host \<Rightarrow> scenario_source \<Rightarrow> ustr option \<Rightarrow> (world, scenario list) io" where
  "load_scenarios h src scenarios_dir = (\<lambda>w.
     let dir = or_else scenarios_dir (src_default_dir src) in
     io_each (\<lambda>name. load_scenario h src (path_join dir name))
       (sort (filter (suffix (lit ''.yaml'')) (src_listing src dir w))) w)"

subsection \<open>One scenario\<close>

record detail =
  dt_resolved :: bool
  dt_duration_ms :: nat
  dt_agent_trace :: "ustr list"
  dt_security_verdict :: "ustr option"
  dt_routing_decision :: "ustr option"
  dt_interrupted :: bool

text \<open>The report is there and the sandbox says success.\<close>

definition verified_fix :: "agent_state \<Rightarrow> bool" where
  "verified_fix s \<longleftrightarrow>
     st_report_text s \<noteq> None \<and> map_option ex_status (st_execution_result s) = Some ExSuccess"

text \<open>
  The body of the \<^verbatim>\<open>try\<close>: the final state, unless an exception was swallowed, and whether the
  run was interrupted.
\<close>

definition invoke_and_approve ::
  "deployment \<Rightarrow> compiled \<Rightarrow> ustr \<Rightarrow> agent_state \<Rightarrow> process \<Rightarrow> (exn + agent_state) \<times> bool \<times> process" where
  "invoke_and_approve d g tid s p =
     (let (t, p1) = compiled_invoke (dp_host d) g tid s p in
      case th_status t of
        Failed n e \<Rightarrow> (Inl e, False, p1)
      | Suspended \<Rightarrow>
          (let (t', p2) = compiled_resume (dp_host d) (dp_idle d) g tid (JStr (lit ''approved'')) p1 in
           case th_status t' of
             Failed n e \<Rightarrow> (Inl e, True, p2)
           | _ \<Rightarrow> (Inr (th_state t'), True, p2))
      | _ \<Rightarrow> (Inr (th_state t), False, p1))"

definition run_v2_detail :: "deployment \<Rightarrow> scenario \<Rightarrow> process \<Rightarrow> detail \<times> process" where
  "run_v2_detail d sc p =
     (let (r, interrupted, p') =
        (case build_multi_agent_graph (dp_host d) (dp_pg d) (dp_built d) None None p of
           (Inl e, p1) \<Rightarrow> (Inl e, False, p1)
         | (Inr g, p1) \<Rightarrow>
             invoke_and_approve d g (lit ''benchmark-'' @ sc_id sc @ lit ''-'' @ dp_uuid d p1)
               (initial_state (path_str (sc_log_path sc)) None) p1);
          final = (case r of Inl e \<Rightarrow> None | Inr s \<Rightarrow> Some s)
      in (\<lparr>dt_resolved = (case final of None \<Rightarrow> False | Some s \<Rightarrow> verified_fix s),
           dt_duration_ms = h_elapsed (dp_host d) (pr_world p) (pr_world p'),
           dt_agent_trace = (case final of None \<Rightarrow> [] | Some s \<Rightarrow> st_agent_trace s),
           dt_security_verdict = (case final of None \<Rightarrow> None | Some s \<Rightarrow> st_security_verdict s),
           dt_routing_decision = (case final of None \<Rightarrow> None | Some s \<Rightarrow> st_routing_decision s),
           dt_interrupted = interrupted\<rparr>, p'))"

subsection \<open>The report\<close>

fun run_details :: "deployment \<Rightarrow> scenario list \<Rightarrow> process \<Rightarrow> detail list \<times> process" where
  "run_details d [] p = ([], p)"
| "run_details d (sc # scs) p =
     (let (x, p1) = run_v2_detail d sc p; (xs, p2) = run_details d scs p1 in (x # xs, p2))"

definition zero_division :: exn where
  "zero_division = ZeroDivisionError (lit ''division by zero'')"

definition int_div :: "int \<Rightarrow> nat \<Rightarrow> pyfloat result" where
  "int_div a b = (if b = 0 then Inl zero_division else Inr (fl_div_int a b))"

definition detail_json :: "scenario \<times> detail \<Rightarrow> json" where
  "detail_json = (\<lambda>(sc, x). JObj
     [(lit ''id'', JStr (sc_id sc)), (lit ''category'', JStr (sc_category sc)),
      (lit ''resolved'', JBool (dt_resolved x)), (lit ''duration_ms'', JInt (int (dt_duration_ms x))),
      (lit ''agent_trace'', JArr (map JStr (dt_agent_trace x))),
      (lit ''security_verdict'', (case dt_security_verdict x of None \<Rightarrow> JNull | Some t \<Rightarrow> JStr t)),
      (lit ''routing_decision'', (case dt_routing_decision x of None \<Rightarrow> JNull | Some t \<Rightarrow> JStr t)),
      (lit ''was_interrupted'', JBool (dt_interrupted x))])"

definition resolved_count :: "detail list \<Rightarrow> nat" where
  "resolved_count xs = length (filter dt_resolved xs)"

definition total_ms :: "detail list \<Rightarrow> int" where
  "total_ms xs = (\<Sum>x \<leftarrow> xs. int (dt_duration_ms x))"

definition benchmark_report :: "scenario list \<Rightarrow> detail list \<Rightarrow> json result" where
  "benchmark_report scs xs =
     (let count = length scs in
      res_bind (int_div (total_ms xs) count) (\<lambda>avg.
      res_bind (fl_trunc avg) (\<lambda>avg_ms.
      res_bind (int_div (int (resolved_count xs)) count) (\<lambda>rate. Inr (JObj
        [(lit ''scenario_count'', JInt (int count)),
         (lit ''resolution_rate'', JFloat (fl_round2 rate)),
         (lit ''avg_ms'', JInt avg_ms),
         (lit ''resolved_definition'',
            JStr (lit ''report_text present AND execution_result.status == '' @ [39] @ lit ''success'' @ [39])),
         (lit ''scenarios'', JArr (map detail_json (zip scs xs)))])))))"

definition run_benchmark :: "deployment \<Rightarrow> scenario_source \<Rightarrow> ustr option \<Rightarrow> (process, json) io" where
  "run_benchmark d src scenarios_dir =
     io_bind (on_world (load_scenarios (dp_host d) src scenarios_dir)) (\<lambda>scs p.
       let (xs, p1) = run_details d scs p in
       io_bind (io_lift (benchmark_report scs xs)) (\<lambda>report.
       io_bind (on_world (host_step (h_mkdir (dp_host d) output_dir))) (\<lambda>_.
       io_bind (on_world (write_text (dp_host d) (path_join output_dir (lit ''benchmark-report.json''))
                  (dumps (Some 2) report))) (\<lambda>_.
         io_return report))) p1)"

subsection \<open>Results are honest\<close>

text \<open>A recorded success was observed: the container that ran the code exited with 0.\<close>

definition exec_honest :: "host \<Rightarrow> agent_state \<Rightarrow> bool" where
  "exec_honest h s \<longleftrightarrow>
     (map_option ex_status (st_execution_result s) = Some ExSuccess \<longrightarrow>
      (\<exists>code w. executed_code h s = Some code \<and>
         h_docker_wait h (w\<lparr>docker_log := docker_log w @ [run_event code]\<rparr>) = Inr 0))"

definition after_verifier :: "status \<Rightarrow> bool" where
  "after_verifier st \<longleftrightarrow>
     (case st of Running n \<Rightarrow> n = FormatReport | Failed n e \<Rightarrow> n = FormatReport | Finished \<Rightarrow> True | Suspended \<Rightarrow> False)"

definition thread_honest :: "host \<Rightarrow> thread \<Rightarrow> bool" where
  "thread_honest h t \<longleftrightarrow>
     exec_honest h (th_state t) \<and>
     (\<not> after_verifier (th_status t) \<longrightarrow> st_execution_result (th_state t) = None)"

lemma no_result_honest [simp]: "st_execution_result s = None \<Longrightarrow> exec_honest h s"
  by (simp add: exec_honest_def)

lemma answer_keeps_result:
  "node_answer n us \<Longrightarrow> n \<noteq> VerifierNode \<Longrightarrow>
   st_execution_result (merge_updates us s) = st_execution_result s"
  by (induction rule: node_answer.induct) (auto simp: parse_failed_def budget_answer_def)

lemma verifier_answer_honest:
  assumes "verifier_run h s w = (Inr us, w')"
  shows "exec_honest h (merge_updates us s)"
  unfolding exec_honest_def
proof
  let ?s = "merge_updates us s"
  assume "map_option ex_status (st_execution_result ?s) = Some ExSuccess"
  then obtain res where res: "st_execution_result ?s = Some res" "ex_status res = ExSuccess" by auto
  have "UExecResult (Some res) \<in> set us" "st_fix_artifact ?s = st_fix_artifact s"
    using verifier_answer [OF assms] res(1) by auto
  with verifier_success [OF assms _ res(2)]
  show "\<exists>code w. executed_code h ?s = Some code \<and>
      h_docker_wait h (w\<lparr>docker_log := docker_log w @ [run_event code]\<rparr>) = Inr 0"
    by (auto simp: executed_code_def)
qed

lemma honest_step:
  assumes "thread_honest h t" "th_status t = Running n"
  shows "thread_honest h (step_node h (production_agents h b) n (th_state t) (th_world t))"
proof -
  define s where "s = th_state t"
  define w where "w = th_world t"
  have none: "st_execution_result s = None" if "n \<noteq> FormatReport"
    using assms that by (simp add: thread_honest_def after_verifier_def s_def)
  have hon: "exec_honest h s" using assms(1) by (simp add: thread_honest_def s_def)
  have "thread_honest h (step_node h (production_agents h b) n s w)"
  proof (cases "n = SecurityGate")
    case True
    have "thread_honest h (follow SecurityGate us s w)" if "security_gate (None :: unit option) s = Some us" for us
      using answer_keeps_result [OF gate_answer [OF that], of s] none True
      by (simp add: follow_def thread_honest_def)
    with True none show ?thesis by (auto simp: step_node_def thread_honest_def split: option.split)
  next
    case False
    obtain r w' where r: "run_node h (production_agents h b) n s w = (r, w')"
      by (cases "run_node h (production_agents h b) n s w")
    show ?thesis
    proof (cases r)
      case (Inl e)
      with False r none hon show ?thesis
        by (cases "n = FormatReport") (simp_all add: step_node_def thread_honest_def after_verifier_def)
    next
      case (Inr us)
      consider (verifier) "n = VerifierNode" | (report) "n = FormatReport"
        | (other) "n \<noteq> VerifierNode" "n \<noteq> FormatReport" by blast
      then show ?thesis
      proof cases
        case verifier
        with r Inr have "verifier_run h s w = (Inr us, w')" by (simp add: production_agents_simps)
        from verifier_answer_honest [OF this] verifier r Inr show ?thesis
          by (simp add: step_node_def follow_def thread_honest_def after_verifier_def)
      next
        case report
        with r Inr prod.run_node_answer have "node_answer FormatReport us" by blast
        then obtain rep p where "us = [UReportText rep, UReportPath p]" by (auto elim: node_answer_cases)
        with hon have "exec_honest h (merge_updates us s)" by (simp add: exec_honest_def executed_code_def)
        with report r Inr show ?thesis
          by (simp add: step_node_def follow_def thread_honest_def after_verifier_def)
      next
        case other
        have "node_answer n us" using prod.run_node_answer r Inr False by blast
        then have "st_execution_result (merge_updates us s) = None"
          using answer_keeps_result other(1) none [OF other(2)] by simp
        moreover have "st_execution_result s = None" using none other by blast
        ultimately have "thread_honest h (follow n us s w')"
          by (cases rule: follow_cases [of n us s w']) (simp_all add: thread_honest_def)
        with other False r Inr show ?thesis by (simp add: step_node_def)
      qed
    qed
  qed
  then show ?thesis by (simp add: s_def w_def)
qed

lemma reaches_honest:
  "graph_reaches h (production_agents h b) t t' \<Longrightarrow> thread_honest h t \<Longrightarrow> thread_honest h t'"
  unfolding graph_reaches_def
  by (induction rule: rtranclp_induct) (auto simp: graph_step_running intro: honest_step)

lemma invoke_honest:
  "st_execution_result s = None \<Longrightarrow> thread_honest h (graph_invoke h (production_agents h b) s w)"
  unfolding graph_invoke_def by (rule reaches_honest [OF graph_run_reaches]) (simp add: thread_honest_def)

lemma resume_honest:
  assumes "thread_honest h t" "graph_resume h (production_agents h b) d t = Some t'"
  shows "thread_honest h t'"
proof -
  have sus: "th_status t = Suspended"
    using assms(2) by (auto simp: graph_resume_def split: status.splits)
  with assms(1) have "st_execution_result (th_state t) = None" by (simp add: thread_honest_def after_verifier_def)
  then have "thread_honest h (thread_at (Running VerifierNode)
      ((th_state t)\<lparr>st_approval_required := st_security_verdict (th_state t) = Some (lit ''HIGH_RISK'')\<rparr>)
      (th_world t))" by (simp add: thread_honest_def)
  note this [THEN reaches_honest [OF graph_run_reaches]]
  with assms(2) [unfolded resume_eq [OF sus] option.inject] show ?thesis by blast
qed

lemma invoke_and_approve_honest:
  assumes "invoke_and_approve d g tid s p = (Inr s', i, p')" "st_execution_result s = None"
    and "cg_agents g = production_agents (dp_host d) b"
  shows "exec_honest (dp_host d) s'"
proof -
  let ?h = "dp_host d"
  define s0 where "s0 = over_saved (pr_store p (cg_saver g) tid) s"
  define t where "t = graph_invoke ?h (cg_agents g) s0 (pr_world p)"
  have "st_execution_result s0 = None"
    using assms(2) by (auto simp: s0_def over_saved_def split: option.split)
  then have hon: "thread_honest ?h t" unfolding t_def assms(3) by (rule invoke_honest)
  have inv: "compiled_invoke ?h g tid s p = (t, save_thread (cg_saver g) tid t p)"
    by (simp add: compiled_invoke_def Let_def t_def s0_def)
  show ?thesis
  proof (cases "th_status t = Suspended")
    case False
    with assms(1) inv have "s' = th_state t"
      by (cases "th_status t") (simp_all add: invoke_and_approve_def)
    with hon show ?thesis by (simp add: thread_honest_def)
  next
    case True
    let ?p = "save_thread (cg_saver g) tid t p"
    obtain t' where t': "graph_resume ?h (cg_agents g) (JStr (lit ''approved'')) t = Some t'"
      by (simp add: resume_eq [OF True])
    have "thread_at (th_status t) (th_state t) (pr_world ?p) = t"
      using thread_at_eta [of t] by (simp add: save_thread_def)
    moreover have "pr_store ?p (cg_saver g) tid = Some (th_status t, th_state t)" by (simp add: save_thread_def)
    ultimately have "compiled_resume ?h (dp_idle d) g tid (JStr (lit ''approved'')) ?p = (t', save_thread (cg_saver g) tid t' ?p)"
      using t' unfolding compiled_resume_def Let_def by (simp only: option.case prod.case or_else.simps)
    with assms(1) inv True have "s' = th_state t'"
      by (cases "th_status t'") (simp_all add: invoke_and_approve_def)
    moreover have "thread_honest ?h t'"
      by (rule resume_honest [OF hon t' [unfolded assms(3)]])
    ultimately show ?thesis by (simp add: thread_honest_def)
  qed
qed

text \<open>What the benchmark counts as resolved did run, and exited with 0.\<close>

lemma resolved_ran:
  assumes "dt_resolved (fst (run_v2_detail d sc p))"
  shows "\<exists>code w. h_docker_wait (dp_host d) (w\<lparr>docker_log := docker_log w @ [run_event code]\<rparr>) = Inr 0"
proof -
  obtain r p1 where b: "build_multi_agent_graph (dp_host d) (dp_pg d) (dp_built d) None None p = (r, p1)"
    by (cases "build_multi_agent_graph (dp_host d) (dp_pg d) (dp_built d) None None p")
  with assms obtain g where g: "r = Inr g"
    by (cases r) (auto simp: run_v2_detail_def)
  with b have ag: "cg_agents g = production_agents (dp_host d) (dp_built d)"
    by (auto elim: build_cases)
  let ?x = "invoke_and_approve d g (lit ''benchmark-'' @ sc_id sc @ lit ''-'' @ dp_uuid d p1)
               (initial_state (path_str (sc_log_path sc)) None) p1"
  obtain r' i p' where x: "?x = (r', i, p')" by (cases ?x)
  with assms b g obtain s where s: "r' = Inr s" "verified_fix s"
    by (cases r') (auto simp: run_v2_detail_def)
  have "exec_honest (dp_host d) s"
    using x s(1) ag by (intro invoke_and_approve_honest [where b = "dp_built d"]) (auto simp: initial_state_def)
  with s(2) show ?thesis by (auto simp: exec_honest_def verified_fix_def)
qed

subsection \<open>The report adds up\<close>

lemma length_run_details [simp]: "length (fst (run_details d scs p)) = length scs"
proof (induction scs arbitrary: p)
  case (Cons sc scs)
  obtain x p1 where "run_v2_detail d sc p = (x, p1)" by (cases "run_v2_detail d sc p")
  moreover obtain xs p2 where "run_details d scs p1 = (xs, p2)" by (cases "run_details d scs p1")
  ultimately show ?case using Cons [of p1] by simp
qed simp

lemma empty_benchmark: "benchmark_report [] xs = Inl zero_division"
  by (simp add: benchmark_report_def int_div_def)

lemma report_rate:
  assumes "scs \<noteq> []" "length xs = length scs"
  shows "fl_between 0 1 (fl_round2 (fl_div_int (int (resolved_count xs)) (length scs)))"
proof -
  have "resolved_count xs \<le> length scs" using assms(2) by (metis length_filter_le resolved_count_def)
  then show ?thesis using assms(1) by (intro fl_share_unit) simp_all
qed

lemma report_sound:
  assumes "length xs = length scs" "list_all (\<lambda>x. lo \<le> dt_duration_ms x \<and> dt_duration_ms x \<le> hi) xs" "hi < 2 ^ 53"
  shows "if scs = [] then benchmark_report scs xs = Inl zero_division
    else \<exists>avg rate rest. benchmark_report scs xs = Inr (JObj
        ([(lit ''scenario_count'', JInt (int (length scs))), (lit ''resolution_rate'', JFloat rate),
          (lit ''avg_ms'', JInt (int avg))] @ rest)) \<and>
      lo \<le> avg \<and> avg \<le> hi \<and> fl_between 0 1 rate"
proof (cases "scs = []")
  case False
  define total where "total = (\<Sum>x \<leftarrow> xs. dt_duration_ms x)"
  have tot: "total_ms xs = int total" unfolding total_ms_def total_def by (induction xs) simp_all
  have "lo * length xs \<le> total \<and> total \<le> hi * length xs"
    using assms(2) unfolding total_def by (induction xs) auto
  then have b: "lo * length scs \<le> total" "total \<le> hi * length scs" using assms(1) by simp_all
  have "fl_between (of_nat lo) (of_nat hi) (fl_div_int (int total) (length scs))"
    using b assms(3) False
    by (simp add: fl_div_int_def, intro ratio_between)
      (simp_all add: pos_le_divide_eq pos_divide_le_eq flip: of_nat_mult)
  from fl_trunc_between [OF this] obtain avg where
    "fl_trunc (fl_div_int (int total) (length scs)) = Inr (int avg)" "lo \<le> avg" "avg \<le> hi" by blast
  moreover have "fl_between 0 1 (fl_round2 (fl_div_int (int (resolved_count xs)) (length scs)))"
    by (rule report_rate [OF False assms(1)])
  ultimately show ?thesis
    using False by (auto simp: benchmark_report_def int_div_def tot Let_def)
qed (simp add: empty_benchmark)

end
