(* ===== verification/Completion.thy ===== *)
theory Completion
  imports Pipeline
begin

text \<open>
  Runs in which nothing goes wrong.  The walk lemma drives any agents through the graph, one
  answer per node, so that the production agents and the scripted ones of the benchmark share
  the same proof of arrival.  For the production agents the answers come from a provider that
  replies within the budget, and every call, its bill included, is accounted for.
\<close>

subsection \<open>A sandbox in which nothing fails\<close>

text \<open>Every container exits with \<open>code\<close>.\<close>

definition calm_sandbox :: "host \<Rightarrow> int \<Rightarrow> bool" where
  "calm_sandbox h code \<longleftrightarrow>
     (\<forall>w. h_tmp_open h w = None \<and> (\<forall>t. h_tmp_write h t w = None) \<and> h_tmp_close h w = None \<and>
          h_docker_env h w = None \<and> h_docker_run h w = None \<and> h_docker_wait h w = Inr code \<and>
          (\<forall>b. \<exists>t. h_docker_logs h b w = Inr t) \<and> h_docker_remove h w = None)"

abbreviation exited :: "norm_outcome \<times> ustr option \<Rightarrow> int \<Rightarrow> ustr \<Rightarrow> ustr \<Rightarrow> nat \<Rightarrow> upd list" where
  "exited nrm code out err ms \<equiv>
     result_updates nrm (exec_ok (if code = 0 then ExSuccess else ExFailure) (Some code) out err ms)"

text \<open>What the containers may have printed.\<close>

definition log_texts :: "host \<Rightarrow> ustr set" where
  "log_texts h = {t. \<exists>b w. h_docker_logs h b w = Inr t}"

lemma calm_collect:
  assumes "calm_sandbox h code"
  shows "\<exists>out \<in> log_texts h. \<exists>err \<in> log_texts h. \<exists>ms w'. collect h nrm w = (Inr (exited nrm code out err ms), w')"
proof -
  have "\<exists>t. h_docker_logs h b u = Inr t" for b u using assms by (simp add: calm_sandbox_def)
  then obtain f where f: "\<And>b u. h_docker_logs h b u = Inr (f b u)" by metis
  then have texts: "f b u \<in> log_texts h" for b u by (auto simp: log_texts_def)
  have "\<exists>b u b' u' ms w'. collect h nrm w = (Inr (exited nrm code (f b u) (f b' u') ms), w')"
    using assms by (simp add: collect_def docker_call_def calm_sandbox_def f io_bind_def io_catch_def io_return_def Let_def) blast
  with texts show ?thesis by blast
qed

lemma calm_execution:
  assumes "calm_sandbox h code"
  shows "\<exists>out \<in> log_texts h. \<exists>err \<in> log_texts h. \<exists>ms w'. execute_normalized h nrm a w = (Inr (exited nrm code out err ms), w') \<and>
    docker_log w' \<noteq> docker_log w"
proof -
  let ?w = "w\<lparr>docker_log := docker_log w @ [run_event a]\<rparr>"
  obtain out err ms w1 where texts: "out \<in> log_texts h" "err \<in> log_texts h"
    and c: "collect h nrm ?w = (Inr (exited nrm code out err ms), w1)"
    using calm_collect [OF assms(1)] by blast
  have "try_body h nrm a (w, False) = (Inr (exited nrm code out err ms), (w1, True))"
    using assms(1) c
    by (simp add: try_body_def with_tempdir_def in_world_def host_step_def may_fail_def start_container_def
        docker_call_def set_container_def calm_sandbox_def io_bind_def run_event_def)
  then have run: "execute_normalized h nrm a w = (Inr (exited nrm code out err ms), finally_remove h True w1)"
    by (simp add: execute_normalized_def)
  have "quietly ?w w1" using collect_quietly [of ?w h nrm] c by simp
  then obtain mid where "docker_log w1 = docker_log w @ run_event a # mid" by (auto simp: quietly_def)
  then have "docker_log (finally_remove h True w1) \<noteq> docker_log w"
    by (simp add: finally_remove_def docker_call_def)
  with run texts show ?thesis by blast
qed

lemma calm_verifier:
  assumes "calm_sandbox h code" "st_fix_artifact s = Some a" "strip a \<noteq> []" "h_compile h a = Compiles"
  shows "\<exists>out \<in> log_texts h. \<exists>err \<in> log_texts h. \<exists>ms w'. verifier_run h s w = (Inr (exited (Verbatim, None) code out err ms), w') \<and>
    only_docker w w' \<and> (\<exists>evs. docker_log w' = docker_log w @ evs \<and> sandbox_session a evs)"
proof -
  have n: "normalize_fix_artifact h a = Inr \<lparr>na_code = a, na_outcome = Verbatim, na_reason = None\<rparr>"
    using assms(3,4) by (simp add: normalize_fix_artifact_def compile_error_def res_bind_def)
  obtain out err ms w' where texts: "out \<in> log_texts h" "err \<in> log_texts h" and run: "execute_normalized h (Verbatim, None) a w = (Inr (exited (Verbatim, None) code out err ms), w')"
    and log: "docker_log w' \<noteq> docker_log w"
    using calm_execution [OF assms(1)] by blast
  have ver: "verifier_run h s w = (Inr (exited (Verbatim, None) code out err ms), w')"
    using assms(2) n run by (simp add: verifier_run_def io_bind_def io_lift_def Let_def)
  have "executed_code h s = Some a" using assms(2) n by (simp add: executed_code_def)
  then have "only_docker w w' \<and> (\<exists>evs. docker_log w' = docker_log w @ evs \<and> sandbox_session a evs)"
    using verifier_log [OF ver] log by auto
  with ver texts show ?thesis by blast
qed

subsection \<open>A report that gets written\<close>

text \<open>Texts without lone surrogates can be encoded, and the sections of a report are built from texts.\<close>

lemma text_ok_parts [simp]:
  "text_ok []" "text_ok (a @ b) \<longleftrightarrow> text_ok a \<and> text_ok b"
  "text_ok (c # a) \<longleftrightarrow> c < 1114112 \<and> \<not> is_high c \<and> \<not> is_low c \<and> text_ok a" "text_ok (lit t)"
  by (auto simp: text_ok_def text_ok_lit [unfolded text_ok_def])

lemma text_ok_join: "text_ok sep \<Longrightarrow> \<forall>x \<in> set xs. text_ok x \<Longrightarrow> text_ok (join sep xs)"
  by (induction sep xs rule: join.induct) simp_all

lemma text_ok_lines [simp]: "text_ok (lines ls)"
  unfolding lines_def by (intro text_ok_join) (simp_all add: is_high_def is_low_def)

lemma text_ok_numbers [simp]: "text_ok (show_nat n)" "text_ok (show_int i)"
proof -
  show "text_ok (show_nat n)" for n
    using show_nat_digits [of _ n] by (fastforce simp: text_ok_def is_digit_def is_high_def is_low_def)
  then show "text_ok (show_int i)" by (simp add: show_int_def)
qed

lemma text_ok_encodes: "text_ok t \<Longrightarrow> \<not> (\<exists>c \<in> set t. 55296 \<le> c \<and> c \<le> 57343)"
  by (auto simp: text_ok_def is_high_def is_low_def)

lemma report_text_ok:
  assumes "report_text s now = Inr t" "st_analysis_result s = None" "text_ok now" "text_ok (st_log_path s)"
    and "\<And>k v. log_index (st_error_log s) k = Inr v \<Longrightarrow> text_ok (py_str v)"
    and "text_ok (sandbox_section s)" "text_ok (security_section s)"
  shows "text_ok t"
  using assms by (auto simp: report_text_def analysis_section_def res_bind_def Let_def split: sum.splits)

text \<open>The report node succeeds on a file system that does not fail, when its texts can be encoded.\<close>

lemma format_report_succeeds:
  assumes "st_error_log s = Some elog" "log_complete elog" "st_analysis_result s = None"
    and "\<And>q u. h_mkdir h q u = None" "\<And>q u. h_write h q u = None"
    and "\<And>t. report_text s (h_now_utc h w) = Inr t \<Longrightarrow> text_ok t"
    and "\<And>v. sidecar s (path_stem (st_log_path s)) (h_resolve h (report_file s)) = Inr v \<Longrightarrow> json_ok v"
  obtains rep w' where
    "format_report h s w = (Inr [UReportText rep, UReportPath (h_resolve h (report_file s))], w')"
proof -
  obtain rep where rep: "report_text s (h_now_utc h w) = Inr rep" using report_text_total [OF assms(1-3)] by blast
  obtain v where v: "sidecar s (path_stem (st_log_path s)) (h_resolve h (report_file s)) = Inr v"
    using sidecar_total [OF assms(1-3)] by blast
  have written: "write_text h p t u = (Inr (), u\<lparr>files := (files u)(p \<mapsto> t)\<rparr>)"
    if "\<not> (\<exists>c \<in> set t. 55296 \<le> c \<and> c \<le> 57343)" for p t u
    using assms(5) that by (simp add: write_text_def del: bex_simps)
  have "\<not> (\<exists>c \<in> set (dumps (Some 2) v). 55296 \<le> c \<and> c \<le> 57343)"
    using dumps_plain [OF assms(7) [OF v], of "Some 2"] unfolding dump_plain_def by fastforce
  note writes = written [OF text_ok_encodes [OF assms(6) [OF rep]]] written [OF this]
  show ?thesis
    by (rule that)
      (simp add: format_report_def Let_def rep v [unfolded report_file_def] writes io_bind_def io_lift_def io_return_def
        host_step_def may_fail_def assms(4) write_result_sidecar_def report_file_def)
qed

subsection \<open>Walking the graph\<close>

lemma graph_run_answer:
  assumes "n \<noteq> SecurityGate" "run_node h ag n s w = (Inr us, w')" "next_node n (merge_updates us s) = Inr (Some m)"
  shows "graph_run h ag (Suc k) (thread_at (Running n) s w) =
    graph_run h ag k (thread_at (Running m) (merge_updates us s) w')"
  using assms by (simp add: step_node_def follow_def)

lemma guarded_answer [simp]: "agent s w = (Inr us, w') \<Longrightarrow> guarded agent s w = (Inr us, w')"
  by (simp add: guarded_def)

text \<open>The state a run arrives with at the report.\<close>

definition delivered ::
  "error_log \<Rightarrow> ustr \<Rightarrow> ustr \<Rightarrow> ustr \<Rightarrow> ustr \<Rightarrow> ustr \<Rightarrow> ustr \<Rightarrow> execution_result \<Rightarrow> norm_outcome \<times> ustr option \<Rightarrow>
   agent_state \<Rightarrow> agent_state" where
  "delivered elog cat sp ra art verdict model res nrm s =
     s\<lparr>st_error_log := Some elog, st_parse_error := None, st_error_category := Some cat,
       st_specialist := Some sp, st_routing_decision := Some ra, st_fix_artifact := Some art,
       st_security_verdict := Some verdict, st_classifier_model := Some model, st_approval_required := False,
       st_execution_result := Some res, st_execution_error := None, st_fix_normalization := Some nrm,
       st_agent_trace := st_agent_trace s @
         [lit ''DiagnosisAgent'', lit ''SupervisorAgent'',
          if sp = lit ''code_fixer'' then lit ''CodeFixerAgent'' else lit ''InfraSREAgent'',
          lit ''SecurityReviewerAgent'', lit ''VerifierAgent'']\<rparr>"

text \<open>
  One hypothesis per node, each about the state and the world the node meets; the shape of the
  answers is what decides the routes.
\<close>

lemma graph_walk:
  fixes s elog cat sp ra art verdict model
  defines "s1 \<equiv> merge_updates [UErrorLog (Some elog), UParseError None] s"
  defines "s2 \<equiv> merge_updates [UCategory cat, UAgentTrace [lit ''DiagnosisAgent'']] s1"
  defines "s3 \<equiv> merge_updates [USpecialist sp, URouting ra, UAgentTrace [lit ''SupervisorAgent'']] s2"
  defines "s4 \<equiv> merge_updates [UArtifact art, UAgentTrace
      [if sp = lit ''code_fixer'' then lit ''CodeFixerAgent'' else lit ''InfraSREAgent'']] s3"
  defines "s5 \<equiv> merge_updates [UVerdict verdict, UClassifier model, UAgentTrace [lit ''SecurityReviewerAgent'']] s4"
  assumes start: "nonempty (st_trace_id s)" "st_cost_exhausted s \<noteq> Some True"
    and kinds: "sp \<in> set valid_specialists" "verdict \<noteq> lit ''HIGH_RISK''"
    and log_ok: "parse_log h s w = (Inr [UErrorLog (Some elog), UParseError None], w)"
    and diagnosis: "ag_diagnosis ag s1 w = (Inr [UCategory cat, UAgentTrace [lit ''DiagnosisAgent'']], w1)"
    and supervisor: "ag_supervisor ag s2 w1 =
      (Inr [USpecialist sp, URouting ra, UAgentTrace [lit ''SupervisorAgent'']], w2)"
    and fixer: "(if sp = lit ''code_fixer'' then ag_code_fixer ag else ag_infra_sre ag) s3 w2 =
      (Inr [UArtifact art, UAgentTrace
        [if sp = lit ''code_fixer'' then lit ''CodeFixerAgent'' else lit ''InfraSREAgent'']], w3)"
    and reviewer: "ag_security_reviewer ag s4 w3 =
      (Inr [UVerdict verdict, UClassifier model, UAgentTrace [lit ''SecurityReviewerAgent'']], w4)"
    and verifier: "ag_verifier ag (merge_updates [UApproval False] s5) w4 = (Inr (result_updates nrm res), w5)"
  shows "graph_invoke h ag s w = step_node h ag FormatReport (delivered elog cat sp ra art verdict model res nrm s) w5"
proof -
  let ?to = "\<lambda>k n u v. graph_run h ag k (thread_at (Running n) u v)"
  define fx where "fx = (if sp = lit ''code_fixer'' then CodeFixerNode else InfraSreNode)"
  note defs = s1_def s2_def s3_def s4_def s5_def
  have going: "st_cost_exhausted s1 \<noteq> Some True" "st_cost_exhausted s2 \<noteq> Some True"
    "st_cost_exhausted s3 \<noteq> Some True" "st_cost_exhausted s4 \<noteq> Some True" "st_cost_exhausted s5 \<noteq> Some True"
    using start(2) by (simp_all add: defs)
  have w1: "?to (Suc k) Dispatch s w = ?to k ParseLog s w" for k
    using start(1) graph_run_answer [of Dispatch h ag s w "[]" w ParseLog] by (simp add: dispatch_def)
  have w2: "?to (Suc k) ParseLog s w = ?to k DiagnosisNode s1 w" for k
    unfolding s1_def using log_ok by (intro graph_run_answer) (simp_all add: route_after_parse_def nonempty_def)
  have w3: "?to (Suc k) DiagnosisNode s1 w = ?to k SupervisorRoute s2 w1" for k
    unfolding s2_def using diagnosis going(2) [unfolded s2_def]
    by (intro graph_run_answer) (simp_all only: run_node.simps guarded_answer next_node.simps or_cost_exhausted_def, simp_all)
  have w4: "?to (Suc k) SupervisorRoute s2 w1 = ?to k fx s3 w2" for k
    unfolding s3_def using supervisor route_valid [of s3 sp, folded fx_def] kinds(1) going(3)
    by (intro graph_run_answer) (simp_all add: s3_def)
  have w5: "?to (Suc k) fx s3 w2 = ?to k SecurityReviewer s4 w3" for k
    unfolding s4_def using fixer going(4) [unfolded s4_def]
    by (intro graph_run_answer) (auto simp: fx_def or_cost_exhausted_def)
  have w6: "?to (Suc k) SecurityReviewer s4 w3 = ?to k SecurityGate s5 w4" for k
    unfolding s5_def using reviewer going(5) [unfolded s5_def]
    by (intro graph_run_answer) (simp_all add: or_cost_exhausted_def)
  have w7: "?to (Suc k) SecurityGate s5 w4 = ?to k VerifierNode (merge_updates [UApproval False] s5) w4" for k
    using kinds(2) by (simp add: step_node_def security_gate_def follow_def s5_def)
  have w8: "?to (Suc k) VerifierNode (merge_updates [UApproval False] s5) w4 =
      ?to k FormatReport (delivered elog cat sp ra art verdict model res nrm s) w5" for k
  proof -
    have "merge_updates (result_updates nrm res) (merge_updates [UApproval False] s5) =
        delivered elog cat sp ra art verdict model res nrm s"
      by (simp add: defs result_updates_def delivered_def)
    with verifier show ?thesis
      using graph_run_answer [of VerifierNode h ag "merge_updates [UApproval False] s5" w4 "result_updates nrm res" w5]
      by simp
  qed
  have fuel: "graph_fuel = Suc (Suc (Suc (Suc (Suc (Suc (Suc (Suc (Suc 0))))))))" by (simp add: graph_fuel_def)
  have w9: "?to (Suc 0) FormatReport u v = step_node h ag FormatReport u v" for u v by simp
  show ?thesis unfolding graph_invoke_def fuel w1 w2 w3 w4 w5 w6 w7 w8 w9 ..
qed

text \<open>The last node: the report is written, or its exception ends the run.\<close>

lemma report_step:
  fixes h ag s w defines "t \<equiv> step_node h ag FormatReport s w"
  shows "th_status t = Finished \<and>
      (\<exists>rep p. th_state t = s\<lparr>st_report_text := Some rep, st_report_path := Some p\<rparr>) \<or>
    (\<exists>e. th_status t = Failed FormatReport e) \<and> th_state t = s"
    and "guard (th_world t) = guard w" "docker_log (th_world t) = docker_log w" "sdk_log (th_world t) = sdk_log w"
    "environ (th_world t) = environ w"
proof -
  obtain r w' where fr: "format_report h s w = (r, w')" by (cases "format_report h s w")
  have world: "th_world t = w'" using fr by (cases r) (auto simp: t_def step_node_def follow_def)
  show "guard (th_world t) = guard w" "docker_log (th_world t) = docker_log w" "sdk_log (th_world t) = sdk_log w"
    "environ (th_world t) = environ w"
    using format_report_frame [OF fr] by (simp_all add: world)
  show "th_status t = Finished \<and>
      (\<exists>rep p. th_state t = s\<lparr>st_report_text := Some rep, st_report_path := Some p\<rparr>) \<or>
    (\<exists>e. th_status t = Failed FormatReport e) \<and> th_state t = s"
  proof (cases r)
    case (Inl e)
    with fr show ?thesis by (simp add: t_def step_node_def)
  next
    case (Inr us)
    with format_report_done [OF fr [unfolded Inr]] obtain rep p where "us = [UReportText rep, UReportPath p]" by blast
    with fr Inr show ?thesis by (auto simp: t_def step_node_def follow_def)
  qed
qed

subsection \<open>A provider that answers within the budget\<close>

text \<open>The shared guard as a call would find it, and the account of a sequence of answered calls.\<close>

abbreviation current_guard :: "world \<Rightarrow> cost_guard result" where
  "current_guard w \<equiv> get_cost_guard (environ w budget_env) (guard w)"

definition billed_calls :: "ustr list \<Rightarrow> decimal list \<Rightarrow> world \<Rightarrow> world \<Rightarrow> bool" where
  "billed_calls names costs w w' \<longleftrightarrow>
     docker_log w' = docker_log w \<and> files w' = files w \<and> environ w' = environ w \<and>
     (\<exists>reqs. sdk_log w' = sdk_log w @ reqs \<and> map rq_agent_name reqs = names) \<and>
     (\<forall>g. current_guard w = Inr g \<longrightarrow>
        (\<exists>bills. map snd bills = costs \<and> current_guard w' = Inr (guard_run g bills)))"

text \<open>The costs, added up with the context's rounding, stay within the limit.\<close>

definition affordable :: "world \<Rightarrow> decimal list \<Rightarrow> bool" where
  "affordable w costs \<longleftrightarrow>
     (\<exists>g. current_guard w = Inr g \<and> guard_ok g \<and> guard_currency g = lit ''CNY'' \<and>
        list_all (\<lambda>c. 0 \<le> dec_coeff c) costs \<and>
        foldl dec_add (total_spent g) costs \<le> budget_limit g)"

lemma dec_add_all_mono:
  assumes "dec_wf a" "0 \<le> dec_coeff a" "list_all (\<lambda>c. 0 \<le> dec_coeff c) costs"
  shows "a \<le> foldl dec_add a costs"
  using assms
proof (induction costs arbitrary: a)
  case (Cons c costs)
  then have "a \<le> dec_add a c" by (auto simp: dec_le_val intro: dec_add_mono)
  also have "\<dots> \<le> foldl dec_add (dec_add a c) costs"
    using Cons by (intro Cons.IH) (auto intro: dec_add_wf dec_add_coeff_nonneg)
  finally show ?case by simp
qed simp

lemma billed_calls_trans:
  assumes "billed_calls n1 c1 u v" "billed_calls n2 c2 v w"
  shows "billed_calls (n1 @ n2) (c1 @ c2) u w"
proof -
  from assms obtain r1 r2 where "sdk_log v = sdk_log u @ r1" "map rq_agent_name r1 = n1"
    "sdk_log w = sdk_log v @ r2" "map rq_agent_name r2 = n2"
    by (auto simp: billed_calls_def)
  then have log: "\<exists>reqs. sdk_log w = sdk_log u @ reqs \<and> map rq_agent_name reqs = n1 @ n2"
    by (intro exI [of _ "r1 @ r2"]) simp
  have "\<exists>bills. map snd bills = c1 @ c2 \<and> current_guard w = Inr (guard_run g bills)" if "current_guard u = Inr g" for g
  proof -
    from assms(1) that obtain b1 where b1: "map snd b1 = c1" "current_guard v = Inr (guard_run g b1)"
      by (auto simp: billed_calls_def)
    with assms(2) obtain b2 where "map snd b2 = c2" "current_guard w = Inr (guard_run (guard_run g b1) b2)"
      unfolding billed_calls_def by blast
    with b1 show ?thesis by (intro exI [of _ "b1 @ b2"]) (simp add: guard_run_append)
  qed
  with assms log show ?thesis by (simp add: billed_calls_def)
qed

text \<open>A bill that is affordable is paid, and the rest stays affordable.\<close>

lemma affordable_bill:
  assumes "affordable w (c # cs)"
  shows "\<exists>w'. bill h c w = (Inr (), w') \<and> billed_calls [] [c] w w' \<and> affordable w' cs"
proof -
  from assms obtain g where g: "current_guard w = Inr g" "guard_ok g" "guard_currency g = lit ''CNY''"
    and costs: "0 \<le> dec_coeff c" "list_all (\<lambda>c. 0 \<le> dec_coeff c) cs"
    and fits: "foldl dec_add (dec_add (total_spent g) c) cs \<le> budget_limit g"
    by (auto simp: affordable_def)
  let ?now = "h_now h w"
  define g' where "g' = snd (accumulate ?now c (lit ''CNY'') g)"
  have total: "total_spent g' = dec_add (total_spent g) c"
    using g(3) by (simp add: g'_def accumulate_same_currency)
  have frame: "budget_limit g' = budget_limit g" "guard_currency g' = lit ''CNY''"
    using g(3) by (simp_all add: g'_def accumulate_frame)
  have ok: "guard_ok g'" unfolding g'_def using g(2) costs(1) by (rule accumulate_ok)
  then have "total_spent g' \<le> foldl dec_add (total_spent g') cs"
    using costs(2) by (intro dec_add_all_mono) (simp_all add: guard_ok_def)
  also have "\<dots> \<le> budget_limit g'" using fits by (simp add: frame total)
  finally have "\<not> over_budget g'" by (simp add: over_budget_def dec_le_val)
  then have "accumulate ?now c (lit ''CNY'') g = (Inr (), g')"
    using accumulate_outcome [of "lit ''CNY''" g ?now c] g(3) by (simp add: g'_def prod_eq_iff)
  then have bill: "bill h c w = (Inr (), w\<lparr>guard := Some g'\<rparr>)" using g(1) by (simp add: bill_def)
  have now: "current_guard (w\<lparr>guard := Some g'\<rparr>) = Inr g'" by (simp add: get_cost_guard_def)
  have "g' = guard_run g [(?now, c)]" using g(3) by (simp add: g'_def)
  with g(1) now have "billed_calls [] [c] w (w\<lparr>guard := Some g'\<rparr>)"
    unfolding billed_calls_def by (intro conjI) (auto intro!: exI [of _ "[(?now, c)]"])
  moreover have "affordable (w\<lparr>guard := Some g'\<rparr>) cs"
    unfolding affordable_def using now ok frame costs(2) fits by (auto simp: total)
  ultimately show ?thesis using bill by blast
qed

text \<open>What the call of one agent costs at the prices of its provider.\<close>

definition provider_prices :: "provider \<Rightarrow> price_table" where
  "provider_prices p = (case p of ArkProvider _ _ \<Rightarrow> ark_pricing | GlmProvider _ _ \<Rightarrow> glm_pricing)"

definition call_cost :: "provider \<times> agent_model_config \<Rightarrow> int \<Rightarrow> int \<Rightarrow> decimal option" where
  "call_cost pc p c =
     (let (cin, cout) = compute_cost (provider_prices (fst pc)) (cf_model (snd pc)) p c
      in dec_of_float (fl_add cin cout))"

text \<open>The SDK answers every request, with a text that depends on the asking agent.\<close>

definition replying :: "host \<Rightarrow> (ustr \<Rightarrow> ustr) \<Rightarrow> int \<Rightarrow> int \<Rightarrow> bool" where
  "replying h reply p c \<longleftrightarrow>
     0 \<le> p \<and> 0 \<le> c \<and> (\<forall>req w. h_sdk h req w = SdkOk (Some (reply (rq_agent_name req))) p c)"

lemma provider_replies:
  assumes "replying h reply p c" "mk_request (request_of ms model t name k temp) = Inr req"
    and cost: "dec_of_float (fl_add (fst (compute_cost table model p c)) (snd (compute_cost table model p c))) = Some cost"
    and "0 \<le> dec_coeff cost"
  shows "\<exists>resp. provider_complete nm table h ms model t name k temp w =
      io_bind (bill h cost) (\<lambda>_. io_return resp) (w\<lparr>sdk_log := sdk_log w @ [request_of ms model t name k temp]\<rparr>) \<and>
    rs_content resp = reply name \<and> rs_model resp = model"
proof -
  let ?req = "request_of ms model t name k temp"
  define w1 where "w1 = w\<lparr>sdk_log := sdk_log w @ [?req]\<rparr>"
  define resp where "resp = \<lparr>rs_content = reply name, rs_model = model, rs_prompt_tokens = p, rs_completion_tokens = c,
      rs_cost = cost, rs_currency = lit ''CNY'', rs_latency_ms = int (h_elapsed h w w1), rs_trace_id = t\<rparr>"
  have req: "req = ?req" "trace_id_ok t" using mk_request_eq [OF assms(2)] by simp_all
  have "model \<noteq> []" using assms(2) by (auto simp: mk_request_def request_errors_def split: if_splits)
  then have resp: "mk_response resp = Inr resp"
    using assms(1,4) req(2)
    by (simp add: mk_response_def response_errors_def resp_def replying_def currencies_def dec_less_val
        dec_val_nonneg not_less)
  have sdk: "invoke_with_retry h ?req w = (SdkOk (Some (reply name)) p c, w1)"
    using assms(1) by (simp add: invoke_with_retry_def sdk_attempt_def replying_def w1_def)
  have "provider_complete nm table h ms model t name k temp w = io_bind (bill h cost) (\<lambda>_. io_return resp) w1"
    using assms(2) req(1) sdk cost resp
    by (simp add: provider_complete_def split_beta io_return_def flip: resp_def)
  then show ?thesis unfolding w1_def by (intro exI [of _ resp]) (simp add: resp_def)
qed

lemma provider_answers:
  assumes "replying h reply p c" "mk_request (request_of ms model t name k temp) = Inr req"
    and cost: "dec_of_float (fl_add (fst (compute_cost table model p c)) (snd (compute_cost table model p c))) = Some cost"
    and "affordable w (cost # cs)"
  shows "\<exists>resp w'. provider_complete nm table h ms model t name k temp w = (Inr resp, w') \<and>
    rs_content resp = reply name \<and> rs_model resp = model \<and> billed_calls [name] [cost] w w' \<and> affordable w' cs"
proof -
  define w1 where "w1 = w\<lparr>sdk_log := sdk_log w @ [request_of ms model t name k temp]\<rparr>"
  have "0 \<le> dec_coeff cost" using assms(4) by (auto simp: affordable_def)
  from provider_replies [OF assms(1-3) this, of nm w, folded w1_def] obtain resp
    where run: "provider_complete nm table h ms model t name k temp w = io_bind (bill h cost) (\<lambda>_. io_return resp) w1"
      and resp: "rs_content resp = reply name" "rs_model resp = model" by blast
  have "affordable w1 (cost # cs)" using assms(4) by (simp add: affordable_def w1_def)
  from affordable_bill [OF this, of h] obtain w' where b: "bill h cost w1 = (Inr (), w')"
    "billed_calls [] [cost] w1 w'" "affordable w' cs" by blast
  have "billed_calls [name] [] w w1"
    by (auto simp: billed_calls_def w1_def intro: exI [of _ "[]"])
  from billed_calls_trans [OF this b(2)] have "billed_calls [name] [cost] w w'" by simp
  with run resp b show ?thesis by (auto simp: io_bind_def)
qed

text \<open>A configuration the request validator accepts.\<close>

definition askable :: "provider \<times> agent_model_config \<Rightarrow> bool" where
  "askable pc \<longleftrightarrow> agent_config_ok (snd pc) \<and> cf_model (snd pc) \<noteq> []"

lemma askable_request:
  fixes pc defines "cfg \<equiv> snd pc"
  assumes "askable pc" "trace_id_ok t" "name \<noteq> []" "ms \<noteq> []"
  shows "mk_request (request_of ms (cf_model cfg) t name (cf_max_tokens cfg) (cf_temperature cfg)) =
    Inr (request_of ms (cf_model cfg) t name (cf_max_tokens cfg) (cf_temperature cfg))"
  using assms by (simp add: mk_request_def request_errors_def askable_def agent_config_ok_def)

lemma ask_answers:
  assumes "replying h reply p c" "askable pc" "trace_id_ok t" "name \<noteq> []" "ms \<noteq> []"
    and "call_cost pc p c = Some cost" "affordable w (cost # cs)"
  shows "\<exists>resp w'. ask (provider_client h (fst pc)) (snd pc) name t ms w = (Inr resp, w') \<and>
    rs_content resp = reply name \<and> rs_model resp = cf_model (snd pc) \<and> billed_calls [name] [cost] w w' \<and>
    affordable w' cs"
  using provider_answers [OF assms(1) askable_request [OF assms(2-5)] _ assms(7)] assms(6)
  by (cases "fst pc")
    (simp_all add: ask_def provider_client_def ark_complete_def glm_complete_def call_cost_def provider_prices_def split_beta)

subsection \<open>Answers and their price\<close>

text \<open>The clients the factory built, all priced and all answered.\<close>

definition answering ::
  "host \<Rightarrow> (string \<Rightarrow> provider \<times> agent_model_config) \<Rightarrow> (ustr \<Rightarrow> ustr) \<Rightarrow> int \<Rightarrow> int \<Rightarrow> (string \<Rightarrow> decimal) \<Rightarrow> bool" where
  "answering h b reply p c cost \<longleftrightarrow>
     replying h reply p c \<and> (\<forall>name. askable (b name) \<and> call_cost (b name) p c = Some (cost name))"

text \<open>An action that gives \<open>x\<close>, at the price of one call of the agent.\<close>

definition pays :: "ustr \<Rightarrow> decimal \<Rightarrow> decimal list \<Rightarrow> (world, 'a) io \<Rightarrow> world \<Rightarrow> 'a \<Rightarrow> bool" where
  "pays name cost cs m w x \<longleftrightarrow>
     (\<exists>w'. m w = (Inr x, w') \<and> billed_calls [name] [cost] w w' \<and> affordable w' cs)"

lemma paysE:
  assumes "pays name cost cs m w x"
  obtains w' where "m w = (Inr x, w')" "billed_calls [name] [cost] w w'" "affordable w' cs"
  using assms by (auto simp: pays_def)

lemma pays_bind:
  assumes "pays name cost cs m w x" "f x = io_return y"
  shows "pays name cost cs (io_bind m f) w y"
  using assms by (auto simp: pays_def io_return_def)

text \<open>A question to the agent's model, and a pure use of the reply.\<close>

lemma pays_ask:
  assumes "answering h b reply p c cost" "trace_id_ok t" "affordable w (cost name # cs)" "name \<noteq> []"
    and "\<And>resp. rs_content resp = reply (lit name) \<Longrightarrow> rs_model resp = cf_model (snd (b name)) \<Longrightarrow> f resp = io_return y"
  shows "pays (lit name) (cost name) cs
    (io_bind (ask (provider_client h (fst (b name))) (snd (b name)) (lit name) t (system_user x z)) f) w y"
proof -
  from assms(1) have r: "replying h reply p c" "askable (b name)" "call_cost (b name) p c = Some (cost name)"
    by (simp_all add: answering_def)
  have "lit name \<noteq> []" "system_user x z \<noteq> []" using assms(4) by (simp_all add: system_user_def)
  from ask_answers [OF r(1,2) assms(2) this r(3) assms(3)] show ?thesis
    using assms(5) by (auto simp: pays_def io_return_def)
qed

subsection \<open>The production agents in such a run\<close>

lemma diagnosis_pays:
  assumes "answering h b reply p c cost" "trace_id_ok (state_trace_id s)" "affordable w (cost ''diagnosis'' # cs)"
  shows "pays (lit ''diagnosis'') (cost ''diagnosis'') cs (ag_diagnosis (production_agents h b) s) w
    [UCategory (parse_category (reply (lit ''diagnosis''))), UAgentTrace [lit ''DiagnosisAgent'']]"
  unfolding production_agents_simps diagnosis_run_def Let_def by (rule pays_ask [OF assms]) simp_all

lemma supervisor_pays:
  assumes "answering h b reply p c cost" "trace_id_ok (state_trace_id s)" "affordable w (cost ''supervisor'' # cs)"
  shows "pays (lit ''supervisor'') (cost ''supervisor'') cs (ag_supervisor (production_agents h b) s) w
    [USpecialist (fst (parse_routing (reply (lit ''supervisor'')))),
     URouting (snd (parse_routing (reply (lit ''supervisor'')))), UAgentTrace [lit ''SupervisorAgent'']]"
  unfolding production_agents_simps supervisor_run_def by (rule pays_ask [OF assms]) (simp_all add: split_beta)

lemma script_pays:
  assumes "answering h b reply p c cost" "trace_id_ok t" "affordable w (cost name # cs)" "name \<noteq> []"
    and "h_compile h (strip_markdown_fence (reply (lit name))) = Compiles"
  shows "pays (lit name) (cost name) cs
    (complete_script_artifact h (provider_client h (fst (b name))) (snd (b name)) (system_user x y) (lit name) t) w
    (strip_markdown_fence (reply (lit name)))"
  unfolding complete_script_artifact_def ask_artifact_def io_bind_assoc io_bind_return
  by (rule pays_ask [OF assms(1-4)]) (simp add: assms(5) compile_error_def io_lift_def io_return_def io_bind_def)

lemma fixers_pay:
  assumes "answering h b reply p c cost" "trace_id_ok (state_trace_id s)" "st_analysis_result s = None"
  shows "affordable w (cost ''code_fixer'' # cs) \<Longrightarrow>
      h_compile h (strip_markdown_fence (reply (lit ''code_fixer''))) = Compiles \<Longrightarrow>
      pays (lit ''code_fixer'') (cost ''code_fixer'') cs (ag_code_fixer (production_agents h b) s) w
        [UArtifact (strip_markdown_fence (reply (lit ''code_fixer''))), UAgentTrace [lit ''CodeFixerAgent'']]"
    and "affordable w (cost ''infra_sre'' # cs) \<Longrightarrow>
      h_compile h (strip_markdown_fence (reply (lit ''infra_sre''))) = Compiles \<Longrightarrow>
      pays (lit ''infra_sre'') (cost ''infra_sre'') cs (ag_infra_sre (production_agents h b) s) w
        [UArtifact (strip_markdown_fence (reply (lit ''infra_sre''))), UAgentTrace [lit ''InfraSREAgent'']]"
proof -
  obtain ctx where ctx: "build_error_context s = Inr ctx"
    using assms(3) by (simp add: build_error_context_def Let_def)
  then have lift: "io_bind (io_lift (build_error_context s)) f = f ctx" for f :: "ustr \<Rightarrow> (world, 'b) io"
    by (simp add: io_lift_def io_bind_def)
  show "pays (lit ''code_fixer'') (cost ''code_fixer'') cs (ag_code_fixer (production_agents h b) s) w
        [UArtifact (strip_markdown_fence (reply (lit ''code_fixer''))), UAgentTrace [lit ''CodeFixerAgent'']]"
    if "affordable w (cost ''code_fixer'' # cs)" "h_compile h (strip_markdown_fence (reply (lit ''code_fixer''))) = Compiles"
    unfolding production_agents_simps code_fixer_run_def lift
    by (rule pays_bind [OF script_pays [OF assms(1,2) that(1) _ that(2)]]) simp_all
  show "pays (lit ''infra_sre'') (cost ''infra_sre'') cs (ag_infra_sre (production_agents h b) s) w
        [UArtifact (strip_markdown_fence (reply (lit ''infra_sre''))), UAgentTrace [lit ''InfraSREAgent'']]"
    if "affordable w (cost ''infra_sre'' # cs)" "h_compile h (strip_markdown_fence (reply (lit ''infra_sre''))) = Compiles"
    unfolding production_agents_simps infra_sre_run_def lift
    by (rule pays_bind [OF script_pays [OF assms(1,2) that(1) _ that(2)]]) simp_all
qed

lemma reviewer_pays:
  assumes "answering h b reply p c cost" "trace_id_ok (state_trace_id s)" "affordable w (cost ''security_reviewer'' # cs)"
    and "st_fix_artifact s = Some a" "\<not> deny_listed a"
  shows "pays (lit ''security_reviewer'') (cost ''security_reviewer'') cs (ag_security_reviewer (production_agents h b) s) w
    [UVerdict (parse_verdict (reply (lit ''security_reviewer''))), UClassifier (cf_model (snd (b ''security_reviewer''))),
     UAgentTrace [lit ''SecurityReviewerAgent'']]"
proof -
  have catch: "pays name k cs (io_catch m f) w x" if "pays name k cs m w x" for name k m f and x :: "ustr \<times> ustr"
    using that by (auto simp: pays_def)
  show ?thesis
    unfolding production_agents_simps security_reviewer_run_def Let_def
    by (rule pays_bind [OF catch [OF pays_ask [OF assms(1-3), where
            y = "(parse_verdict (reply (lit ''security_reviewer'')), cf_model (snd (b ''security_reviewer'')))"]]])
      (simp_all add: assms(4,5))
qed

text \<open>What the replies lead to: who is asked for the fix, what it is, and which four agents are paid.\<close>

definition fix_agent :: "(ustr \<Rightarrow> ustr) \<Rightarrow> string" where
  "fix_agent reply =
     (if fst (parse_routing (reply (lit ''supervisor''))) = lit ''code_fixer'' then ''code_fixer'' else ''infra_sre'')"

definition fix_reply :: "(ustr \<Rightarrow> ustr) \<Rightarrow> ustr" where
  "fix_reply reply = strip_markdown_fence (reply (lit (fix_agent reply)))"

definition agents_asked :: "(ustr \<Rightarrow> ustr) \<Rightarrow> string list" where
  "agents_asked reply = [''diagnosis'', ''supervisor'', fix_agent reply, ''security_reviewer'']"

text \<open>
  So the run arrives at the report, after one call of each of its four agents and one
  session of the sandbox.
\<close>

lemma production_arrives:
  fixes reply :: "ustr \<Rightarrow> ustr"
  defines "sp \<equiv> fst (parse_routing (reply (lit ''supervisor'')))"
  defines "fx \<equiv> fix_agent reply" and "art \<equiv> fix_reply reply" and "four \<equiv> agents_asked reply"
  assumes answers: "answering h b reply p c cost" and purse: "affordable w (map cost four)"
    and tid: "st_trace_id s = Some tid" "trace_id_ok tid"
    and start: "st_analysis_result s = None" "st_cost_exhausted s \<noteq> Some True"
    and log_ok: "parse_log h s w = (Inr [UErrorLog (Some elog), UParseError None], w)"
    and fix_ok: "\<not> deny_listed art" "h_compile h art = Compiles" "strip art \<noteq> []"
    and verdict: "parse_verdict (reply (lit ''security_reviewer'')) \<noteq> lit ''HIGH_RISK''"
    and calm: "calm_sandbox h code"
  shows "\<exists>out \<in> log_texts h. \<exists>err \<in> log_texts h. \<exists>ms w4 w5. billed_calls (map lit four) (map cost four) w w4 \<and> only_docker w4 w5 \<and>
    (\<exists>evs. docker_log w5 = docker_log w4 @ evs \<and> sandbox_session art evs) \<and>
    graph_invoke h (production_agents h b) s w = step_node h (production_agents h b) FormatReport
      (delivered elog (parse_category (reply (lit ''diagnosis''))) sp (snd (parse_routing (reply (lit ''supervisor''))))
        art (parse_verdict (reply (lit ''security_reviewer''))) (cf_model (snd (b ''security_reviewer'')))
        (exec_ok (if code = 0 then ExSuccess else ExFailure) (Some code) out err ms) (Verbatim, None) s) w5"
proof -
  let ?ag = "production_agents h b" and ?r = "\<lambda>name. reply (lit name)"
  have trace: "trace_id_ok (state_trace_id u)" if "st_trace_id u = Some tid" for u
    using that tid(2) by (simp add: state_trace_id_def)
  have "tid \<noteq> []" using tid(2) by (auto simp: trace_id_ok_def)
  then have named: "nonempty (st_trace_id s)" using tid(1) by (simp add: nonempty_def)
  have sp: "sp \<in> set valid_specialists" using parse_routing_valid by (simp add: sp_def)
  define s1 where "s1 = merge_updates [UErrorLog (Some elog), UParseError None] s"
  define s2 where "s2 = merge_updates [UCategory (parse_category (?r ''diagnosis'')), UAgentTrace [lit ''DiagnosisAgent'']] s1"
  define s3 where "s3 = merge_updates [USpecialist sp, URouting (snd (parse_routing (?r ''supervisor''))),
      UAgentTrace [lit ''SupervisorAgent'']] s2"
  define s4 where "s4 = merge_updates [UArtifact art, UAgentTrace
      [if sp = lit ''code_fixer'' then lit ''CodeFixerAgent'' else lit ''InfraSREAgent'']] s3"
  define s5 where "s5 = merge_updates [UVerdict (parse_verdict (?r ''security_reviewer'')),
      UClassifier (cf_model (snd (b ''security_reviewer''))), UAgentTrace [lit ''SecurityReviewerAgent'']] s4"
  note defs = s1_def s2_def s3_def s4_def s5_def
  have ids: "trace_id_ok (state_trace_id s1)" "trace_id_ok (state_trace_id s2)" "trace_id_ok (state_trace_id s3)"
    "trace_id_ok (state_trace_id s4)"
    using tid(1) by (simp_all add: defs trace)
  obtain w1 where w1: "ag_diagnosis ?ag s1 w =
      (Inr [UCategory (parse_category (?r ''diagnosis'')), UAgentTrace [lit ''DiagnosisAgent'']], w1)"
    "billed_calls [lit ''diagnosis''] [cost ''diagnosis''] w w1"
    "affordable w1 (map cost [''supervisor'', fx, ''security_reviewer''])"
    using diagnosis_pays [OF answers ids(1), of w "map cost [''supervisor'', fx, ''security_reviewer'']"] purse
    by (auto simp: four_def agents_asked_def simp flip: fx_def elim: paysE)
  obtain w2 where w2: "ag_supervisor ?ag s2 w1 = (Inr [USpecialist sp, URouting (snd (parse_routing (?r ''supervisor''))),
      UAgentTrace [lit ''SupervisorAgent'']], w2)"
    "billed_calls [lit ''supervisor''] [cost ''supervisor''] w1 w2" "affordable w2 (map cost [fx, ''security_reviewer''])"
    using supervisor_pays [OF answers ids(2), of w1 "map cost [fx, ''security_reviewer'']"] w1(3)
    by (auto simp: sp_def elim: paysE)
  have analysis: "st_analysis_result s3 = None" using start(1) by (simp add: defs)
  have "pays (lit fx) (cost fx) (map cost [''security_reviewer''])
      ((if sp = lit ''code_fixer'' then ag_code_fixer ?ag else ag_infra_sre ?ag) s3) w2
      [UArtifact art, UAgentTrace [if sp = lit ''code_fixer'' then lit ''CodeFixerAgent'' else lit ''InfraSREAgent'']]"
    using fixers_pay [OF answers ids(3) analysis, of w2 "map cost [''security_reviewer'']"] w2(3) fix_ok(2)
    by (simp add: fx_def art_def fix_reply_def fix_agent_def flip: sp_def split: if_splits)
  then obtain w3 where w3: "(if sp = lit ''code_fixer'' then ag_code_fixer ?ag else ag_infra_sre ?ag) s3 w2 =
      (Inr [UArtifact art, UAgentTrace [if sp = lit ''code_fixer'' then lit ''CodeFixerAgent'' else lit ''InfraSREAgent'']], w3)"
    "billed_calls [lit fx] [cost fx] w2 w3" "affordable w3 [cost ''security_reviewer'']"
    by (auto elim: paysE)
  have "st_fix_artifact s4 = Some art" by (simp add: s4_def)
  from reviewer_pays [OF answers ids(4) w3(3) this fix_ok(1)] obtain w4 where w4: "ag_security_reviewer ?ag s4 w3 =
      (Inr [UVerdict (parse_verdict (?r ''security_reviewer'')), UClassifier (cf_model (snd (b ''security_reviewer''))),
        UAgentTrace [lit ''SecurityReviewerAgent'']], w4)"
    "billed_calls [lit ''security_reviewer''] [cost ''security_reviewer''] w3 w4"
    by (auto elim: paysE)
  have bill: "billed_calls (map lit four) (map cost four) w w4"
    using billed_calls_trans [OF billed_calls_trans [OF w1(2) w2(2)] billed_calls_trans [OF w3(2) w4(2)]]
    by (simp add: four_def agents_asked_def flip: fx_def)
  have "st_fix_artifact (merge_updates [UApproval False] s5) = Some art" by (simp add: s5_def s4_def)
  from calm_verifier [OF calm this fix_ok(3,2)] obtain out err ms w5
    where texts: "out \<in> log_texts h" "err \<in> log_texts h" and ver: "verifier_run h (merge_updates [UApproval False] s5) w4 = (Inr (exited (Verbatim, None) code out err ms), w5)"
      and world: "only_docker w4 w5" "\<exists>evs. docker_log w5 = docker_log w4 @ evs \<and> sandbox_session art evs"
    by metis
  have "graph_invoke h ?ag s w = step_node h ?ag FormatReport
      (delivered elog (parse_category (?r ''diagnosis'')) sp (snd (parse_routing (?r ''supervisor'')))
        art (parse_verdict (?r ''security_reviewer'')) (cf_model (snd (b ''security_reviewer'')))
        (exec_ok (if code = 0 then ExSuccess else ExFailure) (Some code) out err ms) (Verbatim, None) s) w5"
    using named start(2) sp verdict log_ok w1(1) w2(1) w3(1) w4(1) ver unfolding defs
    by (intro graph_walk) (simp_all add: production_agents_simps)
  with bill world texts show ?thesis by blast
qed

text \<open>The pipeline's thread is what the report node makes of that state.\<close>

lemma production_run_delivers:
  assumes answers: "answering h b reply p c cost" "affordable w (map cost (agents_asked reply))"
    and tid: "trace_id_ok tid"
    and log: "parse_log h (initial_state (path_str log_path) (Some tid)) w = (Inr [UErrorLog (Some elog), UParseError None], w)"
    and fix_ok: "\<not> deny_listed (fix_reply reply)" "h_compile h (fix_reply reply) = Compiles" "strip (fix_reply reply) \<noteq> []"
    and verdict: "parse_verdict (reply (lit ''security_reviewer'')) \<noteq> lit ''HIGH_RISK''"
    and calm: "calm_sandbox h code"
  obtains out err ms w' where "out \<in> log_texts h" "err \<in> log_texts h"
    "pipeline_thread h (production_agents h b) log_path (Some tid) w =
      step_node h (production_agents h b) FormatReport
        (delivered elog (parse_category (reply (lit ''diagnosis''))) (fst (parse_routing (reply (lit ''supervisor''))))
          (snd (parse_routing (reply (lit ''supervisor'')))) (fix_reply reply)
          (parse_verdict (reply (lit ''security_reviewer''))) (cf_model (snd (b ''security_reviewer'')))
          (exec_ok (if code = 0 then ExSuccess else ExFailure) (Some code) out err ms) (Verbatim, None)
          (initial_state (path_str log_path) (Some tid))) w'"
proof -
  let ?s = "initial_state (path_str log_path) (Some tid)"
  have "st_trace_id ?s = Some tid" "st_analysis_result ?s = None" "st_cost_exhausted ?s \<noteq> Some True"
    using tid by (auto simp: initial_state_def nonempty_def trace_id_ok_def)
  from production_arrives [OF answers this(1) tid this(2,3) log fix_ok verdict calm] that show ?thesis
    unfolding pipeline_thread_def by blast
qed

text \<open>The whole pipeline, with what it leaves in the state, the provider's log, the containers' log and the guard.\<close>

lemma production_run_completes:
  fixes h b log_path tid w
  defines "t \<equiv> pipeline_thread h (production_agents h b) log_path (Some tid) w"
  assumes answers: "answering h b reply p c cost" "affordable w (map cost (agents_asked reply))"
    and tid: "trace_id_ok tid" and log: "files w (path_str log_path) \<noteq> None"
      "parse_log h (initial_state (path_str log_path) (Some tid)) w = (Inr [UErrorLog (Some elog), UParseError None], w)"
    and fix_ok: "\<not> deny_listed (fix_reply reply)" "h_compile h (fix_reply reply) = Compiles" "strip (fix_reply reply) \<noteq> []"
    and verdict: "parse_verdict (reply (lit ''security_reviewer'')) \<noteq> lit ''HIGH_RISK''"
    and calm: "calm_sandbox h code"
  shows "(\<exists>r. run_pipeline h (production_agents h b) log_path (Some tid) w = (r, th_world t) \<and>
       (th_status t = Finished \<and> r = Inr (path_str (the (st_report_path (th_state t)))) \<or>
        (\<exists>e. th_status t = Failed FormatReport e \<and> r = Inl e)))"
    and "st_specialist (th_state t) = Some (fst (parse_routing (reply (lit ''supervisor''))))"
      "st_fix_artifact (th_state t) = Some (fix_reply reply)"
      "map_option ex_return_code (st_execution_result (th_state t)) = Some (Some code)"
    and "\<exists>reqs. sdk_log (th_world t) = sdk_log w @ reqs \<and> map rq_agent_name reqs = map lit (agents_asked reply)"
    and "\<exists>evs. docker_log (th_world t) = docker_log w @ evs \<and> sandbox_session (fix_reply reply) evs"
    and "\<exists>g g'. current_guard w = Inr g \<and> current_guard (th_world t) = Inr g' \<and>
       total_spent g' = foldl dec_add (total_spent g) (map cost (agents_asked reply)) \<and>
       call_count g' = call_count g + 4 \<and> \<not> over_budget g'"
proof -
  let ?ag = "production_agents h b" and ?four = "agents_asked reply"
  define s where "s = initial_state (path_str log_path) (Some tid)"
  have start: "st_trace_id s = Some tid" "st_analysis_result s = None" "st_cost_exhausted s \<noteq> Some True"
    "st_analysis_error s = None"
    using tid by (auto simp: s_def initial_state_def nonempty_def trace_id_ok_def)
  obtain out err ms w4 w5 where bill: "billed_calls (map lit ?four) (map cost ?four) w w4"
    and docker: "only_docker w4 w5" "\<exists>evs. docker_log w5 = docker_log w4 @ evs \<and> sandbox_session (fix_reply reply) evs"
    and run: "graph_invoke h ?ag s w = step_node h ?ag FormatReport
      (delivered elog (parse_category (reply (lit ''diagnosis''))) (fst (parse_routing (reply (lit ''supervisor''))))
        (snd (parse_routing (reply (lit ''supervisor'')))) (fix_reply reply)
        (parse_verdict (reply (lit ''security_reviewer''))) (cf_model (snd (b ''security_reviewer'')))
        (exec_ok (if code = 0 then ExSuccess else ExFailure) (Some code) out err ms) (Verbatim, None) s) w5"
    using production_arrives [OF answers start(1) tid start(2,3) log(2) [folded s_def] fix_ok verdict calm] by metis
  define s7 where "s7 = delivered elog (parse_category (reply (lit ''diagnosis'')))
      (fst (parse_routing (reply (lit ''supervisor'')))) (snd (parse_routing (reply (lit ''supervisor''))))
      (fix_reply reply) (parse_verdict (reply (lit ''security_reviewer''))) (cf_model (snd (b ''security_reviewer'')))
      (exec_ok (if code = 0 then ExSuccess else ExFailure) (Some code) out err ms) (Verbatim, None) s"
  have t: "t = step_node h ?ag FormatReport s7 w5" by (simp add: t_def pipeline_thread_def run flip: s_def s7_def)
  note step = report_step [of h ?ag s7 w5, folded t]
  have s7: "st_specialist s7 = Some (fst (parse_routing (reply (lit ''supervisor''))))"
    "st_fix_artifact s7 = Some (fix_reply reply)" "st_parse_error s7 = None" "st_analysis_error s7 = None"
    "map_option ex_return_code (st_execution_result s7) = Some (Some code)"
    by (simp_all add: s7_def delivered_def exec_ok_def start)
  from step(1) s7 show "st_specialist (th_state t) = Some (fst (parse_routing (reply (lit ''supervisor''))))"
    and "st_fix_artifact (th_state t) = Some (fix_reply reply)"
    and "map_option ex_return_code (st_execution_result (th_state t)) = Some (Some code)"
    by auto
  have "run_pipeline h ?ag log_path (Some tid) w = (pipeline_outcome t, th_world t)"
    using log(1) by (auto simp: run_pipeline_def Let_def simp flip: t_def)
  moreover have "th_status t = Finished \<and> pipeline_outcome t = Inr (path_str (the (st_report_path (th_state t)))) \<or>
      (\<exists>e. th_status t = Failed FormatReport e \<and> pipeline_outcome t = Inl e)"
    using step(1) s7 by (auto simp: pipeline_outcome_def nonempty_def Let_def)
  ultimately show "\<exists>r. run_pipeline h ?ag log_path (Some tid) w = (r, th_world t) \<and>
       (th_status t = Finished \<and> r = Inr (path_str (the (st_report_path (th_state t)))) \<or>
        (\<exists>e. th_status t = Failed FormatReport e \<and> r = Inl e))" by blast
  show "\<exists>reqs. sdk_log (th_world t) = sdk_log w @ reqs \<and> map rq_agent_name reqs = map lit ?four"
    using bill docker(1) step(4) by (auto simp: billed_calls_def only_docker_def)
  show "\<exists>evs. docker_log (th_world t) = docker_log w @ evs \<and> sandbox_session (fix_reply reply) evs"
    using bill docker(2) step(3) by (simp add: billed_calls_def)
  from answers(2) obtain g where g: "current_guard w = Inr g"
    "foldl dec_add (total_spent g) (map cost ?four) \<le> budget_limit g"
    by (auto simp: affordable_def)
  with bill obtain bills where bills: "map snd bills = map cost ?four" "current_guard w4 = Inr (guard_run g bills)"
    by (auto simp: billed_calls_def)
  have "length bills = 4" using arg_cong [OF bills(1), of length] by (simp add: agents_asked_def)
  moreover have "current_guard (th_world t) = Inr (guard_run g bills)"
    using bills(2) docker(1) step(2,5) by (simp add: only_docker_def)
  ultimately show "\<exists>g g'. current_guard w = Inr g \<and> current_guard (th_world t) = Inr g' \<and>
       total_spent g' = foldl dec_add (total_spent g) (map cost ?four) \<and>
       call_count g' = call_count g + 4 \<and> \<not> over_budget g'"
    using g by (auto simp: guard_run_total guard_run_count bills(1) over_budget_def guard_run_frame dec_le_val)
qed

end
