(* ===== verification/BenchmarkRunner.thy ===== *)
theory BenchmarkRunner
  imports Benchmark Completion
begin

text \<open>
  \<^verbatim>\<open>scripts/run_benchmark.py\<close>: the full benchmark runner, with agents that replay the ground
  truth of a scenario through the mock client.  A result line is the JSON of one scenario; the
  summary has the latency percentiles, the cost, the resolution rate and the false negatives.

  The laws: a percentile lies between the smallest and the largest latency; a scenario that
  trips the budget aborts the run; a passed scenario ran and exited with 0; the mock agents
  answer the ground truth of their scenario; and a well-formed scenario in a calm sandbox gets
  through every node.
\<close>

subsection \<open>Percentiles\<close>

definition percentile :: "int list \<Rightarrow> nat \<Rightarrow> int result" where
  "percentile ms pct =
     (if ms = [] then Inr 0
      else (let s = sort ms in
        if length s = 1 then Inr (s ! 0)
        else (let k = fl_div_nat (fl_of_int (int ((length s - 1) * pct))) 100 in
          res_bind (fl_trunc k) (\<lambda>i.
            let lo = nat i; hi = min (lo + 1) (length s - 1) in
            if lo = hi then Inr (s ! lo)
            else fl_round (fl_add (fl_of_int (s ! lo))
                   (fl_mul (fl_of_int (s ! hi - s ! lo)) (fl_add k (fl_of_int (- i)))))))))"

subsection \<open>Mock agents\<close>

definition mock_response :: "ustr \<Rightarrow> llm_response" where
  "mock_response content =
     \<lparr>rs_content = content, rs_model = lit ''mock'', rs_prompt_tokens = 1, rs_completion_tokens = 1,
      rs_cost = dec_zero, rs_currency = lit ''CNY'', rs_latency_ms = 0, rs_trace_id = replicate 32 48\<rparr>"

text \<open>
  A mock client in the world of the pipeline: it answers from its own state, whose call counter
  the benchmark never reads.
\<close>

definition scripted_client :: "ustr \<Rightarrow> world client" where
  "scripted_client content ms model trace agent k temp = (\<lambda>w.
     (fst (mock_complete ms model trace agent k temp
        (with_fixture_response (mock_response content) mock_init)), w))"

definition mock_config :: agent_model_config where
  "mock_config =
     \<lparr>cf_model = lit ''mock'', cf_temperature = fl_zero, cf_max_tokens = 512, cf_endpoint_alias = []\<rparr>"

definition mock_specialist :: "scenario \<Rightarrow> ustr" where
  "mock_specialist sc =
     (if sc_classification sc \<in> {lit ''INFRA'', lit ''CONFIG''} then lit ''infra_sre''
      else lit ''code_fixer'')"

definition mock_artifact :: "scenario \<Rightarrow> ustr" where
  "mock_artifact sc = lit ''print('' @ repr_str (sc_action sc) @ lit '')''"

definition mock_reply :: "string \<Rightarrow> ustr \<Rightarrow> string \<Rightarrow> string \<Rightarrow> ustr" where
  "mock_reply key value key' value' =
     dumps None (JObj [(lit key, JStr value), (lit key', JStr (lit value'))])"

definition build_mock_agents :: "host \<Rightarrow> scenario \<Rightarrow> agents" where
  "build_mock_agents h sc =
     \<lparr>ag_diagnosis = diagnosis_run
        (scripted_client (mock_reply ''category'' (sc_classification sc) ''reasoning'' ''benchmark mock'')) mock_config,
      ag_supervisor = supervisor_run
        (scripted_client (mock_reply ''specialist'' (mock_specialist sc) ''rationale'' ''benchmark mock routing'')) mock_config,
      ag_code_fixer = code_fixer_run h (scripted_client (mock_artifact sc)) mock_config,
      ag_infra_sre = infra_sre_run h (scripted_client (mock_artifact sc)) mock_config,
      ag_security_reviewer = security_reviewer_run
        (scripted_client (mock_reply ''verdict'' (sc_verdict sc) ''reasoning'' ''benchmark mock'')) mock_config,
      ag_verifier = verifier_run h\<rparr>"

subsection \<open>One scenario\<close>

fun exn_class :: "exn \<Rightarrow> ustr" where
  "exn_class (FileNotFoundError m) = lit ''FileNotFoundError''"
| "exn_class (OSError m) = lit ''OSError''"
| "exn_class (UnicodeError m) = lit ''UnicodeError''"
| "exn_class (JSONDecodeError m) = lit ''JSONDecodeError''"
| "exn_class (AttributeError m) = lit ''AttributeError''"
| "exn_class (TypeError m) = lit ''TypeError''"
| "exn_class (ValueError m) = lit ''ValueError''"
| "exn_class (KeyError m) = lit ''KeyError''"
| "exn_class (RuntimeError m) = lit ''RuntimeError''"
| "exn_class (ZeroDivisionError m) = lit ''ZeroDivisionError''"
| "exn_class (ValidationError n fs) = lit ''ValidationError''"
| "exn_class (ConfigurationError m) = lit ''ConfigurationError''"
| "exn_class (DiagnosticError m) = lit ''DiagnosticError''"
| "exn_class (LLMTimeoutError m) = lit ''LLMTimeoutError''"
| "exn_class (LLMProviderError m) = lit ''LLMProviderError''"
| "exn_class (CostGuardError a b c d) = lit ''CostGuardError''"
| "exn_class (ReadTimeout m) = lit ''ReadTimeout''"
| "exn_class (OtherError c m) = c"

text \<open>\<^verbatim>\<open>get_cost_guard().state\<close>.\<close>

definition guard_now :: "(world, cost_guard) io" where
  "guard_now = (\<lambda>w.
     case get_cost_guard (environ w budget_env) (guard w) of
       Inl e \<Rightarrow> (Inl e, w)
     | Inr g \<Rightarrow> (Inr g, w\<lparr>guard := Some g\<rparr>))"

text \<open>
  The guarded part: the values \<^verbatim>\<open>result\<close> holds at its end, empty when the first call raised,
  and the exception.  When the resumption raises, \<^verbatim>\<open>result\<close> is still the interrupted state.
\<close>

definition attempt ::
  "deployment \<Rightarrow> compiled \<Rightarrow> ustr \<Rightarrow> agent_state \<Rightarrow> process \<Rightarrow> agent_state option \<times> exn option \<times> process" where
  "attempt d g tid s p =
     (let (t, p1) = compiled_invoke (dp_host d) g tid s p in
      case th_status t of
        Failed n e \<Rightarrow> (None, Some e, p1)
      | Suspended \<Rightarrow>
          (let (t', p2) = compiled_resume (dp_host d) (dp_idle d) g tid (JStr (lit ''approved'')) p1 in
           case th_status t' of
             Failed n e \<Rightarrow> (Some (th_state t), Some e, p2)
           | _ \<Rightarrow> (Some (th_state t'), None, p2))
      | _ \<Rightarrow> (Some (th_state t), None, p1))"

definition bench_state :: "scenario \<Rightarrow> ustr \<Rightarrow> agent_state" where
  "bench_state sc trace_id =
     (initial_state (path_str (sc_log_path sc)) None)
       \<lparr>st_trace_id := Some trace_id, st_cost_accumulated := Some fl_zero\<rparr>"

definition over_budget_stop :: "agent_state \<Rightarrow> bool" where
  "over_budget_stop s \<longleftrightarrow>
     st_cost_exhausted s = Some True \<or> lit ''cost_guard_triggered'' \<in> set (st_agent_trace s)"

definition bench_resolved :: "agent_state \<Rightarrow> bool" where
  "bench_resolved s \<longleftrightarrow> verified_fix s \<and> st_execution_error s = None"

definition bench_result ::
  "host \<Rightarrow> scenario \<Rightarrow> ustr \<Rightarrow> agent_state option \<Rightarrow> exn option \<Rightarrow> nat \<Rightarrow> decimal \<Rightarrow> benchmark_result" where
  "bench_result h sc trace_id res err ms cost =
     \<lparr>br_scenario_id = sc_id sc,
      br_classification = (case res of None \<Rightarrow> lit ''UNKNOWN''
        | Some s \<Rightarrow> or_text (or_else (st_error_category s) []) (lit ''UNKNOWN'')),
      br_resolution = take 200 (case res of None \<Rightarrow> lit ''(none)''
        | Some s \<Rightarrow> or_text (or_else (st_fix_artifact s) []) (lit ''(none)'')),
      br_passed = (case res of None \<Rightarrow> False | Some s \<Rightarrow> bench_resolved s),
      br_latency_ms = int ms, br_cost = cost, br_currency = lit ''CNY'', br_trace_id = trace_id,
      br_error = map_option (\<lambda>e. exn_class e @ lit '': '' @ exn_str h e) err\<rparr>"

definition run_v2 ::
  "deployment \<Rightarrow> bool \<Rightarrow> scenario \<Rightarrow> (process, benchmark_result \<times> ustr option) io" where
  "run_v2 d use_mock sc =
     (let h = dp_host d; ags = (if use_mock then Some (build_mock_agents h sc) else None) in
      io_bind (build_multi_agent_graph h (dp_pg d) (dp_built d) None ags) (\<lambda>g p.
        let trace_id = h_token h (pr_world p);
            tid = lit ''bench-'' @ sc_id sc @ lit ''-'' @ dp_uuid d p in
        io_bind (on_world guard_now) (\<lambda>before p0.
          let (res, err, p1) = attempt d g tid (bench_state sc trace_id) p0;
              ms = h_elapsed h (pr_world p0) (pr_world p1) in
          io_bind (on_world guard_now) (\<lambda>after.
            case res of
              Some s \<Rightarrow>
                if over_budget_stop s
                then io_raise (CostGuardError (total_spent after) dec_zero (budget_limit after) (guard_currency after))
                else io_bind (io_lift (mk_benchmark_result
                       (bench_result h sc trace_id res err ms (dec_sub (total_spent after) (total_spent before)))))
                     (\<lambda>r. io_return (r, st_security_verdict s))
            | None \<Rightarrow>
                io_bind (io_lift (mk_benchmark_result
                       (bench_result h sc trace_id res err ms (dec_sub (total_spent after) (total_spent before)))))
                     (\<lambda>r. io_return (r, None))) p1) p))"

subsection \<open>The run\<close>

record run_source =
  rn_scenarios :: scenario_source
  rn_stamp :: "world \<Rightarrow> ustr"
  rn_git_sha :: "world \<Rightarrow> ustr result"

definition git_short_sha :: "run_source \<Rightarrow> world \<Rightarrow> ustr" where
  "git_short_sha src w = (case rn_git_sha src w of Inl e \<Rightarrow> lit ''nogit'' | Inr out \<Rightarrow> strip out)"

definition result_json :: "benchmark_result \<Rightarrow> json" where
  "result_json r =
     JObj [(lit ''scenario_id'', JStr (br_scenario_id r)),
           (lit ''actual_classification'', JStr (br_classification r)),
           (lit ''actual_resolution'', JStr (br_resolution r)), (lit ''passed'', JBool (br_passed r)),
           (lit ''latency_ms'', JInt (br_latency_ms r)), (lit ''cost'', JStr (dec_str (br_cost r))),
           (lit ''currency'', JStr (br_currency r)), (lit ''trace_id'', JStr (br_trace_id r)),
           (lit ''error'', (case br_error r of None \<Rightarrow> JNull | Some t \<Rightarrow> JStr t))]"

text \<open>SECURITY scenarios whose HIGH_RISK ground truth the last run under their id missed.\<close>

definition false_negatives :: "scenario list \<Rightarrow> (ustr \<times> ustr option) list \<Rightarrow> ustr list" where
  "false_negatives scs verdicts =
     map sc_id (filter (\<lambda>sc. sc_category sc = lit ''SECURITY'' \<and> sc_verdict sc = lit ''HIGH_RISK'' \<and>
        or_else (map_of verdicts (sc_id sc)) None \<noteq> Some (lit ''HIGH_RISK'')) scs)"

definition category_count :: "scenario list \<Rightarrow> ustr \<Rightarrow> nat" where
  "category_count scs cat = length (filter (\<lambda>sc. sc_category sc = cat) scs)"

definition bench_summary ::
  "ustr \<Rightarrow> scenario list \<Rightarrow> benchmark_result list \<Rightarrow> (ustr \<times> ustr option) list \<Rightarrow> json result" where
  "bench_summary run_id scs rs verdicts =
     (let n = length scs; latencies = map br_latency_ms rs; missed = false_negatives scs verdicts in
      res_bind (percentile latencies 50) (\<lambda>p50.
      res_bind (percentile latencies 95) (\<lambda>p95. Inr (JObj
        [(lit ''run_id'', JStr run_id), (lit ''scenario_count'', JInt (int n)),
         (lit ''category_distribution'',
            JObj (map (\<lambda>cat. (cat, JInt (int (category_count scs cat)))) scenario_categories)),
         (lit ''pipeline'', JObj
            [(lit ''latency_ms'', JObj [(lit ''p50'', JInt p50), (lit ''p95'', JInt p95)]),
             (lit ''total_cost'', JStr (dec_str (foldl dec_add dec_zero (map br_cost rs)))),
             (lit ''cost_currency'', JStr (lit ''CNY'')),
             (lit ''resolution_rate'',
                JFloat (if n = 0 then fl_zero
                        else fl_round2 (fl_div_int (int (length (filter br_passed rs))) n))),
             (lit ''resolved_definition'',
                JStr (lit ''report_text present AND no execution_error AND execution_result.status == '' @
                      [39] @ lit ''success'' @ [39]))]),
         (lit ''security_subset'', JObj
            [(lit ''count'', JInt (int (category_count scs (lit ''SECURITY'')))),
             (lit ''false_negative_count'', JInt (int (length missed))),
             (lit ''false_negative_scenario_ids'', JArr (map JStr missed))])]))))"

fun run_all :: "deployment \<Rightarrow> bool \<Rightarrow> scenario list \<Rightarrow>
    (process, benchmark_result list \<times> (ustr \<times> ustr option) list) io" where
  "run_all d use_mock [] = io_return ([], [])"
| "run_all d use_mock (sc # scs) =
     io_bind (run_v2 d use_mock sc) (\<lambda>(r, v).
     io_bind (run_all d use_mock scs) (\<lambda>(rs, vs).
       io_return (r # rs, if sc_id sc \<in> fst ` set vs then vs else (sc_id sc, v) # vs)))"

text \<open>The environment of a run; \<^verbatim>\<open>setdefault\<close> keeps what is there.\<close>

definition set_default :: "ustr \<Rightarrow> ustr \<Rightarrow> (ustr \<Rightarrow> ustr option) \<Rightarrow> ustr \<Rightarrow> ustr option" where
  "set_default k v env = (if env k = None then env(k \<mapsto> v) else env)"

definition run_environ :: "ustr \<Rightarrow> bool \<Rightarrow> (ustr \<Rightarrow> ustr option) \<Rightarrow> ustr \<Rightarrow> ustr option" where
  "run_environ budget use_mock env =
     (let env' = env(budget_env \<mapsto> budget) in
      if use_mock
      then set_default (lit ''GLM_API_KEY'') (lit ''mock-key'')
             (set_default (lit ''ARK_API_KEY'') (lit ''mock-key'') env')
      else env')"

definition fresh_budget :: "ustr \<Rightarrow> bool \<Rightarrow> (world, unit) io" where
  "fresh_budget budget use_mock = (\<lambda>w.
     (Inr (), w\<lparr>environ := run_environ budget use_mock (environ w), guard := None\<rparr>))"

definition run ::
  "deployment \<Rightarrow> run_source \<Rightarrow> ustr \<Rightarrow> ustr \<Rightarrow> bool \<Rightarrow> ustr list option \<Rightarrow> ustr \<Rightarrow> (process, json) io" where
  "run d src dir budget use_mock only output_root =
     io_bind (on_world (fresh_budget budget use_mock)) (\<lambda>_.
     io_bind (on_world (load_scenarios (dp_host d) (rn_scenarios src) (Some dir))) (\<lambda>all.
       let scs = (case only of None \<Rightarrow> all | Some ids \<Rightarrow> filter (\<lambda>sc. sc_id sc \<in> set ids) all) in
       io_bind (run_all d use_mock scs) (\<lambda>(rs, vs) p.
         let run_id = rn_stamp src (pr_world p) @ lit ''-'' @ git_short_sha src (pr_world p);
             out_dir = path_join output_root run_id in
         io_bind (io_lift (bench_summary run_id scs rs vs)) (\<lambda>summary.
         io_bind (on_world (host_step (h_mkdir (dp_host d) out_dir))) (\<lambda>_.
         io_bind (on_world (write_text (dp_host d) (path_join out_dir (lit ''results.jsonl''))
                    (concat (map (\<lambda>r. dumps None (result_json r) @ newline) rs)))) (\<lambda>_.
         io_bind (on_world (write_text (dp_host d) (path_join out_dir (lit ''summary.json''))
                    (dumps (Some 2) summary))) (\<lambda>_.
           io_return summary)))) p)))"

subsection \<open>Laws of the percentile\<close>

lemma fl_between_val: "fl_between lo hi x \<Longrightarrow> lo \<le> fl_val x \<and> fl_val x \<le> hi"
  by (simp add: fl_between_def)

lemma fl_between_form: "fl_between lo hi x \<Longrightarrow> \<exists>m e. x = Fin False m e"
  by (simp add: fl_between_def)

lemma fl_of_int_neg:
  assumes "n < 2 ^ 53"
  shows "\<exists>s m e. fl_of_int (- int n) = Fin s m e \<and> fl_val (Fin s m e) = - of_nat n"
proof (cases "n = 0")
  case True
  then have "fl_of_int (- int n) = Fin False 0 0"
    by (simp add: fl_of_int_def fl_of_ratio_def scale_div_def half_even_div_def Let_def)
  with True show ?thesis by (intro exI [of _ False] exI [of _ 0]) simp
next
  case False
  have "0 < (1 :: nat)" "n * 1 \<le> n" "n \<le> n * 1" by simp_all
  from fl_of_ratio_between [OF this assms, of True] obtain m e where
    "fl_of_ratio True n 1 = Fin True m e" "of_nat n \<le> (of_nat m * 2 powi e :: rat)"
    "(of_nat m * 2 powi e :: rat) \<le> of_nat n" .
  with False show ?thesis by (intro exI [of _ True] exI [of _ m] exI [of _ e]) (simp add: fl_of_int_def)
qed

text \<open>Linear interpolation between two integers stays between them.\<close>

lemma interpolate_between:
  assumes "a \<le> b" "b < 2 ^ 53" "n < 2 ^ 53"
    and "k = Fin False mk ek" "of_nat n \<le> fl_val k" "fl_val k < of_nat (Suc n)"
  shows "\<exists>r. fl_round (fl_add (fl_of_int (int a)) (fl_mul (fl_of_int (int b - int a))
      (fl_add k (fl_of_int (- int n))))) = Inr (int r) \<and> a \<le> r \<and> r \<le> b"
proof -
  obtain s m e where neg: "fl_of_int (- int n) = Fin s m e" "fl_val (Fin s m e) = - of_nat n"
    using fl_of_int_neg [OF assms(3)] by blast
  have "fl_between (of_nat 0) (of_nat 1) (fl_add k (fl_of_int (- int n)))"
    using assms(5,6) neg by (intro fl_add_between [OF assms(4) neg(1)]) auto
  moreover have "fl_between (of_nat (b - a)) (of_nat (b - a)) (fl_of_int (int b - int a))"
    using fl_of_int_between [of "b - a"] assms(1,2) by (simp add: of_nat_diff)
  ultimately have prod: "fl_between (of_nat ((b - a) * 0)) (of_nat ((b - a) * 1))
      (fl_mul (fl_of_int (int b - int a)) (fl_add k (fl_of_int (- int n))))"
    using assms(2) by (intro fl_mul_between) auto
  have base: "fl_between (of_nat a) (of_nat a) (fl_of_int (int a))"
    using assms(1,2) by (intro fl_of_int_between) simp
  from fl_between_form [OF base] obtain ma ea where A: "fl_of_int (int a) = Fin False ma ea" by blast
  from fl_between_form [OF prod] obtain mp ep where P:
    "fl_mul (fl_of_int (int b - int a)) (fl_add k (fl_of_int (- int n))) = Fin False mp ep" by blast
  have "(of_nat b :: rat) = of_nat a + of_nat (b - a)" using assms(1) by (simp add: of_nat_diff)
  moreover have "fl_val (fl_of_int (int a)) = of_nat a" using fl_between_val [OF base] by simp
  moreover have "0 \<le> fl_val (fl_mul (fl_of_int (int b - int a)) (fl_add k (fl_of_int (- int n))))"
    "fl_val (fl_mul (fl_of_int (int b - int a)) (fl_add k (fl_of_int (- int n)))) \<le> of_nat (b - a)"
    using fl_between_val [OF prod] by (simp_all only: mult_0_right mult_1_right of_nat_0)
  ultimately have "of_nat a \<le> fl_val (fl_of_int (int a)) + fl_val (fl_mul (fl_of_int (int b - int a)) (fl_add k (fl_of_int (- int n))))"
    "fl_val (fl_of_int (int a)) + fl_val (fl_mul (fl_of_int (int b - int a)) (fl_add k (fl_of_int (- int n)))) \<le> of_nat b"
    by linarith+
  then have "fl_between (of_nat a) (of_nat b) (fl_add (fl_of_int (int a))
      (fl_mul (fl_of_int (int b - int a)) (fl_add k (fl_of_int (- int n)))))"
    using assms(2) by (intro fl_add_between [OF A P]) simp_all
  then show ?thesis by (rule fl_round_between)
qed

lemma percentile_bounds:
  assumes "ms \<noteq> []" "\<forall>v \<in> set ms. 0 \<le> v \<and> v < 2 ^ 53" "length ms < 2 ^ 46" "pct \<le> 100"
  shows "\<exists>p. percentile ms pct = Inr p \<and> Min (set ms) \<le> p \<and> p \<le> Max (set ms)"
proof -
  define s where "s = sort ms"
  have s: "set s = set ms" "sorted s" "length s = length ms" by (simp_all add: s_def)
  have mem: "Min (set ms) \<le> s ! i \<and> s ! i \<le> Max (set ms)" if "i < length s" for i
    using that s(1) by (metis List.finite_set Max_ge Min_le nth_mem)
  show ?thesis
  proof (cases "length s = 1")
    case True
    with assms(1) mem [of 0] show ?thesis
      unfolding percentile_def Let_def s_def [symmetric] by simp
  next
    case False
    with assms(1) s(3) have len: "2 \<le> length s" by (cases ms; cases "tl ms") auto
    define N where "N = (length s - 1) * pct"
    define k where "k = fl_div_nat (fl_of_int (int N)) 100"
    have NL: "N \<le> (length s - 1) * 100" using assms(4) by (simp add: N_def)
    have small: "(length s - 1) * 100 < 2 ^ 53" using assms(3) s(3) by simp
    have "fl_between (of_nat N) (of_nat N) (fl_of_int (int N))"
      using NL small by (intro fl_of_int_between) simp
    then have kb: "fl_between (of_nat 0) (of_nat (length s - 1)) k"
      unfolding k_def using NL small by (intro fl_div_nat_between) auto
    from fl_trunc_between [OF kb] obtain n where n: "fl_trunc k = Inr (int n)" "n \<le> length s - 1"
      "of_nat n \<le> fl_val k" "fl_val k < of_nat (Suc n)" by blast
    have unfold: "percentile ms pct =
        (let hi = min (n + 1) (length s - 1) in
         if n = hi then Inr (s ! n)
         else fl_round (fl_add (fl_of_int (s ! n)) (fl_mul (fl_of_int (s ! hi - s ! n)) (fl_add k (fl_of_int (- int n))))))"
      using assms(1) False n(1)
      unfolding percentile_def Let_def s_def [symmetric] N_def [symmetric] k_def [symmetric] by simp
    show ?thesis
    proof (cases "n = min (n + 1) (length s - 1)")
      case True
      have "percentile ms pct = Inr (s ! n)" using unfold unfolding Let_def if_P [OF True] .
      moreover have "n < length s" using n(2) len by linarith
      ultimately show ?thesis using mem by blast
    next
      case ne: False
      then have hi: "min (n + 1) (length s - 1) = n + 1" "n + 1 < length s" using n(2) len by auto
      define a b where "a = nat (s ! n)" and "b = nat (s ! (n + 1))"
      have in_set: "s ! n \<in> set ms" "s ! (n + 1) \<in> set ms"
        using hi(2) s(1) nth_mem by (metis Suc_eq_plus1 Suc_lessD)+
      then have ab: "s ! n = int a" "s ! (n + 1) = int b" "b < 2 ^ 53"
        using assms(2) by (auto simp: a_def b_def nat_less_iff)
      have "s ! n \<le> s ! (n + 1)" using s(2) hi(2) by (simp add: sorted_iff_nth_mono)
      then have "a \<le> b" unfolding ab by (simp only: of_nat_le_iff)
      obtain mk ek where K: "k = Fin False mk ek" using fl_between_form [OF kb] by blast
      from interpolate_between [OF \<open>a \<le> b\<close> ab(3) _ K n(3,4)] n(2) small
      obtain r where "fl_round (fl_add (fl_of_int (int a)) (fl_mul (fl_of_int (int b - int a))
          (fl_add k (fl_of_int (- int n))))) = Inr (int r)" "a \<le> r" "r \<le> b" by auto
      with unfold ne hi ab have "percentile ms pct = Inr (int r)" by (simp add: Let_def)
      moreover have "Min (set ms) \<le> int a" "int b \<le> Max (set ms)"
        using mem [of n] mem [of "n + 1"] hi(2) ab by auto
      ultimately show ?thesis using \<open>a \<le> r\<close> \<open>r \<le> b\<close> by force
    qed
  qed
qed

subsection \<open>Laws of the run\<close>

lemma attempt_honest:
  assumes "attempt d g tid s p = (Some s', err, p')" "st_execution_result s = None"
    and "cg_agents g = production_agents (dp_host d) b"
  shows "exec_honest (dp_host d) s'"
proof -
  let ?h = "dp_host d"
  define s0 where "s0 = over_saved (pr_store p (cg_saver g) tid) s"
  define t where "t = graph_invoke ?h (cg_agents g) s0 (pr_world p)"
  have "st_execution_result s0 = None"
    using assms(2) by (auto simp: s0_def over_saved_def split: option.split)
  then have hon: "thread_honest ?h t" unfolding t_def assms(3) by (rule invoke_honest)
  have inv: "compiled_invoke ?h g tid s p = (t, save_thread (cg_saver g) tid t p)"
    by (simp add: compiled_invoke_def Let_def t_def s0_def)
  show ?thesis
  proof (cases "th_status t = Suspended")
    case False
    with assms(1) inv have "s' = th_state t"
      by (cases "th_status t") (simp_all add: attempt_def)
    with hon show ?thesis by (simp add: thread_honest_def)
  next
    case True
    let ?x = "invoke_and_approve d g tid s p"
    obtain r i q where x: "?x = (r, i, q)" by (cases ?x)
    obtain t' p2 where t': "compiled_resume ?h (dp_idle d) g tid (JStr (lit ''approved'')) (save_thread (cg_saver g) tid t p) = (t', p2)"
      by (cases "compiled_resume ?h (dp_idle d) g tid (JStr (lit ''approved'')) (save_thread (cg_saver g) tid t p)")
    show ?thesis
    proof (cases "\<exists>n e. th_status t' = Failed n e")
      case fails: True
      with assms(1) inv True t' have "s' = th_state t" by (auto simp: attempt_def)
      with hon show ?thesis by (simp add: thread_honest_def)
    next
      case False
      with assms(1) inv True t' have "s' = th_state t'" "invoke_and_approve d g tid s p = (Inr (th_state t'), True, p2)"
        by (cases "th_status t'"; simp add: attempt_def invoke_and_approve_def)+
      with invoke_and_approve_honest [OF _ assms(2,3)] show ?thesis by blast
    qed
  qed
qed

text \<open>A passed scenario of a real run was observed to exit with 0.\<close>

lemma passed_ran:
  assumes "run_v2 d False sc p = (Inr (r, v), p')" "br_passed r"
  shows "\<exists>code w. h_docker_wait (dp_host d) (w\<lparr>docker_log := docker_log w @ [run_event code]\<rparr>) = Inr 0"
proof -
  let ?h = "dp_host d"
  from assms(1) obtain g p1 where b: "build_multi_agent_graph ?h (dp_pg d) (dp_built d) None None p = (Inr g, p1)"
    by (auto simp: run_v2_def Let_def elim!: io_bind_cases)
  then have ag: "cg_agents g = production_agents ?h (dp_built d)" by (auto elim: build_cases)
  let ?tid = "lit ''bench-'' @ sc_id sc @ lit ''-'' @ dp_uuid d p1"
  obtain before p2 where g1: "on_world guard_now p1 = (Inr before, p2)"
    using assms(1) b by (auto simp: run_v2_def Let_def elim!: io_bind_cases)
  obtain res err p3 where at: "attempt d g ?tid (bench_state sc (h_token ?h (pr_world p1))) p2 = (res, err, p3)"
    by (cases "attempt d g ?tid (bench_state sc (h_token ?h (pr_world p1))) p2")
  have "\<exists>s. res = Some s \<and> bench_resolved s"
    using assms b g1 at
    by (cases res)
      (auto simp: run_v2_def Let_def mk_benchmark_result_def bench_result_def elim!: io_bind_cases split: if_splits)
  then obtain s where s: "res = Some s" "bench_resolved s" by blast
  have "exec_honest ?h s"
    using at s(1) ag by (intro attempt_honest [where b = "dp_built d"]) (auto simp: bench_state_def initial_state_def)
  with s(2) show ?thesis by (auto simp: exec_honest_def verified_fix_def bench_resolved_def)
qed

text \<open>Where no container exits with 0, nothing is resolved and nothing passes.\<close>

lemma no_success_without_exit_0:
  assumes "\<And>w. h_docker_wait (dp_host d) w \<noteq> Inr 0"
  shows "resolved_count (fst (run_details d scs p)) = 0 \<and>
    (case fst (run_all d False scs p) of Inl e \<Rightarrow> True | Inr (rs, vs) \<Rightarrow> list_all (\<lambda>r. \<not> br_passed r) rs)"
proof
  show "resolved_count (fst (run_details d scs p)) = 0"
  proof (induction scs arbitrary: p)
    case (Cons sc scs)
    obtain x p1 where x: "run_v2_detail d sc p = (x, p1)" by (cases "run_v2_detail d sc p")
    with resolved_ran [of d sc p] assms have "\<not> dt_resolved x" by auto
    with Cons [of p1] x show ?case by (auto simp: resolved_count_def split: prod.splits)
  qed (simp add: resolved_count_def)
next
  show "case fst (run_all d False scs p) of Inl e \<Rightarrow> True | Inr (rs, vs) \<Rightarrow> list_all (\<lambda>r. \<not> br_passed r) rs"
  proof (induction scs arbitrary: p)
    case (Cons sc scs)
    obtain r p1 where r: "run_v2 d False sc p = (r, p1)" by (cases "run_v2 d False sc p")
    show ?case
    proof (cases r)
      case (Inr rv)
      obtain x v where rv: "rv = (x, v)" by (cases rv)
      have "\<not> br_passed x" using passed_ran [of d sc p x v p1] r Inr rv assms by auto
      moreover obtain rest p2 where "run_all d False scs p1 = (rest, p2)" by (cases "run_all d False scs p1")
      ultimately show ?thesis using Cons [of p1] r Inr rv
        by (cases rest) (auto simp: io_bind_def io_return_def)
    qed (use r in \<open>simp add: io_bind_def\<close>)
  qed (simp add: io_return_def)
qed

subsection \<open>Laws of the mock agents\<close>

lemma zero_temperature: "fl_le fl_zero fl_zero \<and> fl_le fl_zero (fl_of_int 2)"
  by (simp add: fl_zero_def fl_of_int_def fl_of_ratio_def Let_def)

lemma scripted_ask:
  assumes "trace_id_ok trace" "name \<noteq> []" "msgs \<noteq> []"
  shows "ask (scripted_client content) mock_config name trace msgs w = (Inr (mock_response content), w)"
proof -
  have "mk_request (request_of msgs (lit ''mock'') trace name 512 fl_zero) =
      Inr (request_of msgs (lit ''mock'') trace name 512 fl_zero)"
    using assms zero_temperature by (simp add: mk_request_def request_errors_def request_of_def)
  then show ?thesis
    by (simp add: ask_def scripted_client_def mock_config_def mock_complete_def with_fixture_response_def
        mock_init_def Let_def)
qed

lemma mock_reply_fields:
  assumes "text_ok v" "key \<noteq> key'"
  shows "string_field key (mock_reply key v key' v') = Some v"
    "string_field key' (mock_reply key v key' v') = Some (lit v')"
  unfolding mock_reply_def using assms
  by (auto intro!: string_field_dumps json_ok.intros simp: text_ok_literal)

lemma mock_agents_replay:
  assumes "trace_id_ok (state_trace_id s)" "sc_classification sc \<in> set valid_categories"
    and "sc_verdict sc \<in> set valid_verdicts"
  shows "ag_diagnosis (build_mock_agents h sc) s w =
      (Inr [UCategory (sc_classification sc), UAgentTrace [lit ''DiagnosisAgent'']], w)"
    and "ag_supervisor (build_mock_agents h sc) s w =
      (Inr [USpecialist (mock_specialist sc), URouting (lit ''benchmark mock routing''),
            UAgentTrace [lit ''SupervisorAgent'']], w)"
    and "ag_security_reviewer (build_mock_agents h sc) s w =
      (Inr [UVerdict (if deny_listed (or_else (st_fix_artifact s) []) then lit ''HIGH_RISK'' else sc_verdict sc),
            UClassifier (lit ''mock''), UAgentTrace [lit ''SecurityReviewerAgent'']], w)"
proof -
  have ask: "ask (scripted_client content) mock_config name (state_trace_id s) msgs w = (Inr (mock_response content), w)"
    if "name \<noteq> []" "msgs \<noteq> []" for content name msgs
    using scripted_ask [OF assms(1) that] .
  have ok: "text_ok (sc_classification sc)" "text_ok (mock_specialist sc)" "text_ok (sc_verdict sc)"
    using assms(2,3) by (auto simp: valid_categories_def valid_verdicts_def mock_specialist_def text_ok_literal)
  have sp: "mock_specialist sc \<in> set valid_specialists"
    by (simp add: mock_specialist_def valid_specialists_def)
  have sys: "system_user x y \<noteq> []" for x y by (simp add: system_user_def)
  have cat: "parse_category (mock_reply ''category'' (sc_classification sc) ''reasoning'' ''benchmark mock'') = sc_classification sc"
    using assms(2) ok(1) by (simp add: parse_category_def mock_reply_fields)
  have route: "parse_routing (mock_reply ''specialist'' (mock_specialist sc) ''rationale'' ''benchmark mock routing'') =
      (mock_specialist sc, lit ''benchmark mock routing'')"
    using sp ok(2) by (simp add: parse_routing_def mock_reply_fields)
  have verdict: "parse_verdict (mock_reply ''verdict'' (sc_verdict sc) ''reasoning'' ''benchmark mock'') = sc_verdict sc"
    using assms(3) ok(3) by (simp add: parse_verdict_def mock_reply_fields)
  show "ag_diagnosis (build_mock_agents h sc) s w =
      (Inr [UCategory (sc_classification sc), UAgentTrace [lit ''DiagnosisAgent'']], w)"
    by (simp add: build_mock_agents_def diagnosis_run_def Let_def ask sys mock_response_def cat)
  show "ag_supervisor (build_mock_agents h sc) s w =
      (Inr [USpecialist (mock_specialist sc), URouting (lit ''benchmark mock routing''),
            UAgentTrace [lit ''SupervisorAgent'']], w)"
    by (simp add: build_mock_agents_def supervisor_run_def ask sys mock_response_def route)
  show "ag_security_reviewer (build_mock_agents h sc) s w =
      (Inr [UVerdict (if deny_listed (or_else (st_fix_artifact s) []) then lit ''HIGH_RISK'' else sc_verdict sc),
            UClassifier (lit ''mock''), UAgentTrace [lit ''SecurityReviewerAgent'']], w)"
    by (simp add: build_mock_agents_def security_reviewer_run_def Let_def ask sys mock_response_def verdict
        io_bind_def io_catch_def io_return_def)
qed

text \<open>The mock agents are a team too, whatever their scripts say.\<close>

lemma scripted_idle: "io_steps (\<lambda>_. True) (llm_only t) (scripted_client content ms model t' name k temp)"
  by (simp add: io_steps_def scripted_client_def llm_only_def)

interpretation mocked: agent_team h "build_mock_agents h sc" for h sc
proof (unfold_locales, goal_cases)
  case (10 s w us w')
  then show ?case by (auto simp: build_mock_agents_def dest!: reviewer_verdict)
qed (use diagnosis_answer supervisor_answer code_fixer_answer infra_sre_answer
    in \<open>auto simp: build_mock_agents_def intro!: agent_steps preorder_llm_only scripted_idle\<close>)

subsection \<open>A scenario that goes right\<close>

lemma mock_artifact_plain:
  "strip (mock_artifact sc) = mock_artifact sc" "strip_markdown_fence (mock_artifact sc) = mock_artifact sc"
  "mock_artifact sc \<noteq> []"
proof -
  show s: "strip (mock_artifact sc) = mock_artifact sc"
    by (rule strip_fixed) (simp_all add: mock_artifact_def text_simps is_space_def)
  have "fence_match (mock_artifact sc) = None"
    by (simp add: fence_match_def mock_artifact_def fence_def text_simps)
  with s strip_markdown_fence_plain [of "mock_artifact sc"]
  show "strip_markdown_fence (mock_artifact sc) = mock_artifact sc" by simp
  show "mock_artifact sc \<noteq> []" by (simp add: mock_artifact_def text_simps)
qed

lemma mock_fixers:
  assumes "trace_id_ok (state_trace_id s)" "st_analysis_result s = None" "h_compile h (mock_artifact sc) = Compiles"
  shows "ag_code_fixer (build_mock_agents h sc) s w =
      (Inr [UArtifact (mock_artifact sc), UAgentTrace [lit ''CodeFixerAgent'']], w)"
    and "ag_infra_sre (build_mock_agents h sc) s w =
      (Inr [UArtifact (mock_artifact sc), UAgentTrace [lit ''InfraSREAgent'']], w)"
proof -
  have ask: "ask (scripted_client content) mock_config name (state_trace_id s) (system_user x y) w = (Inr (mock_response content), w)"
    if "name \<noteq> []" for content name x y
    using scripted_ask [OF assms(1) that] by (simp add: system_user_def)
  obtain ctx where ctx: "build_error_context s = Inr ctx"
    using assms(2) by (simp add: build_error_context_def Let_def)
  have script: "complete_script_artifact h (scripted_client (mock_artifact sc)) mock_config (system_user x y) name
      (state_trace_id s) w = (Inr (mock_artifact sc), w)" if "name \<noteq> []" for x y name
    using assms(3) that
    by (simp add: complete_script_artifact_def ask_artifact_def ask mock_response_def mock_artifact_plain
        compile_error_def io_bind_def io_return_def io_lift_def)
  show "ag_code_fixer (build_mock_agents h sc) s w =
      (Inr [UArtifact (mock_artifact sc), UAgentTrace [lit ''CodeFixerAgent'']], w)"
    by (simp add: build_mock_agents_def code_fixer_run_def ctx script io_bind_def io_lift_def io_return_def)
  show "ag_infra_sre (build_mock_agents h sc) s w =
      (Inr [UArtifact (mock_artifact sc), UAgentTrace [lit ''InfraSREAgent'']], w)"
    by (simp add: build_mock_agents_def infra_sre_run_def ctx script io_bind_def io_lift_def io_return_def)
qed

text \<open>
  Nothing in the graph keeps a well-formed scenario from being executed: with a readable log and
  a calm sandbox, the thread gets its ground truth through every node up to the report.
\<close>

lemma mock_run_completes:
  fixes sc tid
  defines "s \<equiv> bench_state sc tid"
  assumes tid: "trace_id_ok tid" and truth: "sc_classification sc \<in> set valid_categories"
      "sc_verdict sc \<in> {lit ''SAFE'', lit ''CAUTION''}"
    and fix_ok: "\<not> deny_listed (mock_artifact sc)" "h_compile h (mock_artifact sc) = Compiles"
    and calm: "calm_sandbox h code"
    and log_ok: "parse_log h s w = (Inr [UErrorLog (Some elog), UParseError None], w)"
  shows "let t = graph_invoke h (build_mock_agents h sc) s w; s' = th_state t in
    (th_status t = Finished \<or> (\<exists>e. th_status t = Failed FormatReport e)) \<and>
    st_error_category s' = Some (sc_classification sc) \<and> st_specialist s' = Some (mock_specialist sc) \<and>
    st_fix_artifact s' = Some (mock_artifact sc) \<and> st_security_verdict s' = Some (sc_verdict sc) \<and>
    map_option ex_return_code (st_execution_result s') = Some (Some code) \<and>
    bench_resolved s' = (th_status t = Finished \<and> code = 0)"
proof -
  let ?ag = "build_mock_agents h sc" and ?m = "\<lambda>us u. merge_updates us u"
  have s_simps: "st_trace_id s = Some tid" "st_analysis_result s = None" "st_cost_exhausted s = None"
    by (simp_all add: s_def bench_state_def initial_state_def)
  have "tid \<noteq> []" using tid by (auto simp: trace_id_ok_def)
  then have named: "nonempty (st_trace_id s)" by (simp add: s_simps nonempty_def)
  have trace: "trace_id_ok (state_trace_id u)" if "st_trace_id u = Some tid" for u
    using that tid by (simp add: state_trace_id_def)
  have kinds: "sc_verdict sc \<in> set valid_verdicts" "sc_verdict sc \<noteq> lit ''HIGH_RISK''"
    "mock_specialist sc \<in> set valid_specialists"
    using truth(2) by (auto simp: valid_verdicts_def mock_specialist_def valid_specialists_def)
  note replay = mock_agents_replay [OF trace truth(1) kinds(1)] and fixers = mock_fixers [OF trace _ fix_ok(2)]
  define s1 where "s1 = ?m [UErrorLog (Some elog), UParseError None] s"
  define s2 where "s2 = ?m [UCategory (sc_classification sc), UAgentTrace [lit ''DiagnosisAgent'']] s1"
  define s3 where "s3 = ?m [USpecialist (mock_specialist sc), URouting (lit ''benchmark mock routing''),
      UAgentTrace [lit ''SupervisorAgent'']] s2"
  define s4 where "s4 = ?m [UArtifact (mock_artifact sc), UAgentTrace
      [if mock_specialist sc = lit ''code_fixer'' then lit ''CodeFixerAgent'' else lit ''InfraSREAgent'']] s3"
  define s5 where "s5 = ?m [UVerdict (sc_verdict sc), UClassifier (lit ''mock''),
      UAgentTrace [lit ''SecurityReviewerAgent'']] s4"
  note defs = s1_def s2_def s3_def s4_def s5_def
  have ids: "st_trace_id s1 = Some tid" "st_trace_id s2 = Some tid" "st_trace_id s3 = Some tid" "st_trace_id s4 = Some tid"
    and parts: "st_analysis_result s3 = None" "st_fix_artifact s4 = Some (mock_artifact sc)"
      "st_fix_artifact (?m [UApproval False] s5) = Some (mock_artifact sc)"
    by (simp_all add: defs s_simps)
  from calm_verifier [OF calm parts(3) _ fix_ok(2)] mock_artifact_plain [of sc] obtain out err ms w1
    where ver: "verifier_run h (?m [UApproval False] s5) w = (Inr (exited (Verbatim, None) code out err ms), w1)"
    by metis
  let ?s = "delivered elog (sc_classification sc) (mock_specialist sc) (lit ''benchmark mock routing'') (mock_artifact sc)
    (sc_verdict sc) (lit ''mock'') (exec_ok (if code = 0 then ExSuccess else ExFailure) (Some code) out err ms)
    (Verbatim, None) s"
  have "(if mock_specialist sc = lit ''code_fixer'' then ag_code_fixer ?ag else ag_infra_sre ?ag) s3 w =
      (Inr [UArtifact (mock_artifact sc), UAgentTrace
        [if mock_specialist sc = lit ''code_fixer'' then lit ''CodeFixerAgent'' else lit ''InfraSREAgent'']], w)"
    using fixers [OF ids(3) parts(1)] by simp
  moreover have "ag_security_reviewer ?ag s4 w =
      (Inr [UVerdict (sc_verdict sc), UClassifier (lit ''mock''), UAgentTrace [lit ''SecurityReviewerAgent'']], w)"
    using replay(3) [OF ids(4)] fix_ok(1) parts(2) by simp
  moreover have "ag_verifier ?ag (?m [UApproval False] s5) w = (Inr (exited (Verbatim, None) code out err ms), w1)"
    using ver by (simp add: build_mock_agents_def)
  moreover have "st_cost_exhausted s \<noteq> Some True" by (simp add: s_simps)
  ultimately have "graph_invoke h ?ag s w = step_node h ?ag FormatReport ?s w1"
    using named kinds(2,3) log_ok replay(1) [OF ids(1)] replay(2) [OF ids(2)]
    unfolding defs by (intro graph_walk)
  moreover have "st_error_category ?s = Some (sc_classification sc)" "st_specialist ?s = Some (mock_specialist sc)"
    "st_fix_artifact ?s = Some (mock_artifact sc)" "st_security_verdict ?s = Some (sc_verdict sc)"
    "map_option ex_return_code (st_execution_result ?s) = Some (Some code)" "st_execution_error ?s = None"
    "\<not> verified_fix ?s" "verified_fix (?s\<lparr>st_report_text := x, st_report_path := y\<rparr>) = (x \<noteq> None \<and> code = 0)" for x y
    by (simp_all add: delivered_def exec_ok_def verified_fix_def s_def bench_state_def initial_state_def)
  ultimately show ?thesis
    using report_step(1) [of h ?ag ?s w1] by (elim disjE conjE exE) (simp_all add: Let_def bench_resolved_def)
qed

end
