(* ===== verification/Incidents.thy ===== *)
theory Incidents
  imports Production
begin

text \<open>
  Several incidents at once.  The gateway runs its worker's pipeline and every resumed incident in
  threads of one process (\<^verbatim>\<open>asyncio.to_thread\<close>), so graph runs interleave over one world: one
  guard, one file system, one container engine.  Each incident keeps its own state; a step is
  one node of one of them, or the resumption of a suspended one.  Nodes are the grain of the
  interleaving; within a node the shared guard is the only memory the threads have in common,
  and \<open>GuardThreads\<close> shows that its operations take effect at once.

  The lemmas lift the laws of a single run to every interleaving: no denied artifact reaches a
  container unless its own incident was resumed, each incident has at most one sandbox session,
  every request carries the trace id of an incident, and the budget is one latch for all.
\<close>

record incident =
  in_status :: status
  in_state :: agent_state
  in_resumed :: bool

record incidents =
  is_world :: world
  is_threads :: "nat \<Rightarrow> incident"

definition incidents_start :: "(nat \<Rightarrow> agent_state) \<Rightarrow> world \<Rightarrow> incidents" where
  "incidents_start s w =
     \<lparr>is_world = w, is_threads = \<lambda>i. \<lparr>in_status = Running Dispatch, in_state = s i, in_resumed = False\<rparr>\<rparr>"

text \<open>Incident \<open>i\<close> as a thread over the shared world, and its next step put back.\<close>

definition thread_of :: "incidents \<Rightarrow> nat \<Rightarrow> thread" where
  "thread_of c i = thread_at (in_status (is_threads c i)) (in_state (is_threads c i)) (is_world c)"

definition put_thread :: "nat \<Rightarrow> bool \<Rightarrow> thread \<Rightarrow> incidents \<Rightarrow> incidents" where
  "put_thread i r t c =
     \<lparr>is_world = th_world t,
      is_threads = (is_threads c)
        (i := \<lparr>in_status = th_status t, in_state = th_state t, in_resumed = r \<or> in_resumed (is_threads c i)\<rparr>)\<rparr>"

inductive incidents_step :: "host \<Rightarrow> agents \<Rightarrow> nat \<Rightarrow> incidents \<Rightarrow> incidents \<Rightarrow> bool"
  for h :: host and ag :: agents and n :: nat where
  moves: "i < n \<Longrightarrow> graph_step h ag r (thread_of c i) t \<Longrightarrow> incidents_step h ag n c (put_thread i r t c)"

inductive_simps incidents_step_iff: "incidents_step h ag n c c'"

definition incidents_reach :: "host \<Rightarrow> agents \<Rightarrow> nat \<Rightarrow> incidents \<Rightarrow> incidents \<Rightarrow> bool" where
  "incidents_reach h ag n = (incidents_step h ag n)\<^sup>*\<^sup>*"

lemma thread_of_simps [simp]:
  "th_status (thread_of c i) = in_status (is_threads c i)"
  "th_state (thread_of c i) = in_state (is_threads c i)" "th_world (thread_of c i) = is_world c"
  by (simp_all add: thread_of_def)

lemma put_thread_simps [simp]:
  "is_world (put_thread i r t c) = th_world t"
  "is_threads (put_thread i r t c) i =
     \<lparr>in_status = th_status t, in_state = th_state t, in_resumed = r \<or> in_resumed (is_threads c i)\<rparr>"
  "j \<noteq> i \<Longrightarrow> is_threads (put_thread i r t c) j = is_threads c j"
  by (simp_all add: put_thread_def)

text \<open>A step is a node of a running incident or the passing of the gate by a suspended one.\<close>

lemma graph_step_resumes:
  "graph_step h ag True t t' \<longleftrightarrow>
   th_status t = Suspended \<and> t' = thread_at (Running VerifierNode) (approved (th_state t)) (th_world t)"
proof
  assume "graph_step h ag True t t'"
  then show "th_status t = Suspended \<and> t' = thread_at (Running VerifierNode) (approved (th_state t)) (th_world t)"
    by cases (auto simp: security_gate_def follow_def Let_def approved_def)
next
  assume t: "th_status t = Suspended \<and> t' = thread_at (Running VerifierNode) (approved (th_state t)) (th_world t)"
  have "graph_step h ag True (thread_at Suspended (th_state t) (th_world t))
      (follow SecurityGate [UApproval (st_security_verdict (th_state t) = Some (lit ''HIGH_RISK''))] (th_state t) (th_world t))"
    by (rule resumes [where d = "()"]) (simp add: security_gate_def Let_def)
  moreover have "thread_at Suspended (th_state t) (th_world t) = t" using t thread_at_eta [of t] by simp
  ultimately show "graph_step h ag True t t'" using t by (simp add: follow_def approved_def)
qed

lemma incidents_step_cases:
  assumes "incidents_step h ag n c c'"
  obtains (node) i m t where "i < n" "in_status (is_threads c i) = Running m"
      "t = step_node h ag m (in_state (is_threads c i)) (is_world c)" "c' = put_thread i False t c"
  | (resume) i where "i < n" "in_status (is_threads c i) = Suspended"
      "c' = put_thread i True (thread_at (Running VerifierNode) (approved (in_state (is_threads c i))) (is_world c)) c"
  using assms
proof cases
  case (moves i r t)
  show ?thesis
  proof (cases r)
    case True
    with moves show ?thesis by (intro resume [of i]) (simp_all add: graph_step_resumes)
  next
    case False
    with moves show ?thesis by (auto simp: graph_step_running intro: node)
  qed
qed

subsection \<open>Containers\<close>

text \<open>What one node does to the container engine.\<close>

definition past_verifier :: "status \<Rightarrow> bool" where
  "past_verifier st \<longleftrightarrow> st = Running FormatReport \<or> st = Finished \<or> (\<exists>e. st = Failed FormatReport e)"

lemma node_keeps_containers:
  assumes "m \<noteq> VerifierNode" "t = step_node h (production_agents h b) m s w"
  shows "docker_log (th_world t) = docker_log w"
proof (cases "m = SecurityGate")
  case True
  with assms(2) show ?thesis
    by (auto simp: step_node_def follow_def security_gate_def Let_def split: option.split)
next
  case False
  obtain r w' where r: "run_node h (production_agents h b) m s w = (r, w')"
    by (cases "run_node h (production_agents h b) m s w")
  have "docker_log w' = docker_log w"
  proof (cases "m = FormatReport")
    case True
    with r format_report_frame show ?thesis by fastforce
  next
    case nf: False
    with prod.run_node_llm_only [OF assms(1) nf r] show ?thesis by (simp add: llm_only_def)
  qed
  then show ?thesis
    unfolding assms(2) using False r
    by (cases rule: follow_cases [of m "projr r" s w']) (auto simp: step_node_def split: sum.split)
qed

lemma verifier_step:
  assumes "t = step_node h (production_agents h b) VerifierNode s w"
  obtains (idle) "docker_log (th_world t) = docker_log w"
  | (ran) code evs where "docker_log (th_world t) = docker_log w @ evs" "sandbox_session code evs"
      "executed_code h (th_state t) = Some code" "cleared (th_state t) = cleared s"
      "th_status t = Running FormatReport"
proof -
  obtain r w' where r: "verifier_run h s w = (r, w')" by (cases "verifier_run h s w")
  show ?thesis
  proof (cases r)
    case (Inl e)
    with r have "executed_code h s = None"
      by (auto simp: verifier_run_def executed_code_def Let_def io_bind_def
          execute_normalized_def split: option.splits sum.splits if_splits prod.splits)
    with verifier_idle r have "w' = w" by (metis snd_conv)
    with r Inl show ?thesis
      unfolding assms by (intro idle) (simp add: assms step_node_def production_agents_simps)
  next
    case (Inr us)
    have keep: "st_fix_artifact (merge_updates us s) = st_fix_artifact s"
      "st_security_verdict (merge_updates us s) = st_security_verdict s"
      using r Inr by (auto dest!: verifier_answer)
    have t: "t = thread_at (Running FormatReport) (merge_updates us s) w'"
      using r Inr assms by (simp add: step_node_def production_agents_simps follow_def)
    from verifier_log [OF r] obtain evs where "docker_log w' = docker_log w @ evs"
      "evs = [] \<or> (\<exists>code. executed_code h s = Some code \<and> sandbox_session code evs)" by blast
    with t keep show ?thesis
      by (cases "evs = []")
        (auto simp: executed_code_def cleared_def reviewed_def artifact_of_def intro: idle ran)
  qed
qed

lemma past_verifier_step:
  assumes "past_verifier (in_status (is_threads c i))" "in_status (is_threads c i) = Running m"
    and "t = step_node h (production_agents h b) m (in_state (is_threads c i)) (is_world c)"
  shows "past_verifier (th_status t) \<and> executed_code h (th_state t) = executed_code h (in_state (is_threads c i)) \<and>
    cleared (th_state t) = cleared (in_state (is_threads c i))"
proof -
  have m: "m = FormatReport" using assms(1,2) by (simp add: past_verifier_def)
  obtain r w' where r: "format_report h (in_state (is_threads c i)) (is_world c) = (r, w')"
    by (cases "format_report h (in_state (is_threads c i)) (is_world c)")
  show ?thesis
  proof (cases r)
    case (Inl e)
    with m r assms(3) show ?thesis by (simp add: step_node_def past_verifier_def)
  next
    case (Inr us)
    with format_report_done r obtain rep p where "us = [UReportText rep, UReportPath p]" by blast
    with m r Inr assms(3) show ?thesis
      by (simp add: step_node_def follow_def past_verifier_def executed_code_def cleared_def reviewed_def artifact_of_def)
  qed
qed

text \<open>
  The invariant: where each incident stands, and the history of the container engine as one
  session per incident that got there.
\<close>

definition gate_kept :: "incident \<Rightarrow> bool" where
  "gate_kept x \<longleftrightarrow>
     (in_status x = Running SecurityGate \<longrightarrow> reviewed (in_state x)) \<and>
     (in_status x = Suspended \<longrightarrow>
        reviewed (in_state x) \<and> st_security_verdict (in_state x) = Some (lit ''HIGH_RISK'')) \<and>
     (in_status x = Running VerifierNode \<longrightarrow> cleared (in_state x) \<or> in_resumed x)"

definition may_run :: "host \<Rightarrow> incident \<Rightarrow> ustr \<Rightarrow> bool" where
  "may_run h x code \<longleftrightarrow> past_verifier (in_status x) \<and> executed_code h (in_state x) = Some code \<and>
     (cleared (in_state x) \<or> in_resumed x)"

definition sessions_ok :: "host \<Rightarrow> incidents \<Rightarrow> (nat \<times> ustr \<times> docker_event list) list \<Rightarrow> bool" where
  "sessions_ok h c sessions \<longleftrightarrow> distinct (map fst sessions) \<and>
     (\<forall>(i, code, evs) \<in> set sessions. sandbox_session code evs \<and> may_run h (is_threads c i) code)"

definition containers_ok :: "host \<Rightarrow> world \<Rightarrow> incidents \<Rightarrow> bool" where
  "containers_ok h w0 c \<longleftrightarrow>
     (\<forall>i. gate_kept (is_threads c i)) \<and>
     (\<exists>sessions. sessions_ok h c sessions \<and>
        docker_log (is_world c) = docker_log w0 @ concat (map (snd \<circ> snd) sessions))"

lemma containers_ok_start: "containers_ok h w (incidents_start s w)"
  by (auto simp: containers_ok_def incidents_start_def gate_kept_def sessions_ok_def intro!: exI [of _ "[]"])

text \<open>A single thread's safety gives the gate invariant of its next state.\<close>

lemma gate_kept_safe:
  assumes "thread_safe h w t"
  shows "gate_kept \<lparr>in_status = th_status t, in_state = th_state t, in_resumed = r\<rparr>"
  using assms by (simp add: thread_safe_def gate_kept_def)

lemma gate_kept_step:
  assumes "gate_kept x" "in_status x = Running m"
    and "t = step_node h (production_agents h b) m (in_state x) w"
  shows "gate_kept \<lparr>in_status = th_status t, in_state = th_state t, in_resumed = in_resumed x\<rparr>"
proof (cases "m = VerifierNode")
  case True
  then have "th_status t = Running FormatReport \<or> (\<exists>e. th_status t = Failed VerifierNode e)"
    unfolding assms(3) by (auto simp: step_node_def follow_def split: prod.split sum.split)
  then show ?thesis by (auto simp: gate_kept_def)
next
  case False
  with assms(1,2) have "thread_safe h w (thread_at (Running m) (in_state x) w)"
    by (auto simp: gate_kept_def thread_safe_def)
  from prod.thread_safe_step [OF this, of m b] assms(3) gate_kept_safe show ?thesis by simp
qed

text \<open>Sessions stay accounted for when incident \<open>i\<close> moves.\<close>

lemma sessions_ok_put:
  assumes "sessions_ok h c sessions"
    and "\<And>code. may_run h (is_threads c i) code \<Longrightarrow> may_run h (is_threads (put_thread i r t c) i) code"
  shows "sessions_ok h (put_thread i r t c) sessions"
proof -
  have "may_run h (is_threads c j) code \<Longrightarrow> may_run h (is_threads (put_thread i r t c) j) code" for j code
    using assms(2) by (cases "j = i") (simp_all del: put_thread_simps(2))
  with assms(1) show ?thesis by (fastforce simp: sessions_ok_def simp del: put_thread_simps)
qed

lemma containers_ok_node:
  assumes ok: "containers_ok h w0 c" and run: "in_status (is_threads c i) = Running m"
    and t: "t = step_node h (production_agents h b) m (in_state (is_threads c i)) (is_world c)"
  shows "containers_ok h w0 (put_thread i False t c)"
proof -
  let ?x = "is_threads c i"
  have kept: "gate_kept ?x" using ok by (simp add: containers_ok_def)
  have gates: "gate_kept (is_threads (put_thread i False t c) j)" for j
    using ok gate_kept_step [OF kept run t] by (cases "j = i") (simp_all add: containers_ok_def)
  obtain sessions where s: "sessions_ok h c sessions"
    "docker_log (is_world c) = docker_log w0 @ concat (map (snd \<circ> snd) sessions)"
    using ok by (auto simp: containers_ok_def)
  have "may_run h (is_threads (put_thread i False t c) i) code" if "may_run h ?x code" for code
    using that past_verifier_step [OF _ run t] by (simp add: may_run_def)
  with s(1) have still: "sessions_ok h (put_thread i False t c) sessions" by (rule sessions_ok_put)
  show ?thesis
  proof (cases "docker_log (th_world t) = docker_log (is_world c)")
    case True
    with gates still s(2) show ?thesis by (auto simp: containers_ok_def)
  next
    case False
    then have m: "m = VerifierNode" using node_keeps_containers [OF _ t] by blast
    from False obtain code evs where ran: "docker_log (th_world t) = docker_log (is_world c) @ evs"
      "sandbox_session code evs" "executed_code h (th_state t) = Some code"
      "cleared (th_state t) = cleared (in_state ?x)" "th_status t = Running FormatReport"
      using verifier_step [OF t [unfolded m]] by metis
    have new: "i \<notin> fst ` set sessions"
      using s(1) run m by (fastforce simp: sessions_ok_def may_run_def past_verifier_def)
    have "may_run h (is_threads (put_thread i False t c) i) code"
      using ran kept run m by (auto simp: may_run_def past_verifier_def gate_kept_def)
    with still new ran(2) have "sessions_ok h (put_thread i False t c) (sessions @ [(i, code, evs)])"
      by (auto simp: sessions_ok_def)
    with gates s(2) ran(1) show ?thesis
      unfolding containers_ok_def by (intro conjI exI [of _ "sessions @ [(i, code, evs)]"]) auto
  qed
qed

lemma containers_ok_resume:
  assumes ok: "containers_ok h w0 c" and sus: "in_status (is_threads c i) = Suspended"
  shows "containers_ok h w0 (put_thread i True
    (thread_at (Running VerifierNode) (approved (in_state (is_threads c i))) (is_world c)) c)"
    (is "containers_ok h w0 ?c'")
proof -
  obtain sessions where s: "sessions_ok h c sessions"
    "docker_log (is_world c) = docker_log w0 @ concat (map (snd \<circ> snd) sessions)"
    using ok by (auto simp: containers_ok_def)
  have "\<not> may_run h (is_threads c i) code" for code using sus by (simp add: may_run_def past_verifier_def)
  then have "sessions_ok h ?c' sessions" by (intro sessions_ok_put [OF s(1)]) blast
  moreover have "gate_kept (is_threads ?c' j)" for j
    using ok by (cases "j = i") (simp_all add: containers_ok_def gate_kept_def)
  ultimately show ?thesis using s(2) unfolding containers_ok_def by auto
qed

lemma incidents_containers:
  assumes "incidents_reach h (production_agents h b) n (incidents_start s w) c"
  shows "containers_ok h w c"
  using assms unfolding incidents_reach_def
proof (induction rule: rtranclp_induct)
  case (step c c')
  from step.hyps(2) show ?case
    by (cases rule: incidents_step_cases) (use step.IH containers_ok_node containers_ok_resume in auto)
qed (rule containers_ok_start)

text \<open>What the invariant says of the code that ran.\<close>

lemma cleared_allowed:
  assumes "executed_code h s = Some code" "cleared s"
  shows "\<not> deny_listed code \<and> st_security_verdict s \<in> {Some (lit ''SAFE''), Some (lit ''CAUTION'')}"
proof -
  from executed_code_deny [OF assms(1)] obtain a where "st_fix_artifact s = Some a"
    "deny_listed code \<longleftrightarrow> deny_listed a" by blast
  with assms(2) show ?thesis by (auto simp: cleared_def reviewed_def artifact_of_def valid_verdicts_def)
qed

lemma containers_ok_sessions:
  assumes "containers_ok h w c"
  shows "\<exists>sessions. distinct (map fst sessions) \<and>
    docker_log (is_world c) = docker_log w @ concat (map (snd \<circ> snd) sessions) \<and>
    list_all (\<lambda>(i, code, evs).
      sandbox_session code evs \<and> executed_code h (in_state (is_threads c i)) = Some code \<and>
      (in_resumed (is_threads c i) \<or>
       \<not> deny_listed code \<and>
       st_security_verdict (in_state (is_threads c i)) \<in> {Some (lit ''SAFE''), Some (lit ''CAUTION'')})) sessions"
proof -
  obtain sessions where s: "sessions_ok h c sessions"
    "docker_log (is_world c) = docker_log w @ concat (map (snd \<circ> snd) sessions)"
    using assms by (auto simp: containers_ok_def)
  with cleared_allowed show ?thesis
    by (intro exI [of _ sessions]) (fastforce simp: sessions_ok_def may_run_def list_all_iff)
qed

subsection \<open>Trace identifiers\<close>

definition trace_set :: "incident \<Rightarrow> bool" where
  "trace_set x \<longleftrightarrow> in_status x = Running Dispatch \<or> st_trace_id (in_state x) \<noteq> None"

text \<open>Every request since \<open>w0\<close> carries the trace id of one of the incidents.\<close>

definition requests_owned :: "nat \<Rightarrow> world \<Rightarrow> incidents \<Rightarrow> bool" where
  "requests_owned n w0 c \<longleftrightarrow>
     (\<forall>i. trace_set (is_threads c i)) \<and>
     (\<exists>reqs. sdk_log (is_world c) = sdk_log w0 @ reqs \<and>
        (\<forall>r \<in> set reqs. \<exists>i < n. in_status (is_threads c i) \<noteq> Running Dispatch \<and>
           st_trace_id (in_state (is_threads c i)) = Some (rq_trace_id r)))"

lemma requests_owned_start: "requests_owned n w (incidents_start s w)"
  by (simp add: requests_owned_def incidents_start_def trace_set_def)

text \<open>One step: the new requests are the incident's own, and ids never change once set.\<close>

lemma node_traced:
  assumes "st_trace_id s \<noteq> None \<or> m = Dispatch" "t = step_node h (production_agents h b) m s w"
  shows "\<exists>tid. st_trace_id (th_state t) = Some tid \<and> (m \<noteq> Dispatch \<longrightarrow> st_trace_id s = Some tid) \<and>
    th_status t \<noteq> Running Dispatch \<and>
    (\<exists>reqs. sdk_log (th_world t) = sdk_log w @ reqs \<and> (\<forall>r \<in> set reqs. rq_trace_id r = tid))"
proof (cases "m = Dispatch")
  case True
  then have "t = thread_at (Running ParseLog)
      (if nonempty (st_trace_id s) then s else s\<lparr>st_trace_id := Some (h_token h w)\<rparr>) w"
    using assms(2) by (simp add: step_node_def dispatch_def follow_def)
  with True show ?thesis by (auto simp: nonempty_def split: option.splits)
next
  case False
  with assms(1) obtain tid where "st_trace_id s = Some tid" by auto
  moreover from this have "thread_traced tid w (thread_at (Running m) s w)" by (simp add: thread_traced_def)
  from prod.traced_step [OF this _ False] have "thread_traced tid w t" using assms(2) by simp
  ultimately show ?thesis using assms(2) never_back_to_dispatch by (auto simp: thread_traced_def)
qed

lemma requests_owned_put:
  assumes ok: "requests_owned n w0 c" and "i < n"
    and tid: "st_trace_id (th_state t) = Some tid" "th_status t \<noteq> Running Dispatch"
    and keep: "in_status (is_threads c i) \<noteq> Running Dispatch \<Longrightarrow> st_trace_id (in_state (is_threads c i)) = Some tid"
    and new: "sdk_log (th_world t) = sdk_log (is_world c) @ reqs" "\<forall>r \<in> set reqs. rq_trace_id r = tid"
  shows "requests_owned n w0 (put_thread i u t c)"
proof -
  obtain old where old: "sdk_log (is_world c) = sdk_log w0 @ old"
    "\<forall>r \<in> set old. \<exists>i < n. in_status (is_threads c i) \<noteq> Running Dispatch \<and>
       st_trace_id (in_state (is_threads c i)) = Some (rq_trace_id r)"
    using ok by (auto simp: requests_owned_def)
  let ?c' = "put_thread i u t c"
  have keeps: "in_status (is_threads ?c' j) \<noteq> Running Dispatch \<and> st_trace_id (in_state (is_threads ?c' j)) = Some x"
    if "in_status (is_threads c j) \<noteq> Running Dispatch \<and> st_trace_id (in_state (is_threads c j)) = Some x" for j x
    using that tid keep by (cases "j = i") auto
  have "\<exists>j < n. in_status (is_threads ?c' j) \<noteq> Running Dispatch \<and>
      st_trace_id (in_state (is_threads ?c' j)) = Some (rq_trace_id r)" if "r \<in> set (old @ reqs)" for r
  proof (cases "r \<in> set old")
    case True
    with old(2) keeps show ?thesis by blast
  next
    case False
    with that new(2) tid \<open>i < n\<close> show ?thesis by (intro exI [of _ i]) auto
  qed
  moreover have "trace_set (is_threads ?c' j)" for j
    using ok tid by (cases "j = i") (simp_all add: requests_owned_def trace_set_def)
  moreover have "sdk_log (is_world ?c') = sdk_log w0 @ old @ reqs" using old(1) new(1) by simp
  ultimately show ?thesis unfolding requests_owned_def by blast
qed

lemma incidents_traced:
  assumes "incidents_reach h (production_agents h b) n (incidents_start s w) c"
  shows "requests_owned n w c"
  using assms unfolding incidents_reach_def
proof (induction rule: rtranclp_induct)
  case (step c c')
  note ok = step.IH
  from step.hyps(2) show ?case
  proof (cases rule: incidents_step_cases)
    case (node i m t)
    have "trace_set (is_threads c i)" using ok by (simp add: requests_owned_def)
    then have "st_trace_id (in_state (is_threads c i)) \<noteq> None \<or> m = Dispatch"
      using node(2) by (auto simp: trace_set_def)
    from node_traced [OF this node(3)] obtain tid reqs where
      "st_trace_id (th_state t) = Some tid" "m \<noteq> Dispatch \<longrightarrow> st_trace_id (in_state (is_threads c i)) = Some tid"
      "th_status t \<noteq> Running Dispatch" "sdk_log (th_world t) = sdk_log (is_world c) @ reqs"
      "\<forall>r \<in> set reqs. rq_trace_id r = tid" by blast
    with requests_owned_put [OF ok node(1)] node(2,4) show ?thesis by auto
  next
    case (resume i)
    have "trace_set (is_threads c i)" using ok by (simp add: requests_owned_def)
    then obtain tid where "st_trace_id (in_state (is_threads c i)) = Some tid"
      using resume(2) by (auto simp: trace_set_def)
    with resume requests_owned_put [OF ok resume(1), where tid = tid and reqs = "[]"] show ?thesis
      by (simp add: approved_def)
  qed
qed (rule requests_owned_start)

subsection \<open>Termination\<close>

fun status_rank :: "status \<Rightarrow> nat" where
  "status_rank (Running m) = 2 * remaining m"
| "status_rank Suspended = 5"
| "status_rank _ = 0"

definition incidents_rank :: "nat \<Rightarrow> incidents \<Rightarrow> nat" where
  "incidents_rank n c = (\<Sum>i < n. status_rank (in_status (is_threads c i)))"

lemma step_node_rank: "status_rank (th_status (step_node h ag m s w)) < 2 * remaining m"
proof (cases "th_status (step_node h ag m s w)")
  case (Running k)
  with step_decreases [of h ag m s w] show ?thesis by (simp add: steps_left_def)
next
  case Suspended
  then have "m = SecurityGate"
    by (auto simp: step_node_def follow_def Let_def split: prod.splits sum.splits option.splits if_splits)
  with Suspended show ?thesis by simp
qed simp_all

lemma incidents_step_rank:
  assumes "incidents_step h ag n c c'"
  shows "incidents_rank n c' < incidents_rank n c"
proof -
  obtain i where i: "i < n" "\<And>j. j \<noteq> i \<Longrightarrow> is_threads c' j = is_threads c j"
    "status_rank (in_status (is_threads c' i)) < status_rank (in_status (is_threads c i))"
    using assms
  proof (cases rule: incidents_step_cases)
    case (node i m t)
    with step_node_rank [of h ag m "in_state (is_threads c i)" "is_world c"] that [of i] show ?thesis by simp
  next
    case (resume i)
    with that [of i] show ?thesis by simp
  qed
  then have "status_rank (in_status (is_threads c' j)) \<le> status_rank (in_status (is_threads c j))" for j
    by (cases "j = i") auto
  moreover have "\<exists>j \<in> {..<n}. status_rank (in_status (is_threads c' j)) < status_rank (in_status (is_threads c j))"
    using i by blast
  ultimately show ?thesis unfolding incidents_rank_def by (intro sum_strict_mono_ex1) auto
qed

lemma incidents_steps_bound:
  "(incidents_step h ag n ^^ k) c c' \<Longrightarrow> k + incidents_rank n c' \<le> incidents_rank n c"
proof (induction k arbitrary: c')
  case (Suc k)
  then obtain d where "(incidents_step h ag n ^^ k) c d" "incidents_step h ag n d c'" by auto
  with Suc.IH incidents_step_rank show ?case by fastforce
qed simp

text \<open>At most eighteen steps for each incident, and only a suspended one waits for somebody.\<close>

lemma incidents_stop:
  assumes "(incidents_step h ag n ^^ k) (incidents_start s w) c"
  shows "k \<le> 18 * n \<and>
    ((\<forall>i < n. \<forall>m. in_status (is_threads c i) \<noteq> Running m) \<or> (\<exists>c'. incidents_step h ag n c c'))"
proof -
  have "incidents_rank n (incidents_start s w) = 18 * n"
    by (simp add: incidents_rank_def incidents_start_def)
  with incidents_steps_bound [OF assms] have "k \<le> 18 * n" by simp
  moreover have "\<exists>c'. incidents_step h ag n c c'" if "i < n" "in_status (is_threads c i) = Running m" for i m
    using that by (auto simp: incidents_step_iff graph_step_running intro!: exI [of _ i] exI [of _ False])
  ultimately show ?thesis by blast
qed

subsection \<open>One budget\<close>

definition metered :: "world \<Rightarrow> world \<Rightarrow> bool" where
  "metered u v \<longleftrightarrow> world_spent u \<le> world_spent v \<and> (world_tripped u \<longrightarrow> world_tripped v)"

lemma metered_refl [simp]: "metered u u"
  by (simp add: metered_def)

lemma metered_trans: "metered u v \<Longrightarrow> metered v w \<Longrightarrow> metered u w"
  by (auto simp: metered_def)

lemma preorder_metered: "preorder metered"
  using metered_trans by (auto simp: preorder_def)

lemma metered_same_guard: "guard v = guard u \<Longrightarrow> metered u v \<and> (world_ok u \<longrightarrow> world_ok v)"
  by (simp add: metered_def world_ok_def world_spent_def world_tripped_def)

lemma production_metered:
  "io_steps world_ok metered (ag_diagnosis (production_agents h b) s)"
  "io_steps world_ok metered (ag_supervisor (production_agents h b) s)"
  "io_steps world_ok metered (ag_code_fixer (production_agents h b) s)"
  "io_steps world_ok metered (ag_infra_sre (production_agents h b) s)"
  "io_steps world_ok metered (ag_security_reviewer (production_agents h b) s)"
  unfolding production_agents_simps metered_def by (rule built.agents_meter)+

lemma guarded_metered:
  "io_steps world_ok metered (guarded (ag_diagnosis (production_agents h b)) s)"
  "io_steps world_ok metered (guarded (ag_supervisor (production_agents h b)) s)"
  "io_steps world_ok metered (guarded (ag_code_fixer (production_agents h b)) s)"
  "io_steps world_ok metered (guarded (ag_infra_sre (production_agents h b)) s)"
  "io_steps world_ok metered (guarded (ag_security_reviewer (production_agents h b)) s)"
  by (rule guarded_steps [OF preorder_metered], rule production_metered)+

lemma exhausted_metered:
  assumes "cost_exhausted_node s w = (r, w')" "world_ok w"
  shows "metered w w' \<and> world_ok w'"
proof (cases "get_cost_guard (environ w budget_env) (guard w)")
  case (Inl e)
  with assms show ?thesis by (simp add: cost_exhausted_node_def)
next
  case (Inr g)
  have w': "w' = w\<lparr>guard := Some g\<rparr>" using assms(1) Inr by (simp add: cost_exhausted_node_def)
  have ok: "guard_ok g" using get_cost_guard_ok [OF Inr] assms(2) by (auto simp: world_ok_def)
  show ?thesis
  proof (cases "guard w")
    case None
    have "0 \<le> world_spent w'" using ok w' by (simp add: world_spent_def guard_ok_def dec_val_nonneg)
    with None ok w' show ?thesis by (simp add: metered_def world_ok_def world_spent_def world_tripped_def)
  next
    case (Some g0)
    with Inr have "g0 = g" by (simp add: get_cost_guard_def)
    with Some w' assms(2) show ?thesis using metered_same_guard [of w' w] by simp
  qed
qed

lemma run_node_metered:
  assumes "run_node h (production_agents h b) m s w = (r, w')" "world_ok w"
  shows "metered w w' \<and> world_ok w'"
proof -
  note llm = guarded_metered [of h b s]
  have steps: "io_steps world_ok metered a \<Longrightarrow> a w = (r, w') \<Longrightarrow> metered w w' \<and> world_ok w'"
    for a :: "(world, upd list) io"
    using assms(2) io_stepsD [of world_ok metered a w r w'] by blast
  show ?thesis
  proof (cases m)
    case VerifierNode
    with assms verifier_log show ?thesis
      by (fastforce simp: production_agents_simps only_docker_def intro: metered_same_guard [THEN conjunct1]
          metered_same_guard [THEN conjunct2, rule_format])
  next
    case FormatReport
    with assms have "guard w' = guard w" using format_report_frame by fastforce
    with metered_same_guard assms(2) show ?thesis by blast
  next
    case CostExhausted
    with assms exhausted_metered show ?thesis by simp
  next
    case ParseLog
    with assms show ?thesis by (auto elim: parse_log_cases)
  qed (use assms steps llm in \<open>auto simp: dispatch_def\<close>)
qed

lemma step_node_world:
  assumes "t = step_node h ag m s w"
  shows "th_world t = w \<and> m = SecurityGate \<or> th_world t = snd (run_node h ag m s w)"
proof (cases "m = SecurityGate")
  case True
  with assms show ?thesis by (auto simp: step_node_def follow_def Let_def security_gate_def split: option.split)
next
  case False
  with assms show ?thesis
    by (auto simp: step_node_def follow_def Let_def split: prod.split sum.split option.split)
qed

lemma incidents_metered:
  assumes "incidents_reach h (production_agents h b) n c c'" "world_ok (is_world c)"
  shows "metered (is_world c) (is_world c') \<and> world_ok (is_world c')"
  using assms unfolding incidents_reach_def
proof (induction rule: rtranclp_induct)
  case (step d d')
  then have d: "metered (is_world c) (is_world d)" "world_ok (is_world d)" by blast+
  from step.hyps(2) have "metered (is_world d) (is_world d') \<and> world_ok (is_world d')"
  proof (cases rule: incidents_step_cases)
    case (node i m t)
    have "metered (is_world d) (th_world t) \<and> world_ok (th_world t)"
      using step_node_world [OF node(3)] run_node_metered d(2)
      by (metis metered_refl prod.collapse)
    with node(4) show ?thesis by simp
  qed (use d in simp)
  with d metered_trans show ?case by blast
qed simp

lemma fixers_tripped:
  assumes "world_ok w" "world_tripped w"
  shows "\<exists>e. fst (code_fixer_run h (provider_client h p) cfg s w) = Inl e"
    and "\<exists>e. fst (infra_sre_run h (provider_client h p) cfg s w) = Inl e"
proof -
  have script: "\<exists>e. fst (complete_script_artifact h (provider_client h p) cfg msgs name trace w) = Inl e"
    for msgs name trace
    by (rule built.script_tripped [OF assms])
  have bind: "\<exists>e. fst (io_bind (io_lift r) f w) = Inl e" if "\<And>x. \<exists>e. fst (f x w) = Inl e"
    for r :: "ustr result" and f :: "ustr \<Rightarrow> (world, upd list) io"
    using that by (cases r) (simp_all add: io_bind_def)
  show "\<exists>e. fst (code_fixer_run h (provider_client h p) cfg s w) = Inl e"
    "\<exists>e. fst (infra_sre_run h (provider_client h p) cfg s w) = Inl e"
    unfolding code_fixer_run_def infra_sre_run_def by (intro bind built.io_bind_raises script)+
qed

text \<open>Over a tripped guard no node that needs an answer goes on.\<close>

lemma tripped_node_stops:
  assumes "world_ok w" "world_tripped w" "m \<in> {DiagnosisNode, SupervisorRoute, CodeFixerNode, InfraSreNode}"
    and "t = step_node h (production_agents h b) m s w"
  shows "th_status t = Running CostExhausted \<or> (\<exists>e. th_status t = Failed m e)"
proof -
  obtain agent where agent: "run_node h (production_agents h b) m s = guarded agent s"
    and raises: "\<exists>e. fst (agent s w) = Inl e"
    using assms(3) built.diagnosis_tripped [OF assms(1,2)] built.supervisor_tripped [OF assms(1,2)]
      fixers_tripped [OF assms(1,2)]
    by (auto simp: production_agents_simps)
  obtain r w' where r: "guarded agent s w = (r, w')" by (cases "guarded agent s w")
  from r show ?thesis
  proof (cases rule: guarded_cases)
    case (answered us)
    with raises show ?thesis by simp
  next
    case (exhausted x y z u)
    then have "t = follow m [UCostExhausted True] s w'"
      using assms(3,4) agent r by (auto simp: step_node_def)
    with assms(3) show ?thesis
      by (auto simp: follow_def or_cost_exhausted_def route_to_specialist_def)
  next
    case (raised e)
    with assms(3,4) agent r show ?thesis by (auto simp: step_node_def)
  qed
qed

subsection \<open>One incident alone\<close>

text \<open>The run of a single graph is the special case of one incident.\<close>

lemma sole_run:
  assumes "graph_reaches h ag t t'" "thread_of c 0 = t"
  shows "incidents_reach h ag 1 c (put_thread 0 False t' c)"
  using assms unfolding graph_reaches_def
proof (induction rule: rtranclp_induct)
  case base
  have "put_thread 0 False (thread_of c 0) c = c"
    by (rule incidents.equality) (simp_all add: put_thread_def fun_eq_iff)
  with base show ?case by (simp add: incidents_reach_def)
next
  case (step u v)
  let ?d = "put_thread 0 False u c"
  have d: "thread_of ?d 0 = u" by (simp add: thread_of_def thread_at_eta [symmetric])
  have "incidents_step h ag 1 ?d (put_thread 0 False v ?d)"
    using step.hyps(2) by (intro moves) (simp_all add: d)
  moreover have "put_thread 0 False v ?d = put_thread 0 False v c" by (simp add: put_thread_def)
  ultimately show ?case using step by (simp add: incidents_reach_def rtranclp.rtrancl_into_rtrancl)
qed

lemma sole_invoke:
  "incidents_reach h ag 1 (incidents_start s w) (put_thread 0 False (graph_invoke h ag (s 0) w) (incidents_start s w))"
  unfolding graph_invoke_def
  by (rule sole_run [OF graph_run_reaches]) (simp add: thread_of_def incidents_start_def)

end
