(* ===== verification/Samples.thy ===== *)
theory Samples
  imports Lifecycle BenchmarkRunner Incidents
begin

text \<open>
  Concrete instances of the parameters, on which the properties with hypotheses are applied: an
  outside in which every call succeeds, a deployment and a process without checkpointer DSN,
  a gateway that has just started, one alert and one scenario.
\<close>

definition sample_guard :: cost_guard where
  "sample_guard = \<lparr>total_spent = dec_zero, budget_limit = Dec 150 0, guard_currency = lit ''CNY'',
                   call_count = 0, last_updated = None\<rparr>"

definition sample_world :: "cost_guard \<Rightarrow> world" where
  "sample_world g = \<lparr>environ = \<lambda>_. None, guard = Some g, files = \<lambda>_. None, sdk_log = [], docker_log = []\<rparr>"

text \<open>Nothing fails; \<open>code\<close> is what containers exit with.\<close>

definition calm_host :: "int \<Rightarrow> host" where
  "calm_host code =
     \<lparr>h_now = \<lambda>_. [], h_now_utc = \<lambda>_. [], h_token = \<lambda>_. replicate 32 97, h_elapsed = \<lambda>_ _. 7,
      h_sdk = \<lambda>_ _. SdkOk (Some (lit ''print(1)'')) 100 10,
      h_compile = \<lambda>_. Compiles, h_json_error = \<lambda>_. [], h_str = \<lambda>_. [], h_resolve = \<lambda>p. p,
      h_mkdir = \<lambda>_ _. None, h_read = \<lambda>_ _. None, h_write = \<lambda>_ _. None,
      h_tmp_open = \<lambda>_. None, h_tmp_write = \<lambda>_ _. None, h_tmp_close = \<lambda>_. None,
      h_docker_env = \<lambda>_. None, h_docker_run = \<lambda>_. None, h_docker_wait = \<lambda>_. Inr code,
      h_docker_logs = \<lambda>_ _. Inr [], h_docker_kill = \<lambda>_. None, h_docker_remove = \<lambda>_. None\<rparr>"

definition calm_pg :: pg_host where
  "calm_pg = \<lparr>pg_enter = \<lambda>_ _. None, pg_setup = \<lambda>_ _. None, pg_exit = \<lambda>_ _. None\<rparr>"

definition sample_built :: "string \<Rightarrow> provider \<times> agent_model_config" where
  "sample_built name = (ArkProvider [] [], \<lparr>cf_model = lit ''doubao-1.5-lite-32k'', cf_temperature = fl_zero,
      cf_max_tokens = 512, cf_endpoint_alias = lit ''ark''\<rparr>)"

definition calm_deployment :: "int \<Rightarrow> deployment" where
  "calm_deployment code =
     \<lparr>dp_host = calm_host code, dp_pg = calm_pg, dp_built = sample_built, dp_uuid = \<lambda>_. lit ''u'',
      dp_idle = \<lambda>_ _ w. thread_at Finished (initial_state [] None) w, dp_listing = \<lambda>_. []\<rparr>"

definition sample_process :: process where
  "sample_process = \<lparr>pr_world = sample_world sample_guard, pr_savers = no_savers, pr_store = \<lambda>_ _. None\<rparr>"

definition started_gateway :: gateway where
  "started_gateway = \<lparr>gw_process = sample_process, gw_queue = q_empty, gw_log = [], gw_worker = None\<rparr>"

definition sample_payload :: alert_payload where
  "sample_payload =
     \<lparr>pl_service_name = lit ''payments'', pl_error_type = lit ''KeyError'', pl_message = lit ''no such key'',
      pl_timestamp = lit ''2026-01-01T00:00:00Z'', pl_stack_trace = None\<rparr>"

text \<open>The gateway after one alert.\<close>

definition alerted_gateway :: gateway where
  "alerted_gateway = snd (ingest_alert (calm_deployment 0) sample_payload None started_gateway)"

definition sample_scenario :: scenario where
  "sample_scenario =
     \<lparr>sc_id = lit ''001_code_keyerror'', sc_category = lit ''CODE'', sc_log_path = lit ''log.json'',
      sc_classification = lit ''CODE'', sc_action = lit ''restart'', sc_verdict = lit ''SAFE'', sc_notes = [],
      sc_labeled_by = lit ''sre'', sc_labeled_at = []\<rparr>"

lemma sample_token: "trace_id_ok (replicate 32 97)"
  by (simp add: trace_id_ok_def is_hex_lower_def numeral_eq_Suc)

lemma sample_process_ok: "process_ok sample_process"
  by (simp add: process_ok_def sample_process_def no_savers_ok)

lemma sample_no_dsn: "\<not> nonempty (environ (pr_world sample_process) dsn_env)"
  by (simp add: sample_process_def sample_world_def nonempty_def)

lemma calm_deployment_ok: "deployment_ok (calm_deployment code)"
  using sample_token
  by (simp add: deployment_ok_def calm_deployment_def files_raise_os_def calm_host_def thread_at_def)

lemma started_reached: "gateway_reaches (calm_deployment code) started_gateway"
  using sample_process_ok
  by (intro started [where p = sample_process])
    (simp_all add: lifespan_start_def calm_deployment_def calm_host_def started_gateway_def)

lemma alerted_reached: "gateway_reaches (calm_deployment 0) alerted_gateway"
proof (rule stepped [OF started_reached])
  show "gateway_step (calm_deployment 0) started_gateway alerted_gateway"
    by (rule gateway_step.alert [where payload = sample_payload and header = None and
          r = "fst (ingest_alert (calm_deployment 0) sample_payload None started_gateway)"])
      (simp add: alerted_gateway_def)
qed

lemma alerted_queue: "length (q_items (gw_queue alerted_gateway)) \<le> 1"
proof -
  let ?d = "calm_deployment 0" and ?jid = "replicate 32 97 :: ustr"
  obtain r where "accept_alert ?d sample_payload ?jid started_gateway = (r, alerted_gateway)"
    by (simp add: alerted_gateway_def ingest_alert_def calm_deployment_def calm_host_def)
      (metis prod.collapse)
  then show ?thesis
  proof (cases rule: accept_cases)
    case (raised e)
    show ?thesis unfolding raised(2) by (simp add: started_gateway_def q_empty_def)
  qed (simp add: started_gateway_def q_put_def q_empty_def)
qed

text \<open>The alert was accepted, and its job waits.\<close>

lemma alerted_accepted:
  "\<exists>resp. fst (ingest_alert (calm_deployment 0) sample_payload None started_gateway) = Inr (HttpOk 202 resp)"
proof -
  have "payload_text_ok sample_payload"
    by (simp add: payload_text_ok_def sample_payload_def text_ok_literal)
  then have "dump_plain (dumps None (payload_json sample_payload))" by (intro dumps_plain payload_json_ok)
  then have "\<not> (\<exists>c \<in> set (dumps None (payload_json sample_payload)). 55296 \<le> c \<and> c \<le> 57343)"
    unfolding dump_plain_def by fastforce
  then show ?thesis
    by (simp add: ingest_alert_def accept_alert_def io_bind_def on_files_def on_world_def write_text_def
        calm_deployment_def calm_host_def Let_def del: bex_simps)
qed

lemma alerted_waiting:
  obtains job where "q_items (gw_queue alerted_gateway) = [job]" "job_id job = replicate 32 97"
    "files (gw_world alerted_gateway) (result_path (job_id job)) = None"
proof -
  let ?d = "calm_deployment 0" and ?jid = "replicate 32 97 :: ustr"
  have plain: "slash \<notin> set ?jid" by (simp add: slash_def)
  have other: "result_path ?jid \<noteq> incoming_path ?jid"
    unfolding result_path_eq [OF plain] incoming_path_eq(1) [OF plain]
    by (simp add: output_file_def incoming_dir_def text_simps)
  obtain r where acc: "accept_alert ?d sample_payload ?jid started_gateway = (r, alerted_gateway)"
    by (simp add: alerted_gateway_def ingest_alert_def calm_deployment_def calm_host_def)
      (metis prod.collapse)
  have ok: "\<exists>resp. r = Inr (HttpOk 202 resp)"
    using alerted_accepted acc by (simp add: ingest_alert_def calm_deployment_def calm_host_def)
  from acc show ?thesis
  proof (cases rule: accept_cases)
    case (accepted gw1)
    with other show ?thesis
      by (intro that [of "new_job ?d sample_payload ?jid gw1"])
        (simp_all add: started_gateway_def q_put_def q_empty_def new_job_def gw_world_def sample_process_def sample_world_def)
  qed (use ok in simp)
qed

text \<open>A job.  The files of \<open>sample_process\<close> do not have its log.\<close>

definition sample_job :: alert_job where
  "sample_job =
     \<lparr>job_id = replicate 32 97, job_log_path = incoming_path (replicate 32 97), job_service = lit ''payments'',
      job_enqueued = [], job_trace = replicate 32 97\<rparr>"

lemma missing_log_thread:
  assumes "files w (path_str (path_str lp)) = None" "h_read h (path_str (path_str lp)) w = None"
  shows "st_error_log (th_state (pipeline_thread h ag lp (Some tid) w)) = None"
  using assms
  by (simp add: pipeline_thread_def graph_invoke_def graph_fuel_def numeral_eq_Suc step_node_def dispatch_def
      follow_def parse_log_def read_text_def parse_failed_def initial_state_def nonempty_def thread_at_def
      route_after_parse_def Let_def)

text \<open>The log of the sample scenario.\<close>

lemma sample_path: "path_str (lit ''log.json'') = lit ''log.json''"
  by code_simp

lemma sample_not_denied: "\<not> deny_listed (mock_artifact sample_scenario)"
  by code_simp

lemma sample_calm: "calm_sandbox (calm_host code) code"
  by (simp add: calm_sandbox_def calm_host_def)

definition logged_world :: world where
  "logged_world = (sample_world sample_guard)
     \<lparr>files := \<lambda>p. if p = lit ''log.json'' then Some (dumps None (payload_json sample_payload)) else None\<rparr>"

lemma sample_log_text:
  assumes "files w = files logged_world"
  shows "parse_log (calm_host code) (initial_state (path_str (lit ''log.json'')) tid) w =
    (Inr [UErrorLog (Some (payload_log sample_payload)), UParseError None], w)"
proof -
  have "payload_text_ok sample_payload" "payload_complete sample_payload"
    by (simp_all add: payload_text_ok_def payload_complete_def sample_payload_def text_ok_literal)
  then show ?thesis
    using stored_payload_parses [of sample_payload "lit ''log.json''" "calm_host code" w tid] assms sample_path
    by (auto simp: calm_host_def logged_world_def)
qed

lemma sample_log_parses:
  "parse_log (calm_host code) (bench_state sample_scenario tid) logged_world =
   (Inr [UErrorLog (Some (payload_log sample_payload)), UParseError None], logged_world)"
  using sample_log_text [of logged_world code None]
  by (simp add: parse_log_def bench_state_def initial_state_def sample_scenario_def sample_path)

text \<open>The same world with another amount spent and another limit.\<close>

definition funded_world :: "decimal \<Rightarrow> decimal \<Rightarrow> world" where
  "funded_world spent limit =
     logged_world\<lparr>guard := Some (sample_guard\<lparr>total_spent := spent, budget_limit := limit\<rparr>)\<rparr>"

lemma funded_world_simps [simp]:
  "files (funded_world spent limit) = files logged_world" "sdk_log (funded_world spent limit) = []"
  "get_cost_guard (environ (funded_world spent limit) budget_env) (guard (funded_world spent limit)) =
     Inr (sample_guard\<lparr>total_spent := spent, budget_limit := limit\<rparr>)"
  by (simp_all add: funded_world_def logged_world_def sample_world_def get_cost_guard_def)

text \<open>Without the environment variable the budget is 150.\<close>

lemma default_budget: "dec_parse (lit ''150'') = DFinite (Dec 150 0)"
proof -
  have l: "lit ''150'' = [49, 53, 48]" unfolding lit_Cons lit_Nil by simp
  have s: "strip [49, 53, 48] = [49, 53, 48]" by (rule strip_fixed) (simp_all add: is_space_def)
  show ?thesis unfolding l dec_parse_def s
    by (simp add: is_digit_def digits_val_def dec_lit_exp_def Let_def)
qed

lemma default_guard: "get_cost_guard None None = Inr sample_guard"
  by (simp add: get_cost_guard_def sample_guard_def default_budget new_guard_def currencies_def
      dec_less_def dec_zero_def dec_scaled_def)

text \<open>One incident over the sample log, run to its stop with the production agents.\<close>

definition sample_incident :: agent_state where
  "sample_incident = bench_state sample_scenario (replicate 32 97)"

definition lone_incident :: incidents where
  "lone_incident =
     put_thread 0 False
       (graph_invoke (calm_host 0) (production_agents (calm_host 0) sample_built) sample_incident logged_world)
       (incidents_start (\<lambda>_. sample_incident) logged_world)"

lemma lone_incident_reached:
  "incidents_reach (calm_host 0) (production_agents (calm_host 0) sample_built) 1
     (incidents_start (\<lambda>_. sample_incident) logged_world) lone_incident"
  unfolding lone_incident_def by (rule sole_invoke)

lemma logged_world_untouched: "docker_log logged_world = []" "sdk_log logged_world = []"
  by (simp_all add: logged_world_def sample_world_def)

text \<open>
  What the sample SDK's 100 and 10 tokens cost at the price of the sample model: 3.6e-05 yuan,
  through the float arithmetic and the shortest decimal text.
\<close>

lemmas fl_compute = fl_div_int_def fl_of_dec_def fl_of_ratio_def ulp_exp_def scale_div_def half_even_div_def
  Let_def bitlen.simps

lemma sample_cost: "call_cost (sample_built name) 100 10 = Some (Dec 36 (- 6))"
proof -
  let ?x = "Fin False 5312662293228351 (- 67)"
  have "cents 30 = Fin False 5404319552844595 (- 54)" "fl_div_int 100 1000000 = Fin False 7378697629483821 (- 66)"
    by (simp_all add: cents_def fl_compute)
  then have m: "fl_mul (fl_div_int 100 1000000) (cents 30) = Fin False 8854437155380585 (- 68)"
    by (simp add: fl_compute)
  have "cents 60 = Fin False 5404319552844595 (- 53)" "fl_div_int 10 1000000 = Fin False 5902958103587057 (- 69)"
    by (simp_all add: cents_def fl_compute)
  then have "fl_mul (fl_div_int 10 1000000) (cents 60) = Fin False 7083549724304468 (- 70)"
    by (simp add: fl_compute)
  with m have "compute_cost ark_pricing (lit ''doubao-1.5-lite-32k'') 100 10 =
      (Fin False 8854437155380585 (- 68), Fin False 7083549724304468 (- 70))"
    by (simp add: compute_cost_def ark_pricing_def)
  moreover have "fl_add (Fin False 8854437155380585 (- 68)) (Fin False 7083549724304468 (- 70)) = ?x"
    by (simp add: fl_compute)
  moreover have "dec_of_float ?x = Some (Dec 36 (- 6))"
  proof -
    have "ndigits 27777 = 5" by (simp add: ndigits.simps)
    then have "dec_point 5312662293228351 147573952589676412928 = - 4" by (simp add: dec_point_def)
    moreover have "fl_of_dec False 3 (- 5) \<noteq> ?x" "fl_of_dec False 4 (- 5) \<noteq> ?x" "fl_of_dec False 36 (- 6) = ?x"
      by (simp_all add: fl_compute)
    ultimately have "repr_try ?x 1 = None" "repr_try ?x 2 = Some (36, - 6)"
      by (simp_all add: repr_try_def Let_def)
    moreover have "[1..<18] = 1 # 2 # [3..<18]" by (simp add: upt_rec)
    ultimately have "repr_digits ?x = ([51, 54], - 4)"
      unfolding repr_digits_def by (simp only: repr_search.simps option.case) (simp add: strip_zeros_def show_nat.simps)
    then have "fl_repr ?x = lit ''3.6e-05''" by (simp add: show_exp_def show_nat.simps text_simps)
    moreover have "lit ''3.6e-05'' = [51, 46, 54, 101, 45, 48, 53]" unfolding lit_Cons lit_Nil by simp
    moreover have "strip [51, 46, 54, 101, 45, 48, 53] = [51, 46, 54, 101, 45, 48, 53]"
      by (rule strip_fixed) (simp_all add: is_space_def)
    ultimately show ?thesis
      by (simp add: dec_of_float_def dec_parse_def is_digit_def digits_val_def dec_lit_exp_def Let_def)
  qed
  ultimately show ?thesis by (simp add: call_cost_def sample_built_def provider_prices_def)
qed

text \<open>The replies of the sample SDK, and the guard that can pay for them.\<close>

definition sample_reply :: "ustr \<Rightarrow> ustr" where "sample_reply _ = lit ''print(1)''"

lemma sample_reply_no_json: "string_field key (lit ''print(1)'') = None"
proof -
  have "parse_value (Suc n) [112, 114, 105, 110, 116, 40, 49, 41] = Bad" for n
    by (simp add: scan_atom_def scan_const_def scan_number_def is_digit_def text_simps)
  from this [of 17] have "loads (lit ''print(1)'') = None"
    by (simp add: loads_def json_fuel_def text_simps skip_ws_def is_ws_def del: parse_value.simps)
  then show ?thesis by (rule string_field_not_json)
qed

lemma sample_reply_facts:
  "fix_reply sample_reply = lit ''print(1)''" "agents_asked sample_reply = [''diagnosis'', ''supervisor'', ''code_fixer'', ''security_reviewer'']"
  "parse_verdict (lit ''print(1)'') = lit ''CAUTION''" "strip (lit ''print(1)'') = lit ''print(1)''"
proof -
  note none = sample_reply_no_json
  show "parse_verdict (lit ''print(1)'') = lit ''CAUTION''" by (simp add: parse_verdict_def none)
  have fixer: "fix_agent sample_reply = ''code_fixer''"
    by (simp add: fix_agent_def sample_reply_def parse_routing_def none)
  then show "agents_asked sample_reply = [''diagnosis'', ''supervisor'', ''code_fixer'', ''security_reviewer'']"
    by (simp add: agents_asked_def)
  show s: "strip (lit ''print(1)'') = lit ''print(1)''"
    by (rule strip_fixed) (simp_all add: text_simps is_space_def)
  have "fence_match (lit ''print(1)'') = None" by (simp add: fence_match_def fence_def text_simps)
  with s strip_markdown_fence_plain [of "lit ''print(1)''"] show "fix_reply sample_reply = lit ''print(1)''"
    by (simp add: fix_reply_def sample_reply_def)
qed

lemma sample_reply_allowed: "\<not> deny_listed (lit ''print(1)'')"
  by code_simp

lemma sample_answering: "answering (calm_host code) sample_built sample_reply 100 10 (\<lambda>_. Dec 36 (- 6))"
  using zero_temperature
  by (simp add: answering_def replying_def askable_def agent_config_ok_def sample_cost sample_reply_def calm_host_def)
    (simp add: sample_built_def)

lemma sample_total: "foldl dec_add dec_zero (map (\<lambda>_. Dec 36 (- 6)) (agents_asked sample_reply)) = Dec 144 (- 6)"
  by (simp add: sample_reply_facts) code_simp

lemma sample_affordable: "affordable logged_world (map (\<lambda>_. Dec 36 (- 6)) (agents_asked sample_reply))"
proof -
  have "guard_ok sample_guard" by (simp add: guard_ok_def sample_guard_def dec_zero_def dec_wf_def currencies_def)
  moreover have "list_all (\<lambda>c. 0 \<le> dec_coeff c) (map (\<lambda>_. Dec 36 (- 6)) (agents_asked sample_reply))"
    by (simp add: list_all_iff)
  ultimately show ?thesis
    using sample_total
    by (simp add: affordable_def logged_world_def sample_world_def get_cost_guard_def sample_guard_def dec_le_val dec_val_def)
qed

text \<open>A process whose files have the log of the sample job, and what the job's pipeline leaves.\<close>

definition stored_process :: process where
  "stored_process = sample_process\<lparr>pr_world := (sample_world sample_guard)\<lparr>files := \<lambda>p.
     if p = incoming_path (replicate 32 97) then Some (dumps None (payload_json sample_payload)) else None\<rparr>\<rparr>"

lemma stored_process_ok: "process_ok stored_process" "\<not> nonempty (environ (pr_world stored_process) dsn_env)"
  using sample_process_ok
  by (simp_all add: stored_process_def process_ok_def sample_world_def nonempty_def)

lemma sample_payload_ok: "payload_text_ok sample_payload" "payload_complete sample_payload"
  by (simp_all add: payload_text_ok_def payload_complete_def sample_payload_def text_ok_literal)

lemma sample_paths:
  "path_str (incoming_path (replicate 32 97)) = incoming_path (replicate 32 97)"
  "path_stem (incoming_path (replicate 32 97)) = replicate 32 97"
  "text_ok (incoming_path (replicate 32 97))"
proof -
  note plain = trace_id_plain [OF sample_token]
  show "path_str (incoming_path (replicate 32 97)) = incoming_path (replicate 32 97)"
    by (rule incoming_path_eq(2) [OF plain(1)])
  show "path_stem (incoming_path (replicate 32 97)) = replicate 32 97" by (rule stem_of_incoming [OF plain(1,2)])
  show "text_ok (incoming_path (replicate 32 97))"
    using plain(3) unfolding incoming_path_eq(1) [OF plain(1)]
    by (simp add: incoming_dir_def slash_def is_high_def is_low_def)
qed

lemma stored_log_parses:
  "parse_log (calm_host 0) (initial_state (path_str (incoming_path (replicate 32 97))) tid) (pr_world stored_process) =
   (Inr [UErrorLog (Some (payload_log sample_payload)), UParseError None], pr_world stored_process)"
  using stored_payload_parses [OF sample_payload_ok(1) sample_paths(1), of "calm_host 0" "pr_world stored_process" tid]
    sample_payload_ok(2) sample_paths(1)
  by (simp add: calm_host_def stored_process_def)

lemma stored_affordable:
  "affordable (pr_world stored_process) (map (\<lambda>_. Dec 36 (- 6)) (agents_asked sample_reply))"
  using sample_affordable
  by (simp add: affordable_def stored_process_def logged_world_def sample_world_def sample_process_def)

lemma sample_reply_vocabulary:
  "parse_category (lit ''print(1)'') = lit ''CODE''"
  "parse_routing (lit ''print(1)'') = (lit ''code_fixer'', fallback_rationale)"
  by (simp_all add: parse_category_def parse_routing_def sample_reply_no_json)

text \<open>The state its report node meets, and what it answers there.\<close>

definition sample_delivery :: "nat \<Rightarrow> agent_state" where
  "sample_delivery ms =
     delivered (payload_log sample_payload) (lit ''CODE'') (lit ''code_fixer'') fallback_rationale (lit ''print(1)'')
       (lit ''CAUTION'') (lit ''doubao-1.5-lite-32k'') (exec_ok ExSuccess (Some 0) [] [] ms) (Verbatim, None)
       (initial_state (incoming_path (replicate 32 97)) (Some (replicate 32 97)))"

lemma sample_delivery_keys:
  "st_log_path (sample_delivery ms) = incoming_path (replicate 32 97)"
  "st_error_log (sample_delivery ms) = Some (payload_log sample_payload)"
  "st_analysis_result (sample_delivery ms) = None"
  "st_trace_id (sample_delivery ms) = Some (replicate 32 97)"
  "st_routing_decision (sample_delivery ms) = Some fallback_rationale"
  "st_error_category (sample_delivery ms) = Some (lit ''CODE'')"
  "st_fix_artifact (sample_delivery ms) = Some (lit ''print(1)'')"
  "st_security_verdict (sample_delivery ms) = Some (lit ''CAUTION'')"
  "st_approval_required (sample_delivery ms) = False"
  "st_agent_trace (sample_delivery ms) = roll (lit ''CodeFixerAgent'')"
  "st_execution_error (sample_delivery ms) = None"
  "st_execution_result (sample_delivery ms) = Some (exec_ok ExSuccess (Some 0) [] [] ms)"
  by (simp_all add: sample_delivery_def delivered_def initial_state_def roll_def nonempty_def)

lemma sample_log_texts: "log_index (Some (payload_log sample_payload)) k = Inr v \<Longrightarrow> \<exists>t. v = JStr t \<and> text_ok t \<or> v = JNull"
  by (auto simp: log_index_def payload_log_def sample_payload_def opt_str_def text_ok_literal
      split: option.splits if_splits)

lemma fallback_text_ok: "text_ok fallback_rationale"
  by (simp add: fallback_rationale_def is_high_def is_low_def)

lemma sample_delivery_text:
  assumes "report_text (sample_delivery ms) [] = Inr t"
  shows "text_ok t"
proof (rule report_text_ok [OF assms])
  show "text_ok (py_str v)" if "log_index (st_error_log (sample_delivery ms)) k = Inr v" for k v
    using sample_log_texts [OF that [unfolded sample_delivery_keys]] by auto
  show "text_ok (sandbox_section (sample_delivery ms))"
    by (simp add: sandbox_section_def sample_delivery_keys nonempty_def exec_ok_def)
  show "text_ok (security_section (sample_delivery ms))"
    using fallback_text_ok
    by (simp add: security_section_def sample_delivery_keys nonempty_def verdict_display_def roll_def
        is_high_def is_low_def)
qed (simp_all add: sample_delivery_keys sample_paths)

lemma sample_delivery_sidecar:
  assumes "sidecar (sample_delivery ms) (replicate 32 97) p = Inr v" "text_ok p"
  shows "json_ok v"
proof (rule sidecar_json_ok [OF assms(1)])
  have id: "text_ok (replicate 32 97)" using trace_id_plain [OF sample_token] by simp
  then show "text_ok (replicate 32 97)" "\<And>t. st_trace_id (sample_delivery ms) = Some t \<Longrightarrow> text_ok t"
    by (simp_all add: sample_delivery_keys)
  show "text_ok t" if "derive_summary (sample_delivery ms) = Inr t" for t
    using that fallback_text_ok
    by (auto simp: derive_summary_def analysis_dict_def derive_summary_rest_def sample_delivery_keys nonempty_def
        split: if_splits) (auto simp: fallback_rationale_def)
  show "json_ok f" if "derive_fix (sample_delivery ms) = Inr f" for f
    using that by (auto simp: derive_fix_def analysis_dict_def sample_delivery_keys nonempty_def Let_def lookup_def
        risk_map_def intro!: json_ok.intros)
  show "json_ok x" if "log_index (st_error_log (sample_delivery ms)) k = Inr x" for k x
    using sample_log_texts [OF that [unfolded sample_delivery_keys]] by (auto intro: json_ok.intros)
qed (use assms(2) in simp)

lemma sample_output_ok: "text_ok (output_file (replicate 32 97) ''-report.md'')"
  using trace_id_plain(3) [OF sample_token] by (simp add: output_file_def)

lemma stored_run_filed:
  defines "t \<equiv> pipeline_thread (calm_host 0) (production_agents (calm_host 0) sample_built)
      (incoming_path (replicate 32 97)) (Some (replicate 32 97)) (pr_world stored_process)"
  obtains ms rep where "th_status t = Finished"
    "th_state t = (sample_delivery ms)\<lparr>st_report_text := Some rep,
       st_report_path := Some (output_file (replicate 32 97) ''-report.md'')\<rparr>"
proof -
  let ?h = "calm_host 0" and ?jid = "replicate 32 97 :: ustr"
  let ?ag = "production_agents ?h sample_built"
  have fix_ok: "\<not> deny_listed (fix_reply sample_reply)" "h_compile ?h (fix_reply sample_reply) = Compiles"
    "strip (fix_reply sample_reply) \<noteq> []"
    using sample_reply_allowed by (simp_all add: sample_reply_facts calm_host_def)
  have verdict: "parse_verdict (sample_reply (lit ''security_reviewer'')) \<noteq> lit ''HIGH_RISK''"
    by (simp add: sample_reply_def sample_reply_facts)
  have quiet: "log_texts ?h = {[]}" by (auto simp: log_texts_def calm_host_def)
  have reply: "sample_reply x = lit ''print(1)''" for x by (simp add: sample_reply_def)
  note run = production_run_delivers [OF sample_answering stored_affordable sample_token stored_log_parses fix_ok verdict sample_calm,
      unfolded sample_reply_facts(1), unfolded reply]
  have "\<exists>ms w'. t = step_node ?h ?ag FormatReport (sample_delivery ms) w'"
    by (rule run)
      (auto simp: t_def quiet sample_delivery_def sample_reply_facts sample_reply_vocabulary sample_paths(1) sample_built_def)
  then obtain ms w' where t: "t = step_node ?h ?ag FormatReport (sample_delivery ms) w'" by blast
  have complete: "log_complete (payload_log sample_payload)"
    by (simp add: log_complete_def payload_log_def required_fields_def sample_payload_def)
  have out: "report_file (sample_delivery ms) = output_file ?jid ''-report.md''"
    by (simp add: report_file_def sample_delivery_keys sample_paths)
  note path = sample_output_ok
  have calm: "h_mkdir ?h q u = None" "h_write ?h q u = None" "h_now_utc ?h u = []" "h_resolve ?h q = q" for q u
    by (simp_all add: calm_host_def)
  obtain rep w1 where rep: "format_report ?h (sample_delivery ms) w' =
      (Inr [UReportText rep, UReportPath (output_file ?jid ''-report.md'')], w1)"
    by (rule format_report_succeeds [of "sample_delivery ms" "payload_log sample_payload" ?h w'])
      (use complete sample_delivery_text sample_delivery_sidecar path in
        \<open>auto simp: calm out sample_delivery_keys sample_paths\<close>)
  then show ?thesis by (intro that [of rep ms]) (simp_all add: t step_node_def follow_def)
qed

lemma stored_run_returns:
  "fst (run_on (calm_deployment 0) (incoming_path (replicate 32 97)) (Some (replicate 32 97)) stored_process) =
   Inr (path_str (output_file (replicate 32 97) ''-report.md''))"
proof -
  let ?d = "calm_deployment 0" and ?jid = "replicate 32 97 :: ustr"
  let ?t = "pipeline_thread (calm_host 0) (production_agents (calm_host 0) sample_built)
      (incoming_path ?jid) (Some ?jid) (pr_world stored_process)"
  obtain ms rep where t: "th_status ?t = Finished"
    "th_state ?t = (sample_delivery ms)\<lparr>st_report_text := Some rep, st_report_path := Some (output_file ?jid ''-report.md'')\<rparr>"
    by (rule stored_run_filed)
  have "st_parse_error (sample_delivery ms) = None" "st_analysis_error (sample_delivery ms) = None"
    by (simp_all add: sample_delivery_def delivered_def initial_state_def)
  then have outcome: "pipeline_outcome ?t = Inr (path_str (output_file ?jid ''-report.md''))"
    by (simp add: pipeline_outcome_def t nonempty_def)
  obtain r p' where run: "run_on ?d (incoming_path ?jid) (Some ?jid) stored_process = (r, p')"
    by (cases "run_on ?d (incoming_path ?jid) (Some ?jid) stored_process")
  from run_on_plain [OF stored_process_ok run] outcome
  have "r = Inr (path_str (output_file ?jid ''-report.md''))"
    by (auto simp: run_pipeline_def calm_deployment_def sample_paths stored_process_def Let_def split: if_splits)
  with run show ?thesis by simp
qed

end
