(* ===== verification/Tracing.thy ===== *)
theory Tracing
  imports Pipeline
begin

text \<open>
  \<^verbatim>\<open>autosentinel/tracing.py\<close>: the parent trace of an incident, opened in Langfuse before the graph
  runs.  The Langfuse package and its settings are parameters (\<open>tracing_host\<close>), each call of
  which may raise; \<open>tracer\<close> records what was asked of it and what was logged.
  \<open>run_pipeline_traced\<close> is \<^verbatim>\<open>run_pipeline\<close> with this call in its place.

  The laws show that opening a trace never raises, that the pipeline's result and world are those
  of \<open>run_pipeline\<close> without tracing, and which trace a run leaves in Langfuse.
\<close>

subsection \<open>The parent trace\<close>

record lf_settings =
  lf_host :: ustr
  lf_public_key :: "ustr option"
  lf_secret_key :: "ustr option"

text \<open>What the two imports give: the settings, an \<^verbatim>\<open>ImportError\<close>, or any other exception.\<close>

datatype lf_import = Imported lf_settings | NotInstalled | ImportRaises exn

datatype lf_call =
    LfClient ustr ustr ustr  \<comment> \<open>host, public key, secret key\<close>
  | LfTrace ustr ustr "ustr list"  \<comment> \<open>id, name, tags\<close>
  | LfFlush

record tracing_host =
  tg_import :: lf_import
  tg_call :: "lf_call \<Rightarrow> lf_call list \<Rightarrow> exn option"

record tracer =
  tr_calls :: "lf_call list"
  tr_logged :: "ustr list"

definition lf_do :: "tracing_host \<Rightarrow> lf_call \<Rightarrow> (tracer, unit) io" where
  "lf_do tg call = (\<lambda>t.
     (case tg_call tg call (tr_calls t) of None \<Rightarrow> Inr () | Some e \<Rightarrow> Inl e,
      t\<lparr>tr_calls := tr_calls t @ [call]\<rparr>))"

text \<open>\<^verbatim>\<open>_langfuse_client()\<close>: whether a client was made.\<close>

definition langfuse_client :: "tracing_host \<Rightarrow> (tracer, bool) io" where
  "langfuse_client tg =
     (case tg_import tg of
        NotInstalled \<Rightarrow> io_return False
      | ImportRaises e \<Rightarrow> io_raise e
      | Imported s \<Rightarrow>
          (if \<not> (nonempty (lf_public_key s) \<and> nonempty (lf_secret_key s)) then io_return False
           else io_bind (lf_do tg (LfClient (lf_host s) (the (lf_public_key s)) (the (lf_secret_key s))))
                  (\<lambda>_. io_return True)))"

definition open_failed :: "ustr \<Rightarrow> ustr" where
  "open_failed trace_id = lit ''failed to open parent Langfuse trace for '' @ trace_id"

definition trace_failed :: "ustr \<Rightarrow> (tracer, unit) io" where
  "trace_failed trace_id = (\<lambda>t. (Inr (), t\<lparr>tr_logged := tr_logged t @ [open_failed trace_id]\<rparr>))"

definition open_parent_trace :: "tracing_host \<Rightarrow> ustr \<Rightarrow> ustr \<Rightarrow> ustr \<Rightarrow> (tracer, unit) io" where
  "open_parent_trace tg trace_id project component =
     (if trace_id = [] then io_return ()
      else io_catch
        (io_bind (langfuse_client tg) (\<lambda>client.
           if \<not> client then io_return ()
           else io_bind
             (lf_do tg (LfTrace trace_id (project @ lit ''/'' @ component)
                [lit ''project:'' @ project, lit ''component:'' @ component]))
             (\<lambda>_. lf_do tg LfFlush)))
        (\<lambda>e. Some (trace_failed trace_id)))"

text \<open>\<^verbatim>\<open>open_parent_trace(trace_id)\<close> with its defaults.\<close>

definition open_incident_trace :: "tracing_host \<Rightarrow> ustr \<Rightarrow> (tracer, unit) io" where
  "open_incident_trace tg trace_id =
     open_parent_trace tg trace_id (lit ''auto-sentinel'') (lit ''pipeline'')"

text \<open>\<^verbatim>\<open>run_pipeline\<close>, statement by statement, over the pipeline's world and the tracer.\<close>

definition run_pipeline_traced ::
  "host \<Rightarrow> tracing_host \<Rightarrow> agents \<Rightarrow> ustr \<Rightarrow> ustr option \<Rightarrow> (world \<times> tracer, ustr) io" where
  "run_pipeline_traced h tg ag log_path trace_id = (\<lambda>(w, tr).
     let path = path_str log_path in
     if files w path = None
     then (Inl (FileNotFoundError (lit ''Log file not found: '' @ path)), w, tr)
     else
       (case (if nonempty trace_id then open_incident_trace tg (the trace_id) tr else (Inr (), tr)) of
          (Inl e, tr') \<Rightarrow> (Inl e, w, tr')
        | (Inr _, tr') \<Rightarrow>
            (let t = graph_invoke h ag (initial_state path trace_id) w
             in (pipeline_outcome t, th_world t, tr'))))"

lemma open_parent_trace_returns: "fst (open_parent_trace tg tid p c t) = Inr ()"
  by (auto simp: open_parent_trace_def io_catch_def trace_failed_def split: prod.split sum.split)

lemma langfuse_client_cases:
  obtains (unavailable) r where "langfuse_client tg t = (r, t)" "r = Inr False \<or> (\<exists>e. r = Inl e)"
  | (connected) r host pk sk where
      "langfuse_client tg t = (r, t\<lparr>tr_calls := tr_calls t @ [LfClient host pk sk]\<rparr>)"
      "r = Inr True \<or> (\<exists>e. r = Inl e)" "pk \<noteq> []" "sk \<noteq> []"
proof (cases "tg_import tg")
  case (Imported s)
  show ?thesis
  proof (cases "nonempty (lf_public_key s) \<and> nonempty (lf_secret_key s)")
    case True
    then show ?thesis using Imported connected
      by (fastforce simp: langfuse_client_def lf_do_def io_bind_def nonempty_def split: option.splits)
  next
    case False
    then show ?thesis using Imported unavailable by (auto simp: langfuse_client_def)
  qed
qed (auto simp: langfuse_client_def intro: unavailable)

text \<open>A trace is opened once, under the given id and tags; a failure is one log line.\<close>

definition parent_trace :: "ustr \<Rightarrow> ustr \<Rightarrow> ustr \<Rightarrow> lf_call" where
  "parent_trace tid p c = LfTrace tid (p @ lit ''/'' @ c) [lit ''project:'' @ p, lit ''component:'' @ c]"

definition trace_session :: "ustr \<Rightarrow> ustr \<Rightarrow> ustr \<Rightarrow> lf_call list \<Rightarrow> bool" where
  "trace_session tid p c calls \<longleftrightarrow>
     (\<exists>host pk sk. pk \<noteq> [] \<and> sk \<noteq> [] \<and> prefix calls [LfClient host pk sk, parent_trace tid p c, LfFlush])"

lemma open_parent_trace_calls:
  "\<exists>calls lines. snd (open_parent_trace tg tid p c t) =
     t\<lparr>tr_calls := tr_calls t @ calls, tr_logged := tr_logged t @ lines\<rparr> \<and>
     trace_session tid p c calls \<and> (tid = [] \<longrightarrow> calls = [] \<and> lines = []) \<and> length lines \<le> 1"
proof (cases "tid = []")
  case True
  then show ?thesis
    by (intro exI [of _ "[]"]) (auto simp: open_parent_trace_def trace_session_def intro!: exI [of _ "[0]"])
next
  case False
  have session: "trace_session tid p c []"
    "pk \<noteq> [] \<Longrightarrow> sk \<noteq> [] \<Longrightarrow> trace_session tid p c [LfClient host pk sk]"
    "pk \<noteq> [] \<Longrightarrow> sk \<noteq> [] \<Longrightarrow> trace_session tid p c [LfClient host pk sk, parent_trace tid p c]"
    "pk \<noteq> [] \<Longrightarrow> sk \<noteq> [] \<Longrightarrow> trace_session tid p c [LfClient host pk sk, parent_trace tid p c, LfFlush]"
    for host pk sk
    by (auto simp: trace_session_def intro!: exI [of _ "[0]"])
  show ?thesis
  proof (cases rule: langfuse_client_cases [of tg t])
    case (unavailable r)
    with False session(1) show ?thesis
      by (intro exI [of _ "[]"] exI [of _ "if r = Inr False then [] else [open_failed tid]"])
        (auto simp: open_parent_trace_def io_catch_def io_bind_def trace_failed_def)
  next
    case (connected r host pk sk)
    note s = session(2-4) [OF connected(3,4), of host]
    let ?c0 = "tr_calls t @ [LfClient host pk sk]"
    consider (no) e where "r = Inl e" | (no_trace) e where "r = Inr True" "tg_call tg (parent_trace tid p c) ?c0 = Some e"
      | (no_flush) "r = Inr True" "tg_call tg (parent_trace tid p c) ?c0 = None"
      using connected(2) by (cases "tg_call tg (parent_trace tid p c) ?c0") auto
    then show ?thesis
    proof cases
      case no
      with False connected(1) s(1) show ?thesis
        by (intro exI [of _ "[LfClient host pk sk]"])
          (auto simp: open_parent_trace_def io_catch_def io_bind_def trace_failed_def)
    next
      case no_trace
      with False connected(1) s(2) show ?thesis
        by (intro exI [of _ "[LfClient host pk sk, parent_trace tid p c]"])
          (auto simp: open_parent_trace_def io_catch_def io_bind_def trace_failed_def lf_do_def parent_trace_def)
    next
      case no_flush
      with False connected(1) s(3) show ?thesis
        by (intro exI [of _ "[LfClient host pk sk, parent_trace tid p c, LfFlush]"]
              exI [of _ "case tg_call tg LfFlush (?c0 @ [parent_trace tid p c]) of
                 None \<Rightarrow> [] | Some _ \<Rightarrow> [open_failed tid]"])
          (auto simp: open_parent_trace_def io_catch_def io_bind_def trace_failed_def lf_do_def parent_trace_def
            split: option.split)
    qed
  qed
qed

text \<open>Tracing is transparent to the pipeline.\<close>

lemma traced_pipeline:
  "\<exists>calls lines. run_pipeline_traced h tg ag log_path trace_id (w, tr) =
     (fst (run_pipeline h ag log_path trace_id w), snd (run_pipeline h ag log_path trace_id w),
      tr\<lparr>tr_calls := tr_calls tr @ calls, tr_logged := tr_logged tr @ lines\<rparr>) \<and>
     (if nonempty trace_id \<and> files w (path_str log_path) \<noteq> None
      then trace_session (the trace_id) (lit ''auto-sentinel'') (lit ''pipeline'') calls \<and> length lines \<le> 1
      else calls = [] \<and> lines = [])"
proof (cases "nonempty trace_id \<and> files w (path_str log_path) \<noteq> None")
  case True
  let ?o = "open_parent_trace tg (the trace_id) (lit ''auto-sentinel'') (lit ''pipeline'') tr"
  from open_parent_trace_calls [of tg "the trace_id" "lit ''auto-sentinel''" "lit ''pipeline''" tr]
  obtain calls lines where c: "snd ?o = tr\<lparr>tr_calls := tr_calls tr @ calls, tr_logged := tr_logged tr @ lines\<rparr>"
    "trace_session (the trace_id) (lit ''auto-sentinel'') (lit ''pipeline'') calls" "length lines \<le> 1" by blast
  have "?o = (Inr (), tr\<lparr>tr_calls := tr_calls tr @ calls, tr_logged := tr_logged tr @ lines\<rparr>)"
    using c(1) open_parent_trace_returns by (metis prod.collapse)
  with True c show ?thesis
    by (intro exI [of _ calls] exI [of _ lines])
      (auto simp: run_pipeline_traced_def run_pipeline_def pipeline_thread_def open_incident_trace_def Let_def)
next
  case False
  then show ?thesis
    by (intro exI [of _ "[]"])
      (auto simp: run_pipeline_traced_def run_pipeline_def pipeline_thread_def Let_def)
qed

subsection \<open>The spans of the clients\<close>

text \<open>
  \<^verbatim>\<open>complete\<close> of the Ark and GLM clients opens a span of the optional \<^verbatim>\<open>LLMTracer\<close> around the
  provider call.  The tracer is a parameter: each of its calls may raise, and leaving its context
  may swallow the exception of the body.  The guarded attributes are whether \<^verbatim>\<open>hasattr\<close> finds them.
\<close>

datatype span_call =
    SpanOpen ustr ustr ustr ustr  \<comment> \<open>trace id, project, component, model\<close>
  | SpanEnter
  | SpanTokens int int
  | SpanCosts pyfloat pyfloat ustr
  | SpanExit bool  \<comment> \<open>whether the body raised\<close>

record span_host =
  sp_installed :: bool
  sp_has_tokens :: bool
  sp_has_costs :: bool
  sp_call :: "span_call \<Rightarrow> span_call list \<Rightarrow> exn option"
  sp_swallows :: "exn \<Rightarrow> span_call list \<Rightarrow> bool"

type_synonym spanned = "world \<times> span_call list"

definition span_do :: "span_host \<Rightarrow> span_call \<Rightarrow> (spanned, unit) io" where
  "span_do sp call = (\<lambda>(w, cs).
     (case sp_call sp call cs of None \<Rightarrow> Inr () | Some e \<Rightarrow> Inl e, w, cs @ [call]))"

definition under_span :: "(world, 'a) io \<Rightarrow> (spanned, 'a) io" where
  "under_span m = (\<lambda>(w, cs). case m w of (r, w') \<Rightarrow> (r, w', cs))"

text \<open>The variables the body of the span binds.\<close>

record sdk_locals =
  lc_content :: ustr
  lc_prompt :: int
  lc_completion :: int
  lc_costs :: "pyfloat \<times> pyfloat"
  lc_latency :: int

definition sdk_phase :: "ustr \<Rightarrow> price_table \<Rightarrow> host \<Rightarrow> llm_request \<Rightarrow> (world, sdk_locals) io" where
  "sdk_phase name table h req = (\<lambda>w.
     case invoke_with_retry h req w of
       (SdkTimeout m, w') \<Rightarrow>
         (Inl (LLMTimeoutError (name @ lit '' request timed out after 2 attempts: '' @ m)), w')
     | (SdkStatusError m, w') \<Rightarrow>
         (Inl (LLMProviderError (name @ lit '' provider returned error status: '' @ m)), w')
     | (SdkApiError m, w') \<Rightarrow> (Inl (LLMProviderError (name @ lit '' API error: '' @ m)), w')
     | (SdkOther c m, w') \<Rightarrow> (Inl (OtherError c m), w')
     | (SdkOk content prompt completion, w') \<Rightarrow>
         (Inr \<lparr>lc_content = or_else content [], lc_prompt = prompt, lc_completion = completion,
               lc_costs = compute_cost table (rq_model req) prompt completion,
               lc_latency = int (h_elapsed h w w')\<rparr>, w'))"

definition enrich_span :: "span_host \<Rightarrow> sdk_locals \<Rightarrow> (spanned, unit) io" where
  "enrich_span sp l =
     io_bind (if sp_has_tokens sp then span_do sp (SpanTokens (lc_prompt l) (lc_completion l)) else io_return ())
       (\<lambda>_. if sp_has_costs sp then span_do sp (SpanCosts (fst (lc_costs l)) (snd (lc_costs l)) (lit ''CNY''))
            else io_return ())"

definition settle :: "host \<Rightarrow> ustr \<Rightarrow> ustr \<Rightarrow> sdk_locals \<Rightarrow> (world, llm_response) io" where
  "settle h model trace l = (\<lambda>w.
     case dec_of_float (fl_add (fst (lc_costs l)) (snd (lc_costs l))) of
       None \<Rightarrow> (Inl (ValidationError (lit ''LLMResponse'') [lit ''cost'']), w)
     | Some cost \<Rightarrow>
         (case mk_response
             \<lparr>rs_content = lc_content l, rs_model = model, rs_prompt_tokens = lc_prompt l,
              rs_completion_tokens = lc_completion l, rs_cost = cost, rs_currency = lit ''CNY'',
              rs_latency_ms = lc_latency l, rs_trace_id = trace\<rparr> of
            Inl e \<Rightarrow> (Inl e, w)
          | Inr resp \<Rightarrow> io_bind (bill h cost) (\<lambda>_. io_return resp) w))"

text \<open>Leaving the \<^verbatim>\<open>with\<close> block: an exception of the body may be swallowed.\<close>

definition leave_span :: "span_host \<Rightarrow> unit result \<Rightarrow> (spanned, unit) io" where
  "leave_span sp r =
     (case r of
        Inr _ \<Rightarrow> span_do sp (SpanExit False)
      | Inl e \<Rightarrow> io_bind (span_do sp (SpanExit True))
          (\<lambda>_ (w, cs). (if sp_swallows sp e cs then Inr () else Inl e, w, cs)))"

definition unbound_local :: exn where
  "unbound_local = OtherError (lit ''UnboundLocalError'')
     (lit ''cannot access local variable 'input_cost' where it is not associated with a value'')"

definition spanned_call ::
  "span_host \<Rightarrow> (world, sdk_locals) io \<Rightarrow> (sdk_locals \<Rightarrow> (world, llm_response) io) \<Rightarrow> (spanned, llm_response) io" where
  "spanned_call sp phase after = (\<lambda>st.
     let (r, st1) = under_span phase st;
         (body, st2) = (case r of Inl e \<Rightarrow> (Inl e, st1) | Inr l \<Rightarrow> enrich_span sp l st1)
     in io_bind (leave_span sp body)
          (\<lambda>_. case r of Inl _ \<Rightarrow> io_raise unbound_local | Inr l \<Rightarrow> under_span (after l)) st2)"

definition complete_spanned :: "span_host \<Rightarrow> ustr \<Rightarrow> price_table \<Rightarrow> host \<Rightarrow> spanned client" where
  "complete_spanned sp name table h ms model trace agent k temp =
     io_bind (io_lift (mk_request (request_of ms model trace agent k temp))) (\<lambda>req.
       let phase = sdk_phase name table h req; after = settle h model trace in
       if sp_installed sp
       then io_bind (span_do sp (SpanOpen trace (lit ''auto-sentinel'') agent model)) (\<lambda>_.
              io_bind (span_do sp SpanEnter) (\<lambda>_. spanned_call sp phase after))
       else io_bind (under_span phase) (\<lambda>l. under_span (after l)))"

text \<open>Without spans the phases compose to \<open>provider_complete\<close>.\<close>

lemma provider_phases:
  "provider_complete name table h ms model trace agent k temp =
     io_bind (io_lift (mk_request (request_of ms model trace agent k temp))) (\<lambda>req.
       io_bind (sdk_phase name table h req) (settle h model trace))"
proof
  fix w
  show "provider_complete name table h ms model trace agent k temp w =
     io_bind (io_lift (mk_request (request_of ms model trace agent k temp))) (\<lambda>req.
       io_bind (sdk_phase name table h req) (settle h model trace)) w"
    by (auto simp: provider_complete_def sdk_phase_def settle_def io_bind_def request_of_def
        split: sum.splits prod.splits sdk_outcome.splits option.splits dest!: mk_request_eq)
qed

text \<open>Whatever the tracer does, the world is left where one of the phases left it.\<close>

lemma complete_spanned_world:
  assumes "mk_request (request_of ms model trace agent k temp) = Inr req"
  shows "fst (snd (complete_spanned sp name table h ms model trace agent k temp (w, cs))) \<in>
    {w, snd (sdk_phase name table h req w),
     snd (provider_complete name table h ms model trace agent k temp w)}"
proof -
  have do_world: "\<exists>r cs'. span_do sp call (v, c) = (r, v, cs')" for call v c by (simp add: span_do_def)
  have enrich_world: "\<exists>r cs'. enrich_span sp l (v, c) = (r, v, cs')" for l v c
    by (auto simp: enrich_span_def io_bind_def span_do_def split: option.split)
  have leave_world: "\<exists>r cs'. leave_span sp b (v, c) = (r, v, cs')" for b v c
    by (cases b) (auto simp: leave_span_def io_bind_def span_do_def split: option.split)
  obtain r w1 where ph: "sdk_phase name table h req w = (r, w1)" by (cases "sdk_phase name table h req w")
  have pc: "provider_complete name table h ms model trace agent k temp w =
      (case r of Inl e \<Rightarrow> (Inl e, w1) | Inr l \<Rightarrow> settle h model trace l w1)"
    using assms ph by (auto simp: provider_phases io_bind_def split: sum.split)
  have call: "fst (snd (spanned_call sp (sdk_phase name table h req) (settle h model trace) (w, c))) \<in>
      {w1, snd (case r of Inl e \<Rightarrow> (Inl e, w1) | Inr l \<Rightarrow> settle h model trace l w1)}" for c
  proof (cases r)
    case (Inl e)
    obtain x cs' where "leave_span sp (Inl e) (w1, c) = (x, w1, cs')" using leave_world by blast
    with Inl ph show ?thesis by (cases x) (simp_all add: spanned_call_def under_span_def io_bind_def)
  next
    case (Inr l)
    obtain b c1 where b: "enrich_span sp l (w1, c) = (b, w1, c1)" using enrich_world by blast
    obtain x c2 where "leave_span sp b (w1, c1) = (x, w1, c2)" using leave_world by blast
    with Inr ph b show ?thesis
      by (cases x) (auto simp: spanned_call_def under_span_def io_bind_def split: prod.split)
  qed
  show ?thesis
  proof (cases "sp_installed sp")
    case True
    obtain r1 c1 where opened: "span_do sp (SpanOpen trace (lit ''auto-sentinel'') agent model) (w, cs) = (r1, w, c1)"
      using do_world by blast
    obtain r2 c2 where entered: "span_do sp SpanEnter (w, c1) = (r2, w, c2)" using do_world by blast
    have "fst (snd (complete_spanned sp name table h ms model trace agent k temp (w, cs))) =
      (case r1 of Inl e \<Rightarrow> w | Inr _ \<Rightarrow> (case r2 of Inl e \<Rightarrow> w
         | Inr _ \<Rightarrow> fst (snd (spanned_call sp (sdk_phase name table h req) (settle h model trace) (w, c2)))))"
      using assms True opened entered by (cases r1; cases r2; simp add: complete_spanned_def io_bind_def Let_def)
    then show ?thesis using call [of c2] ph pc by (auto split: sum.split)
  next
    case False
    with assms ph pc show ?thesis
      by (auto simp: complete_spanned_def io_bind_def under_span_def Let_def split: sum.split prod.split)
  qed
qed

definition quiet_spans :: "span_host \<Rightarrow> bool" where
  "quiet_spans sp \<longleftrightarrow> (\<forall>call cs. sp_call sp call cs = None) \<and> (\<forall>e cs. \<not> sp_swallows sp e cs)"

text \<open>A tracer that raises nothing, or none at all, changes no result and no world.\<close>

lemma quiet_spans_transparent:
  assumes "\<not> sp_installed sp \<or> quiet_spans sp"
  shows "\<exists>cs'. complete_spanned sp name table h ms model trace agent k temp (w, cs) =
    (fst (provider_complete name table h ms model trace agent k temp w),
     snd (provider_complete name table h ms model trace agent k temp w), cs')"
proof (cases "mk_request (request_of ms model trace agent k temp)")
  case (Inl e)
  then show ?thesis by (simp add: complete_spanned_def provider_phases io_bind_def)
next
  case (Inr req)
  obtain r w1 where ph: "sdk_phase name table h req w = (r, w1)" by (cases "sdk_phase name table h req w")
  have pc: "provider_complete name table h ms model trace agent k temp w =
      (case r of Inl e \<Rightarrow> (Inl e, w1) | Inr l \<Rightarrow> settle h model trace l w1)"
    using Inr ph by (auto simp: provider_phases io_bind_def split: sum.split)
  show ?thesis
  proof (cases "sp_installed sp")
    case True
    with assms have quiet: "sp_call sp call cs = None" "\<not> sp_swallows sp e cs" for call cs e
      by (auto simp: quiet_spans_def)
    then have "span_do sp call (v, c) = (Inr (), v, c @ [call])" for call v c by (simp add: span_do_def)
    with True Inr ph pc quiet(2) show ?thesis
      by (cases r)
        (auto simp: complete_spanned_def spanned_call_def enrich_span_def leave_span_def under_span_def
          io_bind_def Let_def split: prod.split)
  next
    case False
    with Inr ph pc show ?thesis
      by (auto simp: complete_spanned_def io_bind_def under_span_def Let_def split: sum.split prod.split)
  qed
qed

text \<open>
  A tracer that fails when it is told the costs: the provider has answered, yet the call raises and
  nothing is billed.
\<close>

lemma failing_costs_unbilled:
  assumes "sp_installed sp" "sp_has_costs sp" "\<And>e cs. \<not> sp_swallows sp e cs"
    and "\<And>call cs. sp_call sp call cs = (case call of SpanCosts _ _ _ \<Rightarrow> Some boom | _ \<Rightarrow> None)"
    and "mk_request (request_of ms model trace agent k temp) = Inr req" "h_sdk h req w = SdkOk content prompt completion"
  shows "\<exists>cs'. complete_spanned sp name table h ms model trace agent k temp (w, cs) =
    (Inl boom, w\<lparr>sdk_log := sdk_log w @ [req]\<rparr>, cs')"
proof -
  have "\<exists>l. sdk_phase name table h req w = (Inr l, w\<lparr>sdk_log := sdk_log w @ [req]\<rparr>)"
    using assms(6) by (simp add: sdk_phase_def invoke_with_retry_def sdk_attempt_def)
  with assms show ?thesis
    by (auto simp: complete_spanned_def spanned_call_def enrich_span_def leave_span_def under_span_def
        io_bind_def span_do_def Let_def)
qed

end
