(* ===== verification/Scripts.thy ===== *)
theory Scripts
  imports Tracing PyRound
begin

text \<open>
  The smaller scripts under \<^verbatim>\<open>scripts/\<close>: the gate on the authorship of scenarios
  (\<^verbatim>\<open>check_scenario_authorship.py\<close>), the routing evaluation (\<^verbatim>\<open>run_holdout_eval.py\<close>), and the two
  live probes (\<^verbatim>\<open>check_endpoints.py\<close>, \<^verbatim>\<open>send_real_trace.py\<close>).  \<^verbatim>\<open>git\<close>, the YAML reader and
  \<^verbatim>\<open>load_dotenv\<close> are parameters; tables printed for a reader are left out.

  The laws: the gate exits with 0 exactly when every added scenario has a commit with the
  trailer; the evaluation scores each incident once; the probe exits with 0 exactly when each
  of its three agents answered at a price.
\<close>

subsection \<open>\<^verbatim>\<open>check_scenario_authorship.py\<close>\<close>

text \<open>What \<^verbatim>\<open>git\<close> answers to its arguments; \<open>git_failed\<close> is \<^verbatim>\<open>CalledProcessError\<close>.\<close>

type_synonym git = "ustr list \<Rightarrow> ustr result"

definition git_failed :: "exn \<Rightarrow> bool" where
  "git_failed e = (case e of OtherError c _ \<Rightarrow> c = lit ''CalledProcessError'' | _ \<Rightarrow> False)"

definition trailer :: ustr where
  "trailer = lit ''Scenario-Authored-By:''"

definition git_text :: "git \<Rightarrow> ustr list \<Rightarrow> ustr result" where
  "git_text g args = res_bind (g args) (\<lambda>out. Inr (strip out))"

definition unresolved_base :: "ustr \<Rightarrow> ustr list \<Rightarrow> exn" where
  "unresolved_base base_ref candidates = OtherError (lit ''SystemExit'')
     (lit ''scenario-authorship: cannot resolve base ref '' @ repr_str base_ref @ lit '' (tried '' @
      py_repr (JArr (map JStr candidates)) @ lit ''). Ensure the base branch/SHA is fetched '' @ [8212] @
      lit '' the workflow uses actions/checkout with fetch-depth: 0.'')"

fun first_resolved :: "git \<Rightarrow> exn \<Rightarrow> ustr list \<Rightarrow> ustr result" where
  "first_resolved g missing [] = Inl missing"
| "first_resolved g missing (cand # cands) =
     (case g [lit ''rev-parse'', lit ''--verify'', lit ''--quiet'', cand @ lit ''^{commit}''] of
        Inr _ \<Rightarrow> Inr cand
      | Inl e \<Rightarrow> if git_failed e then first_resolved g missing cands else Inl e)"

definition resolve_base :: "git \<Rightarrow> ustr \<Rightarrow> ustr result" where
  "resolve_base g base_ref =
     (let candidates = base_ref # (if slash \<in> set base_ref then [] else [lit ''origin/'' @ base_ref])
      in first_resolved g (unresolved_base base_ref candidates) candidates)"

definition scenarios_prefix :: ustr where
  "scenarios_prefix = lit ''benchmarks/scenarios/''"

definition is_scenario_yaml :: "ustr \<Rightarrow> bool" where
  "is_scenario_yaml line \<longleftrightarrow>
     prefix scenarios_prefix line \<and> suffix (lit ''.yaml'') line \<and>
     slash \<notin> set (drop (length scenarios_prefix) line)"

text \<open>A line is stripped before it is used, so its line break does not matter.\<close>

definition added_scenario_yamls :: "git \<Rightarrow> ustr \<Rightarrow> ustr list result" where
  "added_scenario_yamls g base_ref =
     res_bind (resolve_base g base_ref) (\<lambda>base.
     res_bind (git_text g [lit ''merge-base'', base, lit ''HEAD'']) (\<lambda>merge_base.
     res_bind (git_text g [lit ''diff'', lit ''--name-only'', lit ''--diff-filter=A'', merge_base @ lit ''...HEAD''])
       (\<lambda>out. Inr (filter is_scenario_yaml (map strip (splitlines_keep out))))))"

definition introducing_commit :: "git \<Rightarrow> ustr \<Rightarrow> ustr result" where
  "introducing_commit g path =
     git_text g [lit ''log'', lit ''--diff-filter=A'', lit ''--format=%H'', lit ''-1'', lit ''--'', path]"

definition commit_message :: "git \<Rightarrow> ustr \<Rightarrow> ustr result" where
  "commit_message g commit = git_text g [lit ''log'', lit ''--format=%B'', lit ''-1'', commit]"

text \<open>The entry of an offender, if the path is one.\<close>

definition offence :: "git \<Rightarrow> ustr \<Rightarrow> (ustr \<times> ustr) list result" where
  "offence g path =
     res_bind (introducing_commit g path) (\<lambda>commit.
       if commit = [] then Inr [(path, lit ''<unknown>'')]
       else res_bind (commit_message g commit) (\<lambda>msg.
         Inr (if in_text trailer msg then [] else [(path, commit)])))"

fun offenders :: "git \<Rightarrow> ustr list \<Rightarrow> (ustr \<times> ustr) list result" where
  "offenders g [] = Inr []"
| "offenders g (path # paths) =
     res_bind (offence g path) (\<lambda>xs. res_bind (offenders g paths) (\<lambda>ys. Inr (xs @ ys)))"

definition authorship_base :: "(ustr \<Rightarrow> ustr option) \<Rightarrow> ustr list \<Rightarrow> ustr" where
  "authorship_base env argv =
     (case argv of
        a # _ \<Rightarrow> a
      | [] \<Rightarrow> (case env (lit ''GITHUB_BASE_REF'') of
                None \<Rightarrow> lit ''main''
              | Some b \<Rightarrow> if b = [] then lit ''main'' else b))"

definition authorship_main :: "git \<Rightarrow> (ustr \<Rightarrow> ustr option) \<Rightarrow> ustr list \<Rightarrow> cli_exit result" where
  "authorship_main g env argv =
     res_bind (added_scenario_yamls g (authorship_base env argv)) (\<lambda>added.
       if added = []
       then Inr \<lparr>cli_stdout = [lit ''scenario-authorship: no new benchmarks/scenarios/*.yaml added; nothing to check.''],
                 cli_stderr = [], cli_code = 0\<rparr>
       else res_bind (offenders g added) (\<lambda>bad. Inr
         (if bad \<noteq> []
          then \<lparr>cli_stdout = [],
                cli_stderr =
                  [lit ''scenario-authorship: FAIL '' @ [8212, 32] @ lit ''missing '' @ [39] @ trailer @ [39] @ lit '' trailer''] @
                  map (\<lambda>(path, commit). lit ''  - '' @ path @ lit ''  (introduced by '' @ take 12 commit @ lit '')'') bad @
                  [newline @ lit ''Every commit that adds a benchmarks/scenarios/*.yaml MUST include a'' @ newline @
                   [39] @ trailer @ lit '' <human full name>'' @ [39] @ lit '' trailer (spec FR-517).''],
                cli_code = 1\<rparr>
          else \<lparr>cli_stdout = [lit ''scenario-authorship: OK '' @ [8212, 32] @ show_nat (length added) @
                  lit '' new scenario yaml(s), all human-authored.''],
                cli_stderr = [], cli_code = 0\<rparr>)))"

text \<open>What the gate is for.\<close>

definition human_authored :: "git \<Rightarrow> ustr \<Rightarrow> bool" where
  "human_authored g path \<longleftrightarrow>
     (\<exists>commit msg. introducing_commit g path = Inr commit \<and> commit \<noteq> [] \<and>
        commit_message g commit = Inr msg \<and> in_text trailer msg)"

lemma git_text_Inl: "git_text g args = Inl e \<Longrightarrow> g args = Inl e"
  by (auto simp: git_text_def res_bind_def split: sum.splits)

lemma first_resolved_Inl:
  "first_resolved g missing cands = Inl e \<Longrightarrow> cands \<noteq> [] \<Longrightarrow> \<exists>args e'. g args = Inl e'"
  by (cases cands) (auto split: sum.splits if_splits)

lemma offence_Inr: "offence g path = Inr xs \<Longrightarrow> xs = [] \<longleftrightarrow> human_authored g path"
  by (auto simp: offence_def human_authored_def res_bind_def split: sum.splits if_splits)

lemma offenders_Inr: "offenders g paths = Inr xs \<Longrightarrow> xs = [] \<longleftrightarrow> list_all (human_authored g) paths"
proof (induction paths arbitrary: xs)
  case (Cons p ps)
  then obtain ys zs where "offence g p = Inr ys" "offenders g ps = Inr zs" "xs = ys @ zs"
    by (auto simp: res_bind_def split: sum.splits)
  with Cons.IH offence_Inr show ?case by auto
qed simp

lemma offenders_Inl: "offenders g paths = Inl e \<Longrightarrow> \<exists>args e'. g args = Inl e'"
  by (induction paths)
    (auto simp: offence_def introducing_commit_def commit_message_def res_bind_def
      split: sum.splits if_splits dest: git_text_Inl)

lemma added_Inl: "added_scenario_yamls g base = Inl e \<Longrightarrow> \<exists>args e'. g args = Inl e'"
  by (auto simp: added_scenario_yamls_def resolve_base_def Let_def res_bind_def
      split: sum.splits dest: git_text_Inl first_resolved_Inl)

lemma authorship_cases:
  "case authorship_main g env argv of
     Inl e \<Rightarrow> \<exists>args e'. g args = Inl e'
   | Inr out \<Rightarrow> \<exists>added. added_scenario_yamls g (authorship_base env argv) = Inr added \<and>
       cli_code out = (if list_all (human_authored g) added then 0 else 1)"
  using added_Inl [of g "authorship_base env argv"] offenders_Inl [of g] offenders_Inr [of g]
  by (auto simp: authorship_main_def res_bind_def split: sum.splits if_splits)

subsection \<open>\<^verbatim>\<open>run_holdout_eval.py\<close>\<close>

definition category_to_specialist :: "(ustr \<times> ustr) list" where
  "category_to_specialist =
     [(lit ''CODE'', lit ''code_fixer''), (lit ''SECURITY'', lit ''code_fixer''),
      (lit ''INFRA'', lit ''infra_sre''), (lit ''CONFIG'', lit ''infra_sre'')]"

text \<open>
  What \<^verbatim>\<open>load_dotenv\<close> makes of the environment is the package's: a parameter.
\<close>

type_synonym dotenv = "(ustr \<Rightarrow> ustr option) \<Rightarrow> ustr \<Rightarrow> ustr option"

definition load_dotenv :: "dotenv \<Rightarrow> world \<Rightarrow> world" where
  "load_dotenv dotenv w = w\<lparr>environ := dotenv (environ w)\<rparr>"

text \<open>An incident of the evaluation set, a dictionary that may lack any of its three keys.\<close>

record holdout =
  ho_id :: "ustr option"
  ho_error_log :: "ustr option"
  ho_category :: "ustr option"

definition item :: "string \<Rightarrow> ustr option \<Rightarrow> ('s, ustr) io" where
  "item key v = (case v of None \<Rightarrow> io_raise (KeyError (lit key)) | Some t \<Rightarrow> io_return t)"

definition make_state :: "ustr \<Rightarrow> ustr \<Rightarrow> agent_state" where
  "make_state error_log_text token =
     (initial_state (lit ''holdout_eval'') None)
       \<lparr>st_analysis_result := Some (AnaText error_log_text), st_trace_id := Some token\<rparr>"

text \<open>The endpoint of the supervisor is taken to be Ark's, whatever its alias says.\<close>

definition build_real_supervisor ::
  "(ustr \<Rightarrow> routing_config result) \<Rightarrow> ustr \<Rightarrow> host \<Rightarrow> (world, world agent) io" where
  "build_real_supervisor yaml default_path h =
     io_bind (load_routing_config yaml default_path h) (\<lambda>rc w.
       case map_of (rt_agents rc) (lit ''supervisor'') of
         None \<Rightarrow> (Inl (KeyError (lit ''supervisor'')), w)
       | Some cfg \<Rightarrow>
           (case map_of (rt_endpoints rc) (cf_endpoint_alias cfg) of
              None \<Rightarrow> (Inl (KeyError (cf_endpoint_alias cfg)), w)
            | Some ep \<Rightarrow>
                if nonempty (environ w (ep_api_key_env ep))
                then (Inr (supervisor_run (ark_complete h) cfg), w)
                else (Inl (RuntimeError (ep_api_key_env ep @
                        lit '' not set in environment. Fill it in .env before running.'')), w)))"

record holdout_score =
  hs_id :: ustr
  hs_expected :: ustr
  hs_actual :: ustr
  hs_ok :: bool
  hs_rationale :: ustr

text \<open>\<^verbatim>\<open>result.get(key) or ""\<close> on a partial answer.\<close>

fun answered_specialist :: "upd list \<Rightarrow> ustr" where
  "answered_specialist [] = []"
| "answered_specialist (USpecialist sp # us) = sp"
| "answered_specialist (_ # us) = answered_specialist us"

fun answered_routing :: "upd list \<Rightarrow> ustr" where
  "answered_routing [] = []"
| "answered_routing (URouting ra # us) = ra"
| "answered_routing (_ # us) = answered_routing us"

definition or_none :: "ustr \<Rightarrow> ustr" where
  "or_none t = (if t = [] then lit ''(none)'' else t)"

definition score_answer :: "holdout \<Rightarrow> upd list \<Rightarrow> (world, holdout_score) io" where
  "score_answer inc us =
     io_bind (item ''expected_category'' (ho_category inc)) (\<lambda>category.
       case map_of category_to_specialist category of
         None \<Rightarrow> io_raise (KeyError category)
       | Some expected \<Rightarrow>
           (let actual = or_none (answered_specialist us) in
            io_bind (item ''id'' (ho_id inc)) (\<lambda>rid.
              io_return \<lparr>hs_id = rid, hs_expected = expected, hs_actual = actual,
                         hs_ok = (actual = expected), hs_rationale = take 120 (answered_routing us)\<rparr>)))"

definition score_incident :: "host \<Rightarrow> world agent \<Rightarrow> holdout \<Rightarrow> (world, holdout_score) io" where
  "score_incident h agent inc =
     io_bind (item ''error_log'' (ho_error_log inc)) (\<lambda>error_log w.
       io_bind (agent (make_state error_log (h_token h w))) (score_answer inc) w)"

fun score_incidents :: "host \<Rightarrow> world agent \<Rightarrow> holdout list \<Rightarrow> (world, holdout_score list) io" where
  "score_incidents h agent [] = io_return []"
| "score_incidents h agent (inc # incs) =
     io_bind (score_incident h agent inc) (\<lambda>x.
     io_bind (score_incidents h agent incs) (\<lambda>xs. io_return (x # xs)))"

record holdout_report =
  hr_scores :: "holdout_score list"
  hr_hits :: nat
  hr_accuracy :: pyfloat
  hr_pass :: bool

text \<open>\<open>read\<close> is \<^verbatim>\<open>yaml.safe_load\<close> with the access to the list of incidents of the document.\<close>

definition holdout_main ::
  "dotenv \<Rightarrow> (ustr \<Rightarrow> routing_config result) \<Rightarrow> ustr \<Rightarrow> (ustr \<Rightarrow> holdout list result) \<Rightarrow> ustr \<Rightarrow> host \<Rightarrow>
   (world, holdout_report) io" where
  "holdout_main dotenv yaml default_path read yaml_path h = (\<lambda>w.
     io_bind (build_real_supervisor yaml default_path h) (\<lambda>agent.
     io_bind (read_text h yaml_path) (\<lambda>raw.
     io_bind (io_lift (read raw)) (\<lambda>incidents.
     io_bind (score_incidents h agent incidents) (\<lambda>scores.
       let hits = length (filter hs_ok scores) in
       if incidents = [] then io_raise (ZeroDivisionError (lit ''division by zero''))
       else let accuracy = fl_div_int (int hits) (length incidents) in
            io_return \<lparr>hr_scores = scores, hr_hits = hits, hr_accuracy = accuracy,
                       hr_pass = fl_le (fl_of_dec False 70 (-2)) accuracy\<rparr>)))) (load_dotenv dotenv w))"

lemma item_Inr: "item key v w = (Inr t, w') \<longleftrightarrow> v = Some t \<and> w' = w"
  by (auto simp: item_def io_raise_def io_return_def split: option.split)

lemma score_answer_Inr:
  assumes "score_answer inc us w = (Inr x, w')"
  shows "ho_id inc = Some (hs_id x) \<and> Option.bind (ho_category inc) (map_of category_to_specialist) = Some (hs_expected x) \<and>
    hs_ok x = (hs_actual x = hs_expected x) \<and> hs_actual x = or_none (answered_specialist us) \<and> w' = w"
  using assms
  by (auto simp: score_answer_def Let_def io_raise_def io_return_def item_Inr elim!: io_bind_cases split: option.splits)

lemma score_incident_Inr:
  assumes "score_incident h agent inc w = (Inr x, w')"
  shows "ho_id inc = Some (hs_id x) \<and> Option.bind (ho_category inc) (map_of category_to_specialist) = Some (hs_expected x) \<and>
    hs_ok x = (hs_actual x = hs_expected x) \<and>
    (\<exists>elog us. ho_error_log inc = Some elog \<and> agent (make_state elog (h_token h w)) w = (Inr us, w') \<and>
       hs_actual x = or_none (answered_specialist us))"
  using assms
  by (auto simp: score_incident_def item_Inr elim!: io_bind_cases dest: score_answer_Inr)

lemma score_incidents_Inr:
  assumes "score_incidents h agent incs w = (Inr xs, w')"
  shows "map (Some \<circ> hs_id) xs = map ho_id incs \<and> length xs = length incs \<and>
    list_all2 (\<lambda>inc x. Option.bind (ho_category inc) (map_of category_to_specialist) = Some (hs_expected x)) incs xs \<and>
    list_all (\<lambda>x. hs_ok x = (hs_actual x = hs_expected x)) xs"
  using assms
proof (induction incs arbitrary: w xs)
  case (Cons inc incs)
  then obtain x w1 xs' where x: "score_incident h agent inc w = (Inr x, w1)"
    and xs': "score_incidents h agent incs w1 = (Inr xs', w')" "xs = x # xs'"
    by (auto elim!: io_bind_cases simp: io_return_def)
  from score_incident_Inr [OF x] Cons.IH [OF xs'(1)] xs'(2) show ?case by simp
qed (simp add: io_return_def)

lemma load_routing_reads: "snd (load_routing_config yaml dp h w) = w"
proof -
  have "snd (io_bind (io_lift x) (\<lambda>raw. case f raw of Inr rc \<Rightarrow> io_return rc | Inl e \<Rightarrow> io_raise (g e)) w) = w" for x f g
    by (auto simp: io_bind_def io_lift_def io_return_def io_raise_def split: sum.splits)
  then show ?thesis
    using read_text_frame [of h "path_str (or_else (environ w routing_path_env) dp)" w]
    by (auto simp: load_routing_config_def Let_def io_bind_def split: option.splits sum.splits prod.splits)
qed

text \<open>The evaluation talks to the provider only.\<close>

definition talks_only :: "world \<Rightarrow> world \<Rightarrow> bool" where
  "talks_only u v \<longleftrightarrow> files v = files u \<and> docker_log v = docker_log u \<and> environ v = environ u"

lemma preorder_talks: "preorder talks_only"
  by (simp add: preorder_def talks_only_def)

lemma supervisor_talks: "io_steps (\<lambda>_. True) talks_only (supervisor_run (ark_complete h) cfg s)"
proof (rule agent_steps(2) [OF preorder_talks], intro allI)
  fix ms model name k temp
  show "io_steps (\<lambda>_. True) talks_only (ark_complete h ms model (state_trace_id s) name k temp)"
    unfolding io_steps_def talks_only_def ark_complete_def
    using provider_complete_traffic unfolding llm_only_def by (metis prod.collapse)
qed

lemma real_supervisor_cases:
  assumes "build_real_supervisor yaml dp h w = (r, w')"
  shows "w' = w \<and> (\<forall>agent. r = Inr agent \<longrightarrow> (\<exists>cfg. agent = supervisor_run (ark_complete h) cfg))"
  using assms load_routing_reads [of yaml dp h w]
  by (auto simp: build_real_supervisor_def io_bind_def split: sum.splits prod.splits option.splits if_splits)

lemma score_incidents_talks:
  assumes "\<And>s. io_steps (\<lambda>_. True) talks_only (agent s)"
  shows "io_steps (\<lambda>_. True) talks_only (score_incidents h agent incs)"
proof -
  have item: "io_steps (\<lambda>_. True) talks_only (item k v)" for k v
    unfolding item_def by (cases v) (simp_all add: io_steps_raise io_steps_return preorder_talks)
  have answer: "io_steps (\<lambda>_. True) talks_only (score_answer inc us)" for inc us
    unfolding score_answer_def Let_def
    by (intro io_steps_bind [OF preorder_talks item])
      (auto intro!: io_steps_bind [OF preorder_talks item] io_steps_raise io_steps_return preorder_talks split: option.split)
  have "io_steps (\<lambda>_. True) talks_only (\<lambda>w. io_bind (agent (make_state e (h_token h w))) (score_answer inc) w)" for e inc
    using io_steps_bind [OF preorder_talks assms answer, of _ "\<lambda>_. inc" "\<lambda>us. us"] unfolding io_steps_def by blast
  then have one: "io_steps (\<lambda>_. True) talks_only (score_incident h agent inc)" for inc
    unfolding score_incident_def by (intro io_steps_bind [OF preorder_talks item])
  show ?thesis
  proof (induction incs)
    case Nil
    show ?case unfolding score_incidents.simps by (intro io_steps_intros preorder_talks)
  next
    case (Cons inc incs)
    then show ?case unfolding score_incidents.simps by (intro io_steps_intros preorder_talks one)
  qed
qed

lemma holdout_cases:
  fixes dotenv w0 defines "w \<equiv> load_dotenv dotenv w0"
  shows "case holdout_main dotenv yaml dp read path h w0 of
     (Inl e, w') \<Rightarrow> talks_only w w'
   | (Inr rep, w') \<Rightarrow> talks_only w w' \<and>
       (\<exists>raw incs. fst (read_text h path w) = Inr raw \<and> read raw = Inr incs \<and> incs \<noteq> [] \<and>
          map (Some \<circ> hs_id) (hr_scores rep) = map ho_id incs \<and>
          list_all2 (\<lambda>inc x. Option.bind (ho_category inc) (map_of category_to_specialist) = Some (hs_expected x))
            incs (hr_scores rep) \<and>
          hr_hits rep = length (filter (\<lambda>x. hs_actual x = hs_expected x) (hr_scores rep)) \<and>
          (hr_pass rep = (7 * length incs \<le> 10 * hr_hits rep) \<or> 2 ^ 48 < length incs))"
proof (cases "build_real_supervisor yaml dp h w")
  case (Pair r0 w1)
  note sup = real_supervisor_cases [OF Pair]
  show ?thesis
  proof (cases r0)
    case (Inl e)
    with Pair sup show ?thesis by (simp add: holdout_main_def w_def [symmetric] io_bind_def talks_only_def)
  next
    case (Inr agent)
    then have talks: "io_steps (\<lambda>_. True) talks_only (agent s)" for s
      using sup supervisor_talks by auto
    obtain raw0 where rd: "read_text h path w = (raw0, w)" using read_text_frame [of h path w] by (metis prod.collapse)
    show ?thesis
    proof (cases "\<exists>raw incs. raw0 = Inr raw \<and> read raw = Inr incs")
      case False
      with Pair sup Inr rd show ?thesis
        by (cases raw0) (auto simp: holdout_main_def w_def [symmetric] io_bind_def io_lift_def talks_only_def split: sum.splits)
    next
      case True
      then obtain raw incs where raw: "raw0 = Inr raw" "read raw = Inr incs" by blast
      obtain r w' where sc: "score_incidents h agent incs w = (r, w')" by (cases "score_incidents h agent incs w")
      have t: "talks_only w w'" using io_stepsD(2) [OF score_incidents_talks [OF talks] TrueI sc] .
      show ?thesis
      proof (cases r)
        case (Inl e)
        with Pair sup \<open>r0 = Inr agent\<close> rd raw sc t show ?thesis by (simp add: holdout_main_def w_def [symmetric] io_bind_def)
      next
        case (Inr xs)
        note xs = score_incidents_Inr [OF sc [unfolded Inr]]
        have ok: "filter hs_ok xs = filter (\<lambda>x. hs_actual x = hs_expected x) xs"
          using xs by (intro filter_cong) (auto simp: list_all_iff)
        show ?thesis
        proof (cases "incs = []")
          case True
          with Pair sup \<open>r0 = Inr agent\<close> rd raw sc Inr t show ?thesis
            by (simp add: holdout_main_def w_def [symmetric] io_bind_def io_raise_def Let_def)
        next
          case False
          have "length (filter hs_ok xs) \<le> length incs" using xs by (metis length_filter_le)
          then have "fl_le (fl_of_dec False 70 (-2)) (fl_div_int (int (length (filter hs_ok xs))) (length incs)) =
              (7 * length incs \<le> 10 * length (filter hs_ok xs)) \<or> 2 ^ 48 < length incs"
            using share_reaches_threshold [of "length (filter hs_ok xs)" "length incs"] False by fastforce
          with Pair sup \<open>r0 = Inr agent\<close> rd raw sc Inr t False xs ok show ?thesis
            by (simp add: holdout_main_def w_def [symmetric] io_bind_def io_return_def Let_def)
        qed
      qed
    qed
  qed
qed

subsection \<open>\<^verbatim>\<open>check_endpoints.py\<close> and \<^verbatim>\<open>send_real_trace.py\<close>\<close>

definition probed_agents :: "ustr list" where
  "probed_agents = [lit ''supervisor'', lit ''diagnosis'', lit ''security_reviewer'']"

definition ping_max_tokens :: int where "ping_max_tokens = 16"

definition priced :: "llm_response \<Rightarrow> bool" where
  "priced r \<longleftrightarrow> dec_less dec_zero (rs_cost r)"

definition ping ::
  "(ustr \<Rightarrow> routing_config result) \<Rightarrow> ustr \<Rightarrow> host \<Rightarrow> ustr \<Rightarrow> ustr \<Rightarrow> (world, llm_response) io" where
  "ping yaml default_path h name trace =
     io_bind (build_client_for_agent yaml default_path h name) (\<lambda>(p, cfg).
       provider_client h p [\<lparr>msg_role = User, msg_content = lit ''ping''\<rparr>] (cf_model cfg) trace name
         ping_max_tokens (cf_temperature cfg))"

text \<open>Each agent is tried, whatever happened to the ones before.\<close>

fun probe_all ::
  "(ustr \<Rightarrow> routing_config result) \<Rightarrow> ustr \<Rightarrow> host \<Rightarrow> ustr \<Rightarrow> ustr list \<Rightarrow> world \<Rightarrow>
   llm_response result list \<times> world" where
  "probe_all yaml default_path h trace [] w = ([], w)"
| "probe_all yaml default_path h trace (name # names) w =
     (let (r, w1) = ping yaml default_path h name trace w;
          (rs, w2) = probe_all yaml default_path h trace names w1
      in (r # rs, w2))"

definition probe_ok :: "llm_response result \<Rightarrow> bool" where
  "probe_ok r = (case r of Inl e \<Rightarrow> False | Inr resp \<Rightarrow> priced resp)"

definition endpoints_main ::
  "dotenv \<Rightarrow> (ustr \<Rightarrow> routing_config result) \<Rightarrow> ustr \<Rightarrow> host \<Rightarrow> world \<Rightarrow> nat \<times> world" where
  "endpoints_main dotenv yaml default_path h w0 =
     (let w = load_dotenv dotenv w0;
          (rs, w') = probe_all yaml default_path h (h_token h w) probed_agents w
      in (if list_all probe_ok rs then 0 else 1, w'))"

text \<open>
  \<^verbatim>\<open>_NoOpTracer\<close>, which the probe installs in both client modules: a tracer that has every method,
  raises nothing and swallows nothing, so the probe's clients behave as without one.
\<close>

definition noop_tracer :: span_host where
  "noop_tracer = \<lparr>sp_installed = True, sp_has_tokens = True, sp_has_costs = True,
                  sp_call = \<lambda>_ _. None, sp_swallows = \<lambda>_ _. False\<rparr>"

lemma noop_transparent:
  "\<exists>cs'. complete_spanned noop_tracer name table h ms model trace agent k temp (w, cs) =
    (fst (provider_complete name table h ms model trace agent k temp w),
     snd (provider_complete name table h ms model trace agent k temp w), cs')"
  by (rule quiet_spans_transparent) (simp add: quiet_spans_def noop_tracer_def)

text \<open>
  \<open>installed\<close>: whether the optional tracing extra is there.  The parent trace is opened first; the
  span of the one call is left to a tracer that raises nothing.
\<close>

definition real_trace_main ::
  "dotenv \<Rightarrow> bool \<Rightarrow> tracing_host \<Rightarrow> (ustr \<Rightarrow> routing_config result) \<Rightarrow> ustr \<Rightarrow> host \<Rightarrow> (world \<times> tracer, nat) io" where
  "real_trace_main dotenv installed tg yaml default_path h = (\<lambda>(w0, tr).
     let w = load_dotenv dotenv w0 in
     if \<not> installed then (Inr 1, w, tr)
     else (case open_incident_trace tg (h_token h w) tr of
             (Inl e, tr') \<Rightarrow> (Inl e, w, tr')
           | (Inr _, tr') \<Rightarrow>
               (case ping yaml default_path h (lit ''supervisor'') (h_token h w) w of
                  (Inl e, w') \<Rightarrow> (Inl e, w', tr')
                | (Inr resp, w') \<Rightarrow> (Inr (if priced resp then 0 else 1), w', tr'))))"

lemma priced_val: "priced r \<longleftrightarrow> 0 < dec_val (rs_cost r)"
  by (simp add: priced_def dec_less_val dec_zero_def dec_val_def)

text \<open>A ping sends nothing or at most two requests of its agent.\<close>

lemma ping_requests:
  "\<exists>n \<le> 2. \<exists>req. sdk_log (snd (ping yaml dp h name trace w)) = sdk_log w @ replicate n req \<and>
     rq_agent_name req = name \<and> rq_trace_id req = trace"
proof (cases "build_client_for_agent yaml dp h name w")
  case (Pair r w1)
  have w1: "w1 = w"
    using Pair load_routing_reads [of yaml dp h w]
    by (auto simp: build_client_for_agent_def io_bind_def split: sum.splits prod.splits)
  show ?thesis
  proof (cases r)
    case (Inl e)
    have "rq_agent_name (request_of [] [] trace name 0 fl_zero) = name \<and>
      rq_trace_id (request_of [] [] trace name 0 fl_zero) = trace" by (simp add: request_of_def)
    moreover have "sdk_log (snd (ping yaml dp h name trace w)) = sdk_log w @ replicate 0 (request_of [] [] trace name 0 fl_zero)"
      using Pair w1 Inl by (simp add: ping_def io_bind_def)
    ultimately show ?thesis by blast
  next
    case (Inr x)
    obtain p cfg where x: "x = (p, cfg)" by (cases x)
    let ?ms = "[\<lparr>msg_role = User, msg_content = lit ''ping''\<rparr>]"
    obtain r' w' where c: "provider_client h p ?ms (cf_model cfg) trace name ping_max_tokens (cf_temperature cfg) w = (r', w')"
      by (cases "provider_client h p ?ms (cf_model cfg) trace name ping_max_tokens (cf_temperature cfg) w")
    then have "\<exists>n \<le> 2. sdk_log w' = sdk_log w @ replicate n
        (request_of ?ms (cf_model cfg) trace name ping_max_tokens (cf_temperature cfg))"
      by (cases p) (auto simp: provider_client_def ark_complete_def glm_complete_def
          dest: provider_complete_traffic)
    moreover have "snd (ping yaml dp h name trace w) = w'"
      using Pair Inr x w1 c by (simp add: ping_def io_bind_def)
    moreover have "rq_agent_name (request_of ?ms (cf_model cfg) trace name ping_max_tokens (cf_temperature cfg)) = name"
      "rq_trace_id (request_of ?ms (cf_model cfg) trace name ping_max_tokens (cf_temperature cfg)) = trace"
      by (simp_all add: request_of_def)
    ultimately show ?thesis by blast
  qed
qed

lemma probe_all_results:
  "length (fst (probe_all yaml dp h trace names w)) = length names"
  by (induction names arbitrary: w) (auto simp: split_beta)

lemma probe_all_requests:
  "\<exists>reqs. sdk_log (snd (probe_all yaml dp h trace names w)) = sdk_log w @ reqs \<and>
     length reqs \<le> 2 * length names \<and> list_all (\<lambda>r. rq_trace_id r = trace \<and> rq_agent_name r \<in> set names) reqs"
proof (induction names arbitrary: w)
  case (Cons name names)
  obtain n req where n: "n \<le> 2" "rq_agent_name req = name" "rq_trace_id req = trace"
    "sdk_log (snd (ping yaml dp h name trace w)) = sdk_log w @ replicate n req"
    using ping_requests by blast
  obtain reqs where reqs: "sdk_log (snd (probe_all yaml dp h trace names (snd (ping yaml dp h name trace w)))) =
      sdk_log (snd (ping yaml dp h name trace w)) @ reqs" "length reqs \<le> 2 * length names"
      "list_all (\<lambda>r. rq_trace_id r = trace \<and> rq_agent_name r \<in> set names) reqs"
    using Cons.IH by blast
  have "list_all (\<lambda>r. rq_trace_id r = trace \<and> rq_agent_name r \<in> set (name # names)) (replicate n req @ reqs)"
    using n(2,3) reqs(3) by (auto simp: list_all_iff)
  with n(1,4) reqs(1,2) show ?case
    by (intro exI [of _ "replicate n req @ reqs"]) (simp add: split_beta)
qed simp

lemma endpoints_cases:
  fixes dotenv w0 defines "w \<equiv> load_dotenv dotenv w0"
  shows "let (code, w') = endpoints_main dotenv yaml dp h w0;
       rs = fst (probe_all yaml dp h (h_token h w) probed_agents w)
   in length rs = 3 \<and> code = (if list_all (\<lambda>r. \<exists>resp. r = Inr resp \<and> 0 < dec_val (rs_cost resp)) rs then 0 else 1) \<and>
      (\<exists>reqs. sdk_log w' = sdk_log w0 @ reqs \<and> length reqs \<le> 6 \<and>
         list_all (\<lambda>r. rq_trace_id r = h_token h w \<and> rq_agent_name r \<in> set probed_agents) reqs)"
proof -
  have "probe_ok = (\<lambda>r. \<exists>resp. r = Inr resp \<and> 0 < dec_val (rs_cost resp))"
    by (auto simp: fun_eq_iff probe_ok_def priced_val split: sum.splits)
  moreover have "length probed_agents = 3" by (simp add: probed_agents_def)
  ultimately show ?thesis
    using probe_all_requests [of yaml dp h "h_token h w" probed_agents w]
      probe_all_results [of yaml dp h "h_token h w" probed_agents w]
    by (simp add: endpoints_main_def Let_def split_beta w_def load_dotenv_def)
qed

end
