(* ===== verification/GuardThreads.thy ===== *)
theory GuardThreads
  imports CostGuard
begin

text \<open>
  \<^verbatim>\<open>autosentinel/llm/cost_guard.py\<close> under threads.  \<open>CostGuard\<close> gives every operation of the
  guard as one atomic function; here the same code runs in steps of one attribute access each,
  any number of calls interleave in any order, and the two \<^verbatim>\<open>threading.Lock\<close>s are what keeps
  them apart.  A call is \<^verbatim>\<open>get_cost_guard().<operation>\<close>; a thread that makes several calls is a
  schedule in which the next one enters when the previous one is done.

  The lemmas show that the lazy creation under the double-checked lock builds at most one guard,
  that each operation takes effect as if it ran alone at the moment it acquired the lock, that
  no update is lost, and that no set of calls can deadlock.
\<close>

subsection \<open>Operations\<close>

text \<open>The operations of the class with their arguments; \<open>Snapshot\<close> is the property \<^verbatim>\<open>state\<close>.\<close>

datatype guard_op =
    Accumulate ustr decimal ustr  \<comment> \<open>clock reading, cost, currency\<close>
  | Snapshot
  | Reset bool  \<comment> \<open>whether \<^verbatim>\<open>PYTEST_CURRENT_TEST\<close> is set\<close>

text \<open>\<^verbatim>\<open>CostGuard.state\<close>, a copy of the guard's state.\<close>

definition snapshot :: "(cost_guard, cost_guard) io" where
  "snapshot = (\<lambda>g. (Inr g, g))"

text \<open>An operation run alone; only the snapshot returns a value.\<close>

fun guard_call :: "guard_op \<Rightarrow> (cost_guard, cost_guard option) io" where
  "guard_call (Accumulate now cost cur) = io_bind (accumulate now cost cur) (\<lambda>_. io_return None)"
| "guard_call Snapshot = io_bind snapshot (\<lambda>g. io_return (Some g))"
| "guard_call (Reset in_pytest) = io_bind (reset_for_test in_pytest) (\<lambda>_. io_return None)"

type_synonym answer = "cost_guard option result"

subsection \<open>Threads\<close>

text \<open>
  Where a call stands in the code.  Numbers are references to guard objects; \<open>Copy\<close> holds
  \<^verbatim>\<open>new_total\<close>, \<open>Store\<close> the copied state about to be assigned, with the total still to be
  compared.
\<close>

datatype guard_pc =
    Enter
  | AwaitSingleton
  | Recheck
  | Build
  | Assign nat
  | LeaveSingleton "exn option"
  | Return
  | Begin nat
  | Await nat
  | Inside nat
  | Copy nat decimal
  | Store nat cost_guard "decimal option"
  | Compare nat decimal
  | Release nat answer
  | Done answer

text \<open>
  What the threads share: the guard objects that exist, \<^verbatim>\<open>_singleton\<close>, the holder of
  \<^verbatim>\<open>_singleton_lock\<close> and of each guard's \<^verbatim>\<open>_lock\<close>, and where each call stands.
\<close>

record guards =
  gs_heap :: "cost_guard list"
  gs_single :: "nat option"
  gs_single_lock :: "nat option"
  gs_locks :: "nat \<Rightarrow> nat option"
  gs_pc :: "nat \<Rightarrow> guard_pc"

definition guards_start :: guards where
  "guards_start = \<lparr>gs_heap = [], gs_single = None, gs_single_lock = None, gs_locks = \<lambda>_. None,
                   gs_pc = \<lambda>_. Enter\<rparr>"

definition goto :: "nat \<Rightarrow> guard_pc \<Rightarrow> guards \<Rightarrow> guards" where
  "goto i p c = c\<lparr>gs_pc := (gs_pc c)(i := p)\<rparr>"

definition over_limit :: "cost_guard \<Rightarrow> decimal \<Rightarrow> decimal \<Rightarrow> answer" where
  "over_limit g cost new_total =
     (if dec_less (budget_limit g) new_total
      then Inl (CostGuardError new_total cost (budget_limit g) (guard_currency g)) else Inr None)"

fun op_cost :: "guard_op \<Rightarrow> decimal" where
  "op_cost (Accumulate now cost cur) = cost"
| "op_cost _ = dec_zero"

fun op_now :: "guard_op \<Rightarrow> ustr" where
  "op_now (Accumulate now cost cur) = now"
| "op_now _ = []"

text \<open>The first step inside \<^verbatim>\<open>with self._lock\<close>, on the guard's state.\<close>

fun locked_step :: "guard_op \<Rightarrow> nat \<Rightarrow> cost_guard \<Rightarrow> guard_pc" where
  "locked_step (Accumulate now cost cur) r g =
     (if cur \<noteq> guard_currency g then Release r (Inl (currency_mismatch (guard_currency g) cur))
      else Copy r (dec_add (total_spent g) cost))"
| "locked_step Snapshot r g = Release r (Inr (Some g))"
| "locked_step (Reset in_pytest) r g =
     Store r (g\<lparr>total_spent := dec_zero, call_count := 0, last_updated := None\<rparr>) None"

text \<open>\<^verbatim>\<open>get_cost_guard\<close> returned \<^verbatim>\<open>None\<close>: never reached, as the lemmas show.\<close>

definition no_guard :: answer where
  "no_guard = Inl (AttributeError (lit ''NoneType''))"

text \<open>One step of call \<open>i\<close>; \<open>None\<close> when it waits for a lock or has ended.\<close>

definition advance :: "ustr option \<Rightarrow> (nat \<Rightarrow> guard_op) \<Rightarrow> nat \<Rightarrow> guards \<Rightarrow> guards option" where
  "advance env ops i c =
     (case gs_pc c i of
        Enter \<Rightarrow> Some (goto i (if gs_single c = None then AwaitSingleton else Return) c)
      | AwaitSingleton \<Rightarrow>
          (if gs_single_lock c = None then Some (goto i Recheck (c\<lparr>gs_single_lock := Some i\<rparr>)) else None)
      | Recheck \<Rightarrow> Some (goto i (if gs_single c = None then Build else LeaveSingleton None) c)
      | Build \<Rightarrow>
          (case get_cost_guard env None of
             Inl e \<Rightarrow> Some (goto i (LeaveSingleton (Some e)) c)
           | Inr g \<Rightarrow> Some (goto i (Assign (length (gs_heap c))) (c\<lparr>gs_heap := gs_heap c @ [g]\<rparr>)))
      | Assign r \<Rightarrow> Some (goto i (LeaveSingleton None) (c\<lparr>gs_single := Some r\<rparr>))
      | LeaveSingleton x \<Rightarrow>
          Some (goto i (case x of None \<Rightarrow> Return | Some e \<Rightarrow> Done (Inl e)) (c\<lparr>gs_single_lock := None\<rparr>))
      | Return \<Rightarrow> Some (goto i (case gs_single c of None \<Rightarrow> Done no_guard | Some r \<Rightarrow> Begin r) c)
      | Begin r \<Rightarrow>
          Some (goto i (if ops i = Reset False then Done (fst (guard_call (ops i) (gs_heap c ! r)))
                        else Await r) c)
      | Await r \<Rightarrow>
          (if gs_locks c r = None
           then Some (goto i (Inside r) (c\<lparr>gs_locks := (gs_locks c)(r := Some i)\<rparr>)) else None)
      | Inside r \<Rightarrow> Some (goto i (locked_step (ops i) r (gs_heap c ! r)) c)
      | Copy r new_total \<Rightarrow>
          Some (goto i (Store r ((gs_heap c ! r)\<lparr>total_spent := new_total,
                  call_count := call_count (gs_heap c ! r) + 1, last_updated := Some (op_now (ops i))\<rparr>)
                (Some new_total)) c)
      | Store r g x \<Rightarrow>
          Some (goto i (case x of None \<Rightarrow> Release r (Inr None) | Some new_total \<Rightarrow> Compare r new_total)
                 (c\<lparr>gs_heap := (gs_heap c)[r := g]\<rparr>))
      | Compare r new_total \<Rightarrow>
          Some (goto i (Release r (over_limit (gs_heap c ! r) (op_cost (ops i)) new_total)) c)
      | Release r res \<Rightarrow> Some (goto i (Done res) (c\<lparr>gs_locks := (gs_locks c)(r := None)\<rparr>))
      | Done res \<Rightarrow> None)"

text \<open>Any of the first \<open>n\<close> calls may move.\<close>

inductive guards_step :: "ustr option \<Rightarrow> (nat \<Rightarrow> guard_op) \<Rightarrow> nat \<Rightarrow> guards \<Rightarrow> guards \<Rightarrow> bool"
  for env :: "ustr option" and ops :: "nat \<Rightarrow> guard_op" and n :: nat where
  moves: "i < n \<Longrightarrow> advance env ops i c = Some c' \<Longrightarrow> guards_step env ops n c c'"

inductive_simps guards_step_iff: "guards_step env ops n c c'"

definition guards_reach :: "ustr option \<Rightarrow> (nat \<Rightarrow> guard_op) \<Rightarrow> nat \<Rightarrow> guards \<Rightarrow> bool" where
  "guards_reach env ops n c \<longleftrightarrow> (guards_step env ops n)\<^sup>*\<^sup>* guards_start c"

text \<open>A schedule names the call that moves next; a call that cannot move is passed over.\<close>

fun run_schedule :: "ustr option \<Rightarrow> (nat \<Rightarrow> guard_op) \<Rightarrow> nat list \<Rightarrow> guards \<Rightarrow> guards" where
  "run_schedule env ops [] c = c"
| "run_schedule env ops (i # sched) c =
     run_schedule env ops sched (case advance env ops i c of None \<Rightarrow> c | Some c' \<Rightarrow> c')"

lemma schedule_steps:
  "\<forall>i \<in> set sched. i < n \<Longrightarrow> (guards_step env ops n)\<^sup>*\<^sup>* c (run_schedule env ops sched c)"
proof (induction sched arbitrary: c)
  case (Cons i sched)
  show ?case
  proof (cases "advance env ops i c")
    case (Some c')
    then have "guards_step env ops n c c'" using Cons.prems by (auto intro: moves)
    with Some Cons show ?thesis by (simp add: converse_rtranclp_into_rtranclp)
  qed (use Cons in simp)
qed simp

lemma schedule_reaches: "\<forall>i \<in> set sched. i < n \<Longrightarrow> guards_reach env ops n (run_schedule env ops sched guards_start)"
  unfolding guards_reach_def by (rule schedule_steps)


subsection \<open>Who holds what\<close>

lemma goto_simps [simp]:
  "gs_heap (goto i p c) = gs_heap c" "gs_single (goto i p c) = gs_single c"
  "gs_single_lock (goto i p c) = gs_single_lock c" "gs_locks (goto i p c) = gs_locks c"
  "gs_pc (goto i p c) = (gs_pc c)(i := p)"
  by (simp_all add: goto_def)

fun in_singleton :: "guard_pc \<Rightarrow> bool" where
  "in_singleton Recheck = True"
| "in_singleton Build = True"
| "in_singleton (Assign r) = True"
| "in_singleton (LeaveSingleton x) = True"
| "in_singleton _ = False"

fun in_guard :: "guard_pc \<Rightarrow> bool" where
  "in_guard (Inside r) = True"
| "in_guard (Copy r t) = True"
| "in_guard (Store r g x) = True"
| "in_guard (Compare r t) = True"
| "in_guard (Release r res) = True"
| "in_guard _ = False"

text \<open>What is known where a call stands.\<close>

fun pc_ok :: "ustr option \<Rightarrow> guard_op \<Rightarrow> guards \<Rightarrow> guard_pc \<Rightarrow> bool" where
  "pc_ok env op c Build = (gs_single c = None \<and> gs_heap c = [])"
| "pc_ok env op c (Assign r) = (r = 0 \<and> gs_heap c \<noteq> [] \<and> gs_single c = None)"
| "pc_ok env op c (LeaveSingleton None) = (gs_single c = Some 0)"
| "pc_ok env op c (LeaveSingleton (Some e)) = (get_cost_guard env None = Inl e)"
| "pc_ok env op c Return = (gs_single c = Some 0)"
| "pc_ok env op c (Begin r) = (r = 0 \<and> gs_single c = Some 0)"
| "pc_ok env op c (Await r) = (r = 0 \<and> gs_single c = Some 0 \<and> op \<noteq> Reset False)"
| "pc_ok env op c (Inside r) = (r = 0 \<and> gs_single c = Some 0 \<and> op \<noteq> Reset False)"
| "pc_ok env op c (Copy r t) = (r = 0 \<and> gs_single c = Some 0 \<and> op \<noteq> Reset False)"
| "pc_ok env op c (Store r g x) = (r = 0 \<and> gs_single c = Some 0 \<and> op \<noteq> Reset False)"
| "pc_ok env op c (Compare r t) = (r = 0 \<and> gs_single c = Some 0 \<and> op \<noteq> Reset False)"
| "pc_ok env op c (Release r res) = (r = 0 \<and> gs_single c = Some 0 \<and> op \<noteq> Reset False)"
| "pc_ok env op c (Done res) = (\<forall>e. get_cost_guard env None = Inl e \<longrightarrow> res = Inl e)"
| "pc_ok env op c _ = True"

definition assigning :: "(nat \<Rightarrow> guard_pc) \<Rightarrow> bool" where
  "assigning pcs \<longleftrightarrow> (\<exists>i. pcs i = Assign 0)"

lemma assigning_now: "assigning (pcs(i := Assign 0))"
  by (auto simp: assigning_def)

lemma assigning_still: "assigning pcs \<Longrightarrow> pcs i \<noteq> Assign 0 \<Longrightarrow> assigning (pcs(i := p))"
  by (auto simp: assigning_def)

definition built_once :: "ustr option \<Rightarrow> guards \<Rightarrow> bool" where
  "built_once env c \<longleftrightarrow>
     length (gs_heap c) \<le> 1 \<and> (gs_heap c \<noteq> [] \<longrightarrow> (\<exists>g. get_cost_guard env None = Inr g)) \<and>
     (case gs_single c of
        None \<Rightarrow> gs_heap c = [] \<or> assigning (gs_pc c)
      | Some r \<Rightarrow> r = 0 \<and> gs_heap c \<noteq> [])"

text \<open>A lock and the calls inside it: the holder is the one call inside.\<close>

definition held_by :: "(guard_pc \<Rightarrow> bool) \<Rightarrow> (nat \<Rightarrow> guard_pc) \<Rightarrow> nat option \<Rightarrow> bool" where
  "held_by inside pcs holder \<longleftrightarrow> (\<forall>i. inside (pcs i) \<longleftrightarrow> holder = Some i)"

text \<open>A step stays inside or outside, takes a free lock, or leaves it.\<close>

lemma held_by_update:
  assumes "held_by P pcs x"
    and "P p = P (pcs i) \<and> y = x \<or> P p \<and> x = None \<and> y = Some i \<or> P (pcs i) \<and> \<not> P p \<and> y = None"
  shows "held_by P (pcs(i := p)) y"
  using assms by (auto simp: held_by_def)

lemma held_by_holder: "held_by P pcs x \<Longrightarrow> P (pcs i) \<Longrightarrow> x = Some i"
  by (auto simp: held_by_def)

definition locks_ok :: "guards \<Rightarrow> bool" where
  "locks_ok c \<longleftrightarrow> held_by in_singleton (gs_pc c) (gs_single_lock c) \<and>
     held_by in_guard (gs_pc c) (gs_locks c 0)"

definition guards_ok :: "ustr option \<Rightarrow> (nat \<Rightarrow> guard_op) \<Rightarrow> guards \<Rightarrow> bool" where
  "guards_ok env ops c \<longleftrightarrow> locks_ok c \<and> built_once env c \<and> (\<forall>i. pc_ok env (ops i) c (gs_pc c i))"

lemma guards_ok_start: "guards_ok env ops guards_start"
  by (simp add: guards_ok_def locks_ok_def held_by_def built_once_def guards_start_def)

text \<open>A guard that exists while the global is unset is about to be assigned by the lock's holder.\<close>

lemma recheck_alone:
  assumes "guards_ok env ops c" "gs_pc c i = Recheck" "gs_single c = None"
  shows "gs_heap c = []"
proof -
  have held: "held_by in_singleton (gs_pc c) (gs_single_lock c)"
    using assms(1) by (simp add: guards_ok_def locks_ok_def)
  have "gs_pc c j \<noteq> Assign 0" for j
    using held_by_holder [OF held, of i] held_by_holder [OF held, of j] assms(2) by fastforce
  then show ?thesis using assms(1,3) by (auto simp: guards_ok_def built_once_def assigning_def)
qed

lemma locked_step_in_guard [simp]: "in_guard (locked_step op r g)" "\<not> in_singleton (locked_step op r g)"
  by (cases op; simp)+

lemma locked_step_pc_ok:
  "r = 0 \<Longrightarrow> gs_single c = Some 0 \<Longrightarrow> op \<noteq> Reset False \<Longrightarrow> pc_ok env op c (locked_step op r g)"
  by (cases op) simp_all

lemma advance_locks:
  assumes "locks_ok c" "pc_ok env (ops i) c (gs_pc c i)" "advance env ops i c = Some c'"
  shows "locks_ok c'"
proof -
  have single: "held_by in_singleton (gs_pc c) (gs_single_lock c)"
    and inside: "held_by in_guard (gs_pc c) (gs_locks c 0)"
    using assms(1) by (simp_all add: locks_ok_def)
  show ?thesis
    using assms(2,3) unfolding locks_ok_def
    by (cases "gs_pc c i")
      (auto simp: advance_def split: if_splits sum.splits option.splits
        intro!: held_by_update [OF single] held_by_update [OF inside])
qed

lemma advance_built:
  assumes "guards_ok env ops c" "advance env ops i c = Some c'"
  shows "built_once env c'"
proof -
  have b: "built_once env c" and ok: "pc_ok env (ops i) c (gs_pc c i)"
    using assms(1) by (simp_all add: guards_ok_def)
  show ?thesis
    using b ok assms(2) unfolding built_once_def
    by (cases "gs_pc c i")
      (auto simp: advance_def assigning_now assigning_still split: if_splits sum.splits option.splits)
qed

lemma advance_outside:
  assumes "\<not> in_singleton (gs_pc c i)" "advance env ops i c = Some c'"
  shows "gs_single c' = gs_single c \<and> (gs_heap c' = [] \<longleftrightarrow> gs_heap c = [])"
  using assms by (cases "gs_pc c i") (auto simp: advance_def split: if_splits)

lemma advance_single:
  assumes "pc_ok env (ops i) c (gs_pc c i)" "advance env ops i c = Some c'" "gs_single c = Some 0"
  shows "gs_single c' = Some 0"
  using assms by (cases "gs_pc c i") (auto simp: advance_def split: if_splits sum.splits)

lemma pc_ok_same:
  "gs_single c' = gs_single c \<Longrightarrow> (gs_heap c' = [] \<longleftrightarrow> gs_heap c = []) \<Longrightarrow>
   pc_ok env op c' p \<longleftrightarrow> pc_ok env op c p"
  by (induction env op c p rule: pc_ok.induct) simp_all

lemma pc_ok_outside:
  "\<not> in_singleton p \<Longrightarrow> (gs_single c = Some 0 \<longrightarrow> gs_single c' = Some 0) \<Longrightarrow>
   pc_ok env op c p \<Longrightarrow> pc_ok env op c' p"
  by (induction env op c p rule: pc_ok.induct) simp_all

lemma advance_others:
  assumes ok: "guards_ok env ops c" and adv: "advance env ops i c = Some c'" and "j \<noteq> i"
  shows "pc_ok env (ops j) c' (gs_pc c j)"
proof (cases "in_singleton (gs_pc c j)")
  case True
  have "held_by in_singleton (gs_pc c) (gs_single_lock c)"
    using ok by (simp add: guards_ok_def locks_ok_def)
  with True \<open>j \<noteq> i\<close> have "\<not> in_singleton (gs_pc c i)" by (auto simp: held_by_def)
  with pc_ok_same advance_outside adv ok show ?thesis by (metis guards_ok_def)
next
  case False
  moreover have "pc_ok env (ops j) c (gs_pc c j)" "pc_ok env (ops i) c (gs_pc c i)"
    using ok by (simp_all add: guards_ok_def)
  ultimately show ?thesis using advance_single [OF _ adv] pc_ok_outside by blast
qed

lemma advance_self:
  assumes ok: "guards_ok env ops c" and adv: "advance env ops i c = Some c'"
  shows "pc_ok env (ops i) c' (gs_pc c' i)"
proof -
  have b: "built_once env c" and p: "pc_ok env (ops i) c (gs_pc c i)"
    using ok by (simp_all add: guards_ok_def)
  show ?thesis
    using b p adv recheck_alone [OF ok, of i] unfolding built_once_def
    by (cases "gs_pc c i")
      (auto simp: advance_def locked_step_pc_ok split: if_splits sum.splits option.splits)
qed

lemma advance_pc: "advance env ops i c = Some c' \<Longrightarrow> j \<noteq> i \<Longrightarrow> gs_pc c' j = gs_pc c j"
  by (cases "gs_pc c i") (auto simp: advance_def split: if_splits sum.splits)

lemma advance_ok:
  assumes "guards_ok env ops c" "advance env ops i c = Some c'"
  shows "guards_ok env ops c'"
proof -
  have "pc_ok env (ops j) c' (gs_pc c' j)" for j
    using advance_self [OF assms] advance_others [OF assms] advance_pc [OF assms(2)]
    by (cases "j = i") simp_all
  moreover have "locks_ok c'" using advance_locks assms unfolding guards_ok_def by blast
  ultimately show ?thesis using advance_built [OF assms] by (simp add: guards_ok_def)
qed

lemma guards_reach_ok: "guards_reach env ops n c \<Longrightarrow> guards_ok env ops c"
  unfolding guards_reach_def
  by (induction rule: rtranclp_induct) (auto simp: guards_step_iff guards_ok_start intro: advance_ok)

subsection \<open>Every call takes effect at once\<close>

definition guard_seq :: "(nat \<Rightarrow> guard_op) \<Rightarrow> cost_guard \<Rightarrow> nat list \<Rightarrow> cost_guard" where
  "guard_seq ops g calls = fold (\<lambda>i g. snd (guard_call (ops i) g)) calls g"

lemma guard_seq_simps [simp]:
  "guard_seq ops g [] = g"
  "guard_seq ops g (calls @ [i]) = snd (guard_call (ops i) (guard_seq ops g calls))"
  by (simp_all add: guard_seq_def)

text \<open>What is left of a critical section, run without interruption.\<close>

fun finish :: "guard_op \<Rightarrow> guard_pc \<Rightarrow> (cost_guard, cost_guard option) io" where
  "finish op (Copy r t) g =
     (let g' = g\<lparr>total_spent := t, call_count := call_count g + 1, last_updated := Some (op_now op)\<rparr>
      in (over_limit g' (op_cost op) t, g'))"
| "finish op (Store r g' None) g = (Inr None, g')"
| "finish op (Store r g' (Some t)) g = (over_limit g' (op_cost op) t, g')"
| "finish op (Compare r t) g = (over_limit g (op_cost op) t, g)"
| "finish op (Release r res) g = (res, g)"
| "finish op _ g = guard_call op g"

lemma finish_locked_step: "op \<noteq> Reset False \<Longrightarrow> finish op (locked_step op r g) g = guard_call op g"
  by (cases op) (auto simp: io_bind_def accumulate_def over_limit_def reset_for_test_def snapshot_def Let_def)

lemma finish_advance:
  assumes "in_guard (gs_pc c i)" "pc_ok env (ops i) c (gs_pc c i)" "built_once env c"
    and "advance env ops i c = Some c'" "in_guard (gs_pc c' i)"
  shows "finish (ops i) (gs_pc c' i) (gs_heap c' ! 0) = finish (ops i) (gs_pc c i) (gs_heap c ! 0)"
  using assms
  by (cases "gs_pc c i")
    (auto simp: advance_def finish_locked_step built_once_def Let_def split: option.splits if_splits)

text \<open>
  \<open>calls\<close> is the order in which the lock was acquired.  The guard is what the calls make of it
  in that order, up to the one that is still inside, and each call that is done has the answer
  it gets in its place; a refused reset has not touched the guard.
\<close>

definition answered :: "(nat \<Rightarrow> guard_op) \<Rightarrow> cost_guard \<Rightarrow> nat list \<Rightarrow> nat \<Rightarrow> answer \<Rightarrow> bool" where
  "answered ops g0 calls i res \<longleftrightarrow>
     (\<exists>before after. calls = before @ i # after \<and> res = fst (guard_call (ops i) (guard_seq ops g0 before))) \<or>
     i \<notin> set calls \<and> ops i = Reset False \<and> res = fst (guard_call (Reset False) g0)"

definition effect_so_far :: "(nat \<Rightarrow> guard_op) \<Rightarrow> cost_guard \<Rightarrow> guards \<Rightarrow> nat list \<Rightarrow> bool" where
  "effect_so_far ops g0 c calls \<longleftrightarrow>
     (case gs_locks c 0 of
        None \<Rightarrow> gs_heap c ! 0 = guard_seq ops g0 calls
      | Some i \<Rightarrow> \<exists>before. calls = before @ [i] \<and>
          finish (ops i) (gs_pc c i) (gs_heap c ! 0) = guard_call (ops i) (guard_seq ops g0 before))"

definition in_order :: "(nat \<Rightarrow> guard_op) \<Rightarrow> cost_guard \<Rightarrow> guards \<Rightarrow> nat list \<Rightarrow> bool" where
  "in_order ops g0 c calls \<longleftrightarrow>
     distinct calls \<and> (if gs_heap c = [] then calls = [] else effect_so_far ops g0 c calls) \<and>
     (\<forall>i \<in> set calls. in_guard (gs_pc c i) \<or> (\<exists>res. gs_pc c i = Done res)) \<and>
     (\<forall>i res. gs_pc c i = Done res \<longrightarrow> answered ops g0 calls i res)"

lemma answered_more: "answered ops g0 calls j res \<Longrightarrow> j \<noteq> i \<Longrightarrow> answered ops g0 (calls @ [i]) j res"
  by (fastforce simp: answered_def)

lemma answered_last: "res = fst (guard_call (ops i) (guard_seq ops g0 before)) \<Longrightarrow>
  answered ops g0 (before @ [i]) i res"
  by (auto simp: answered_def)

lemma refused_reset: "fst (guard_call (Reset False) g) = fst (guard_call (Reset False) g0)"
  by (simp add: io_bind_def reset_for_test_def)

text \<open>A step outside the guard's lock that ends no call.\<close>

lemma in_order_quiet:
  assumes "in_order ops g0 c calls" "\<not> in_guard (gs_pc c i)" "\<And>res. gs_pc c i \<noteq> Done res"
    and "gs_heap c' = gs_heap c" "gs_locks c' = gs_locks c" "gs_pc c' = (gs_pc c)(i := p)"
    and "\<not> in_guard p" "\<And>res. p \<noteq> Done res" "locks_ok c"
  shows "in_order ops g0 c' calls"
proof -
  have out: "i \<notin> set calls" using assms(1-3) unfolding in_order_def by blast
  have "gs_locks c 0 \<noteq> Some i" using assms(2,9) by (auto simp: locks_ok_def held_by_def)
  then have "effect_so_far ops g0 c' calls = effect_so_far ops g0 c calls"
    using assms(4-6) by (auto simp: effect_so_far_def split: option.split)
  then show ?thesis using assms out by (auto simp: in_order_def)
qed

lemma in_order_build:
  assumes "in_order ops g0 c calls" "guards_ok env ops c" "gs_pc c i = Build" "get_cost_guard env None = Inr g0"
    and "advance env ops i c = Some c'"
  shows "in_order ops g0 c' calls"
proof -
  have heap: "gs_heap c = []" "gs_single c = None"
    using assms(2,3) by (metis guards_ok_def pc_ok.simps(1))+
  then have none: "calls = []" using assms(1) by (simp add: in_order_def)
  have "\<not> in_guard (gs_pc c j)" for j
  proof
    assume "in_guard (gs_pc c j)"
    moreover have "pc_ok env (ops j) c (gs_pc c j)" using assms(2) by (simp add: guards_ok_def)
    ultimately show False using heap by (cases "gs_pc c j") auto
  qed
  then have "gs_locks c 0 = None" using assms(2) by (cases "gs_locks c 0") (auto simp: guards_ok_def locks_ok_def held_by_def)
  with heap none assms show ?thesis
    by (auto simp: in_order_def effect_so_far_def advance_def split: if_splits)
qed

text \<open>Taking the lock appends the call, and steps inside it only shorten what is left.\<close>

lemma in_order_enters:
  assumes "in_order ops g0 c calls" "guards_ok env ops c" "gs_pc c i = Await 0" "advance env ops i c = Some c'"
  shows "in_order ops g0 c' (calls @ [i])"
proof -
  have free: "gs_locks c 0 = None" and c': "c' = goto i (Inside 0) (c\<lparr>gs_locks := (gs_locks c)(0 := Some i)\<rparr>)"
    using assms(3,4) by (auto simp: advance_def split: if_splits)
  have "pc_ok env (ops i) c (Await 0)" using assms(2,3) by (metis guards_ok_def)
  then have heap: "gs_heap c \<noteq> []" using assms(2) by (auto simp: guards_ok_def built_once_def)
  have out: "i \<notin> set calls" using assms(1,3) unfolding in_order_def by fastforce
  have "gs_heap c ! 0 = guard_seq ops g0 calls"
    using assms(1) heap free by (simp add: in_order_def effect_so_far_def)
  then show ?thesis
    using assms(1) heap out c' by (auto simp: in_order_def effect_so_far_def intro: answered_more split: if_splits)
qed

lemma in_order_inside:
  assumes io: "in_order ops g0 c calls" and ok: "guards_ok env ops c" and inside: "in_guard (gs_pc c i)"
    and adv: "advance env ops i c = Some c'" and still: "in_guard (gs_pc c' i)"
  shows "in_order ops g0 c' calls"
proof -
  have p: "pc_ok env (ops i) c (gs_pc c i)" and b: "built_once env c" using ok by (simp_all add: guards_ok_def)
  have lock: "gs_locks c 0 = Some i"
    using ok inside by (auto simp: guards_ok_def locks_ok_def held_by_def)
  have heap: "gs_heap c \<noteq> []" using p inside b by (cases "gs_pc c i") (auto simp: built_once_def)
  have locks': "gs_locks c' = gs_locks c" and heap': "gs_heap c' \<noteq> []"
    using inside still adv heap by (cases "gs_pc c i"; auto simp: advance_def)+
  have eff: "effect_so_far ops g0 c calls" using io heap by (simp add: in_order_def)
  then have "effect_so_far ops g0 c' calls"
    using finish_advance [where c = c and i = i, OF inside p b adv still] lock locks'
    by (auto simp: effect_so_far_def)
  moreover have "j \<noteq> i \<Longrightarrow> gs_pc c' j = gs_pc c j" for j using advance_pc [OF adv] by simp
  ultimately show ?thesis using io heap' heap still unfolding in_order_def
    by (metis in_guard.simps(15))
qed

lemma in_order_leaves:
  assumes io: "in_order ops g0 c calls" and ok: "guards_ok env ops c" and pc: "gs_pc c i = Release 0 res"
    and adv: "advance env ops i c = Some c'"
  shows "in_order ops g0 c' calls"
proof -
  have c': "c' = goto i (Done res) (c\<lparr>gs_locks := (gs_locks c)(0 := None)\<rparr>)"
    using pc adv by (simp add: advance_def)
  have lock: "gs_locks c 0 = Some i" using ok pc by (auto simp: guards_ok_def locks_ok_def held_by_def)
  have "pc_ok env (ops i) c (Release 0 res)" using ok pc by (metis guards_ok_def)
  then have heap: "gs_heap c \<noteq> []" using ok by (auto simp: guards_ok_def built_once_def)
  then obtain before where calls: "calls = before @ [i]"
    and fin: "(res, gs_heap c ! 0) = guard_call (ops i) (guard_seq ops g0 before)"
    using io lock pc by (auto simp: in_order_def effect_so_far_def)
  have "res = fst (guard_call (ops i) (guard_seq ops g0 before))"
    "gs_heap c ! 0 = snd (guard_call (ops i) (guard_seq ops g0 before))"
    using fin by (metis fst_conv, metis snd_conv)
  with calls have "answered ops g0 calls i res" "gs_heap c ! 0 = guard_seq ops g0 calls"
    by (simp_all add: answered_last)
  then show ?thesis using io heap c' by (auto simp: in_order_def effect_so_far_def)
qed

lemma in_order_step:
  assumes io: "in_order ops g0 c calls" and ok: "guards_ok env ops c" and g0: "get_cost_guard env None = Inr g0"
    and adv: "advance env ops i c = Some c'"
  shows "\<exists>calls'. in_order ops g0 c' calls'"
proof -
  have p: "pc_ok env (ops i) c (gs_pc c i)" and l: "locks_ok c" using ok by (simp_all add: guards_ok_def)
  note quiet = in_order_quiet [OF io, of i]
  show ?thesis
  proof (cases "gs_pc c i")
    case Build
    with in_order_build io ok g0 adv show ?thesis by blast
  next
    case (Await r)
    with p in_order_enters [OF io ok _ adv] show ?thesis by auto
  next
    case (Release r res)
    with p in_order_leaves [OF io ok _ adv] show ?thesis by auto
  next
    case (Begin r)
    show ?thesis
    proof (cases "ops i = Reset False")
      case True
      then have c': "c' = goto i (Done (fst (guard_call (Reset False) g0))) c"
        using adv Begin refused_reset [of "gs_heap c ! r" g0] by (simp add: advance_def del: guard_call.simps)
      have out: "i \<notin> set calls" using io Begin unfolding in_order_def by fastforce
      have "\<not> in_guard (gs_pc c i)" using Begin by simp
      then have "gs_locks c 0 \<noteq> Some i" using l unfolding locks_ok_def held_by_def by blast
      then have "effect_so_far ops g0 c' calls = effect_so_far ops g0 c calls"
        using c' by (auto simp: effect_so_far_def split: option.split)
      with out have "in_order ops g0 c' calls" using io c' True by (auto simp: in_order_def answered_def)
      then show ?thesis by blast
    next
      case False
      then have "in_order ops g0 c' calls"
        using Begin adv l by (intro quiet [where p = "Await r"]) (auto simp: advance_def)
      then show ?thesis by blast
    qed
  next
    case (LeaveSingleton x)
    then have "x = None" using p g0 by (cases x) auto
    then have "in_order ops g0 c' calls"
      using LeaveSingleton adv l by (intro quiet [where p = Return]) (auto simp: advance_def)
    then show ?thesis by blast
  next
    case Return
    then have "in_order ops g0 c' calls"
      using p adv l by (intro quiet [where p = "Begin 0"]) (auto simp: advance_def)
    then show ?thesis by blast
  next
    case Enter
    then have "in_order ops g0 c' calls"
      using adv l by (intro quiet [where p = "gs_pc c' i"]) (auto simp: advance_def split: if_splits)
    then show ?thesis by blast
  next
    case AwaitSingleton
    then have "in_order ops g0 c' calls"
      using adv l by (intro quiet [where p = Recheck]) (auto simp: advance_def split: if_splits)
    then show ?thesis by blast
  next
    case Recheck
    then have "in_order ops g0 c' calls"
      using adv l by (intro quiet [where p = "gs_pc c' i"]) (auto simp: advance_def split: if_splits)
    then show ?thesis by blast
  next
    case (Assign r)
    then have "in_order ops g0 c' calls"
      using adv l by (intro quiet [where p = "LeaveSingleton None"]) (auto simp: advance_def)
    then show ?thesis by blast
  next
    case (Done res)
    with adv show ?thesis by (simp add: advance_def)
  next
    case (Store r g x)
    then have "in_guard (gs_pc c' i)" using adv by (auto simp: advance_def split: option.splits)
    with in_order_inside [OF io ok _ adv] Store show ?thesis by auto
  qed (use in_order_inside [OF io ok _ adv] adv in \<open>auto simp: advance_def\<close>)
qed

lemma in_order_start: "in_order ops g0 guards_start []"
  by (simp add: in_order_def guards_start_def)

lemma guards_reach_in_order:
  assumes "guards_reach env ops n c" "get_cost_guard env None = Inr g0"
  shows "\<exists>calls. in_order ops g0 c calls"
proof -
  have "guards_ok env ops c \<and> (\<exists>calls. in_order ops g0 c calls)"
    using assms(1) unfolding guards_reach_def
  proof (induction rule: rtranclp_induct)
    case base
    show ?case using guards_ok_start in_order_start by blast
  next
    case (step c c')
    then obtain i calls where "advance env ops i c = Some c'" "in_order ops g0 c calls"
      by (auto simp: guards_step_iff)
    with step assms(2) in_order_step advance_ok show ?case by blast
  qed
  then show ?thesis ..
qed

subsection \<open>No deadlock\<close>

fun pc_rank :: "guard_pc \<Rightarrow> nat" where
  "pc_rank Enter = 14"
| "pc_rank AwaitSingleton = 13"
| "pc_rank Recheck = 12"
| "pc_rank Build = 11"
| "pc_rank (Assign r) = 10"
| "pc_rank (LeaveSingleton x) = 9"
| "pc_rank Return = 8"
| "pc_rank (Begin r) = 7"
| "pc_rank (Await r) = 6"
| "pc_rank (Inside r) = 5"
| "pc_rank (Copy r t) = 4"
| "pc_rank (Store r g x) = 3"
| "pc_rank (Compare r t) = 2"
| "pc_rank (Release r res) = 1"
| "pc_rank (Done res) = 0"

definition to_do :: "nat \<Rightarrow> guards \<Rightarrow> nat" where
  "to_do n c = (\<Sum>i < n. pc_rank (gs_pc c i))"

lemma advance_rank: "advance env ops i c = Some c' \<Longrightarrow> pc_rank (gs_pc c' i) < pc_rank (gs_pc c i)"
proof -
  have "pc_rank (locked_step op r g) < 5" for op r g by (cases op) simp_all
  then show "advance env ops i c = Some c' \<Longrightarrow> ?thesis"
    by (cases "gs_pc c i") (auto simp: advance_def split: if_splits sum.splits option.splits)
qed

lemma step_to_do:
  assumes "guards_step env ops n c c'"
  shows "to_do n c' < to_do n c"
proof -
  from assms obtain i where i: "i < n" "advance env ops i c = Some c'" by (auto simp: guards_step_iff)
  then have "pc_rank (gs_pc c' j) \<le> pc_rank (gs_pc c j)" for j
    using advance_rank [OF i(2)] advance_pc [OF i(2)] by (cases "j = i") auto
  moreover have "\<exists>j \<in> {..<n}. pc_rank (gs_pc c' j) < pc_rank (gs_pc c j)"
    using i(1) advance_rank [OF i(2)] by blast
  ultimately show ?thesis unfolding to_do_def by (intro sum_strict_mono_ex1) auto
qed

lemma steps_to_do: "(guards_step env ops n ^^ k) c c' \<Longrightarrow> k + to_do n c' \<le> to_do n c"
proof (induction k arbitrary: c')
  case (Suc k)
  then obtain b where "(guards_step env ops n ^^ k) c b" "guards_step env ops n b c'" by auto
  with Suc.IH step_to_do show ?case by fastforce
qed simp

lemma idle_beyond: "guards_reach env ops n c \<Longrightarrow> n \<le> i \<Longrightarrow> gs_pc c i = Enter"
  unfolding guards_reach_def
  by (induction rule: rtranclp_induct) (auto simp: guards_step_iff guards_start_def advance_pc)

lemma inside_moves: "in_guard (gs_pc c i) \<or> in_singleton (gs_pc c i) \<Longrightarrow> advance env ops i c \<noteq> None"
  by (cases "gs_pc c i") (auto simp: advance_def split: sum.splits)

lemma blocked_by:
  assumes "guards_ok env ops c" "advance env ops i c = None" "\<And>res. gs_pc c i \<noteq> Done res"
  obtains j where "in_guard (gs_pc c j) \<or> in_singleton (gs_pc c j)"
proof (cases "gs_pc c i")
  case AwaitSingleton
  then show ?thesis using assms that by (auto simp: advance_def guards_ok_def locks_ok_def held_by_def split: if_splits)
next
  case (Await r)
  then have "pc_ok env (ops i) c (Await r)" using assms(1) by (metis guards_ok_def)
  with Await show ?thesis using assms that
    by (auto simp: advance_def guards_ok_def locks_ok_def held_by_def split: if_splits)
qed (use assms(2,3) in \<open>auto simp: advance_def split: sum.splits\<close>)

lemma some_call_moves:
  assumes "guards_reach env ops n c" "i < n" "\<And>res. gs_pc c i \<noteq> Done res"
  shows "\<exists>c'. guards_step env ops n c c'"
proof (cases "advance env ops i c")
  case None
  obtain j where j: "in_guard (gs_pc c j) \<or> in_singleton (gs_pc c j)"
    using blocked_by [OF guards_reach_ok [OF assms(1)] None assms(3)] by blast
  then have "j < n" using idle_beyond [OF assms(1), of j] by (cases "j < n") auto
  with inside_moves [OF j, of env ops] show ?thesis by (auto simp: guards_step_iff)
qed (use assms(2) in \<open>auto simp: guards_step_iff\<close>)

lemma calls_finish:
  assumes "(guards_step env ops n ^^ k) guards_start c"
  shows "k \<le> 14 * n \<and> ((\<forall>i < n. \<exists>res. gs_pc c i = Done res) \<or> (\<exists>c'. guards_step env ops n c c'))"
proof -
  have "to_do n guards_start = 14 * n" by (simp add: to_do_def guards_start_def)
  with steps_to_do [OF assms] have "k \<le> 14 * n" by simp
  moreover have "guards_reach env ops n c"
    using assms by (auto simp: guards_reach_def rtranclp_power)
  ultimately show ?thesis using some_call_moves by blast
qed

subsection \<open>No update is lost\<close>

lemma guard_seq_accumulates:
  assumes "\<forall>i \<in> set calls. ops i = Accumulate (now i) (cost i) (guard_currency g)"
  shows "guard_seq ops g calls = guard_run g (map (\<lambda>i. (now i, cost i)) calls)"
  using assms
proof (induction calls rule: rev_induct)
  case (snoc i calls)
  let ?g = "guard_run g (map (\<lambda>i. (now i, cost i)) calls)"
  have "snd (io_bind m (\<lambda>_. io_return None) g') = snd (m g')" for m :: "(cost_guard, unit) io" and g'
    by (simp add: io_bind_def split: prod.splits sum.splits)
  with snoc show ?case by (simp add: guard_run_append guard_run_frame)
qed simp

lemma all_done_order:
  assumes "guards_reach env ops n c" "get_cost_guard env None = Inr g0"
    and ended: "\<forall>i < n. \<exists>res. gs_pc c i = Done res" and "\<forall>i < n. ops i \<noteq> Reset False" "0 < n"
  obtains calls where "distinct calls" "set calls = {..<n}" "gs_heap c = [guard_seq ops g0 calls]"
    "\<And>i res. gs_pc c i = Done res \<Longrightarrow> answered ops g0 calls i res"
proof -
  obtain calls where io: "in_order ops g0 c calls" using guards_reach_in_order [OF assms(1,2)] by blast
  have ok: "guards_ok env ops c" using guards_reach_ok [OF assms(1)] .
  have idle: "\<not> in_guard (gs_pc c i)" for i
    using ended idle_beyond [OF assms(1), of i] by (cases "i < n") auto
  have sub: "set calls \<subseteq> {..<n}"
  proof
    fix i assume "i \<in> set calls"
    with io idle obtain res where "gs_pc c i = Done res" by (auto simp: in_order_def)
    then show "i \<in> {..<n}" using idle_beyond [OF assms(1), of i] by (cases "i < n") auto
  qed
  have "i \<in> set calls" if "i < n" for i
    using that io ended assms(4) by (fastforce simp: in_order_def answered_def)
  with sub have all: "set calls = {..<n}" by auto
  then have "0 \<in> set calls" using \<open>0 < n\<close> by simp
  then have "calls \<noteq> []" by (cases calls) simp_all
  then have heap: "gs_heap c \<noteq> []" using io by (auto simp: in_order_def)
  have "gs_locks c 0 = None" using ok idle by (cases "gs_locks c 0") (auto simp: guards_ok_def locks_ok_def held_by_def)
  then have "gs_heap c ! 0 = guard_seq ops g0 calls" using io heap by (simp add: in_order_def effect_so_far_def)
  moreover have "length (gs_heap c) \<le> 1" using ok by (simp add: guards_ok_def built_once_def)
  ultimately have "gs_heap c = [guard_seq ops g0 calls]" using heap by (cases "gs_heap c") auto
  with io all that show ?thesis by (auto simp: in_order_def)
qed

lemma fresh_guard:
  assumes "get_cost_guard env None = Inr g"
  shows "total_spent g = dec_zero" "guard_currency g = lit ''CNY''" "call_count g = 0"
  using assms by (auto simp: get_cost_guard_def new_guard_def Let_def split: dec_lit.splits if_splits)

lemma concurrent_total:
  assumes "guards_reach env ops n c" "\<forall>i < n. \<exists>res. gs_pc c i = Done res" "0 < n"
    and "get_cost_guard env None = Inr g0"
    and ops: "\<forall>i < n. ops i = Accumulate (now i) (cost i) (lit ''CNY'')"
    and fine: "\<forall>i < n. fine_grained k (cost i)" "k \<le> dec_prec" "(\<Sum>i < n. dec_val (cost i)) < 10 ^ (dec_prec - k)"
  shows "\<exists>g. gs_heap c = [g] \<and> dec_val (total_spent g) = (\<Sum>i < n. dec_val (cost i)) \<and> call_count g = n"
proof -
  have no_reset: "\<forall>i < n. ops i \<noteq> Reset False" using ops by auto
  from all_done_order [OF assms(1,4,2) no_reset assms(3)] obtain calls
    where calls: "distinct calls" "set calls = {..<n}" "gs_heap c = [guard_seq ops g0 calls]" .
  note g0 = fresh_guard [OF assms(4)]
  let ?xs = "map (\<lambda>i. (now i, cost i)) calls"
  have run: "guard_seq ops g0 calls = guard_run g0 ?xs"
    using calls(2) ops g0 by (intro guard_seq_accumulates) auto
  have sum: "(\<Sum>(now, c) \<leftarrow> ?xs. dec_val c) = (\<Sum>i < n. dec_val (cost i))"
    using calls(1,2) by (simp add: comp_def case_prod_beta sum_list_distinct_conv_sum_set)
  have "fine_grained k dec_zero" by (simp add: fine_grained_def dec_zero_def)
  then have "dec_val (total_spent (guard_run g0 ?xs)) = dec_val (total_spent g0) + (\<Sum>(now, c) \<leftarrow> ?xs. dec_val c)"
    using fine calls(2) g0 sum by (intro guard_run_exact [of k]) (auto simp: dec_val_zero)
  moreover have "length calls = n" using calls(1,2) distinct_card by fastforce
  ultimately show ?thesis
    using calls(3) run sum g0 by (simp add: dec_val_zero guard_run_count)
qed

text \<open>With a budget that is no amount there is no guard, and every call raises that error.\<close>

lemma bad_budget_answers:
  assumes "guards_reach env ops n c" "get_cost_guard env None = Inl e"
  shows "gs_heap c = [] \<and> (\<forall>i res. gs_pc c i = Done res \<longrightarrow> res = Inl e)"
proof -
  have ok: "guards_ok env ops c" using guards_reach_ok [OF assms(1)] .
  have "res = Inl e" if "gs_pc c i = Done res" for i res
  proof -
    have "pc_ok env (ops i) c (Done res)" using ok that by (metis guards_ok_def)
    with assms(2) show ?thesis by simp
  qed
  with ok assms(2) show ?thesis by (auto simp: guards_ok_def built_once_def)
qed

text \<open>The summary: one guard at most, and calls that take effect one after the other.\<close>

lemma guards_linearize:
  assumes "guards_reach env ops n c" "get_cost_guard env None = Inr g0"
  shows "length (gs_heap c) \<le> 1 \<and>
    (\<exists>calls. distinct calls \<and> set calls \<subseteq> {..<n} \<and>
       (\<forall>i res. gs_pc c i = Done res \<longrightarrow> answered ops g0 calls i res) \<and>
       (gs_heap c = [] \<or> gs_locks c 0 \<noteq> None \<or> gs_heap c = [guard_seq ops g0 calls]))"
proof -
  have ok: "guards_ok env ops c" using guards_reach_ok [OF assms(1)] .
  then have one: "length (gs_heap c) \<le> 1" by (simp add: guards_ok_def built_once_def)
  obtain calls where io: "in_order ops g0 c calls" using guards_reach_in_order [OF assms] by blast
  have "set calls \<subseteq> {..<n}"
  proof
    fix i assume "i \<in> set calls"
    with io have "gs_pc c i \<noteq> Enter" by (auto simp: in_order_def)
    then show "i \<in> {..<n}" using idle_beyond [OF assms(1), of i] by (cases "i < n") auto
  qed
  moreover have "gs_heap c = [] \<or> gs_locks c 0 \<noteq> None \<or> gs_heap c = [guard_seq ops g0 calls]"
    using io one by (cases "gs_heap c"; cases "gs_locks c 0") (auto simp: in_order_def effect_so_far_def)
  ultimately show ?thesis using one io by (auto simp: in_order_def)
qed

text \<open>From every reachable point the calls can be brought to their end.\<close>

lemma calls_can_finish:
  "guards_reach env ops n c \<Longrightarrow>
   \<exists>c'. guards_reach env ops n c' \<and> (\<forall>i < n. \<exists>res. gs_pc c' i = Done res)"
proof (induction "to_do n c" arbitrary: c rule: less_induct)
  case less
  show ?case
  proof (cases "\<forall>i < n. \<exists>res. gs_pc c i = Done res")
    case False
    then obtain c' where step: "guards_step env ops n c c'" using some_call_moves [OF less.prems] by blast
    then have "guards_reach env ops n c'"
      using less.prems by (simp add: guards_reach_def rtranclp.rtrancl_into_rtrancl)
    with less.hyps step_to_do [OF step] show ?thesis by blast
  qed (use less.prems in blast)
qed

end
