(* ===== verification/Overshoot.thy ===== *)
theory Overshoot
  imports Incidents Completion
begin

text \<open>
  By how much a budget can be exceeded.  The guard updates first and raises afterwards, and its
  exception ends the asking of the incident that got it.  So a computation of an agent bills at
  most one call beyond the budget, and it is its last (\<open>fails_fast\<close>, closed under the combinators
  the agents are written with); and over every interleaving of \<open>n\<close> incidents at most \<open>n\<close> calls
  are billed from the one that crosses the limit on.  The second part is the other side of the
  same design: over a tripped guard a run still sends, and pays, its first request.
\<close>

subsection \<open>Computations that stop at the limit\<close>

text \<open>
  Sequences of bills that end within the budget, and those whose last bill is one more than such
  a sequence.
\<close>

definition within_budget :: "cost_guard \<Rightarrow> cost_guard \<Rightarrow> bool" where
  "within_budget g g' \<longleftrightarrow> (\<exists>bills. g' = guard_run g bills \<and> (bills = [] \<or> \<not> over_budget g'))"

definition one_more_bill :: "cost_guard \<Rightarrow> cost_guard \<Rightarrow> bool" where
  "one_more_bill g g' \<longleftrightarrow> (\<exists>g1 b. within_budget g g1 \<and> g' = guard_run g1 [b])"

definition budget_error :: "'a result \<Rightarrow> bool" where
  "budget_error r \<longleftrightarrow> (\<exists>a b c d. r = Inl (CostGuardError a b c d))"

definition fails_fast :: "(world, 'a) io \<Rightarrow> bool" where
  "fails_fast m \<longleftrightarrow>
     (\<forall>w g. current_guard w = Inr g \<longrightarrow>
        (\<exists>g'. current_guard (snd (m w)) = Inr g' \<and>
           (within_budget g g' \<or> one_more_bill g g' \<and> budget_error (fst (m w)))))"

lemma within_budget_refl [simp]: "within_budget g g"
  unfolding within_budget_def by (rule exI [of _ "[]"]) simp

lemma within_budget_trans: "within_budget g g1 \<Longrightarrow> within_budget g1 g2 \<Longrightarrow> within_budget g g2"
proof -
  assume "within_budget g g1" "within_budget g1 g2"
  then obtain b1 b2 where "g1 = guard_run g b1" "b1 = [] \<or> \<not> over_budget g1"
    "g2 = guard_run g1 b2" "b2 = [] \<or> \<not> over_budget g2"
    by (auto simp: within_budget_def)
  then show "within_budget g g2"
    unfolding within_budget_def by (intro exI [of _ "b1 @ b2"]) (auto simp: guard_run_append)
qed

lemma within_budget_one_more: "within_budget g g1 \<Longrightarrow> one_more_bill g1 g2 \<Longrightarrow> one_more_bill g g2"
  unfolding one_more_bill_def using within_budget_trans by blast

lemma budget_error_simps [simp]:
  "\<not> budget_error (Inr x)" "budget_error (Inl (CostGuardError a b c d))"
  by (simp_all add: budget_error_def)

named_theorems fails_fast_intros \<open>rules for computations that stop at the limit\<close>

lemma fails_fast_silent: "(\<And>w. current_guard (snd (m w)) = current_guard w) \<Longrightarrow> fails_fast m"
  unfolding fails_fast_def by (metis within_budget_refl)

lemma fails_fast_return [fails_fast_intros]: "fails_fast (io_return x)"
  and fails_fast_raise [fails_fast_intros]: "fails_fast (io_raise e)"
  and fails_fast_lift [fails_fast_intros]: "fails_fast (io_lift r)"
  by (simp_all add: fails_fast_silent)

lemma fails_fastD:
  assumes "fails_fast m" "current_guard w = Inr g" "m w = (r, w')"
  obtains (within) g' where "current_guard w' = Inr g'" "within_budget g g'"
  | (over) g' where "current_guard w' = Inr g'" "one_more_bill g g'" "budget_error r"
  using assms unfolding fails_fast_def by (metis fst_conv snd_conv)

lemma fails_fast_bind [fails_fast_intros]:
  assumes m: "fails_fast m" and f: "\<And>x. fails_fast (f x)"
  shows "fails_fast (io_bind m f)"
  unfolding fails_fast_def
proof (intro allI impI)
  fix w g assume g: "current_guard w = Inr g"
  obtain r w1 where r: "m w = (r, w1)" by (cases "m w")
  let ?goal = "\<exists>g'. current_guard (snd (io_bind m f w)) = Inr g' \<and>
    (within_budget g g' \<or> one_more_bill g g' \<and> budget_error (fst (io_bind m f w)))"
  from m g r show ?goal
  proof (cases rule: fails_fastD)
    case (over g1)
    then show ?thesis using r by (auto simp: budget_error_def)
  next
    case (within g1)
    show ?thesis
    proof (cases r)
      case (Inl e)
      with within r show ?thesis by auto
    next
      case (Inr x)
      obtain r2 w2 where "f x w1 = (r2, w2)" by (cases "f x w1")
      moreover from f within(1) this have "\<exists>g2. current_guard w2 = Inr g2 \<and>
          (within_budget g1 g2 \<or> one_more_bill g1 g2 \<and> budget_error r2)"
        by (cases rule: fails_fastD) auto
      ultimately show ?thesis
        using r Inr within(2) by (auto intro: within_budget_trans within_budget_one_more)
    qed
  qed
qed

text \<open>A handler that lets the guard's exception pass.\<close>

lemma fails_fast_catch [fails_fast_intros]:
  assumes m: "fails_fast m" and h: "\<And>e m'. h e = Some m' \<Longrightarrow> fails_fast m'"
    and pass: "\<And>a b c d. h (CostGuardError a b c d) = None"
  shows "fails_fast (io_catch m h)"
  unfolding fails_fast_def
proof (intro allI impI)
  fix w g assume g: "current_guard w = Inr g"
  obtain r w1 where r: "m w = (r, w1)" by (cases "m w")
  let ?goal = "\<exists>g'. current_guard (snd (io_catch m h w)) = Inr g' \<and>
    (within_budget g g' \<or> one_more_bill g g' \<and> budget_error (fst (io_catch m h w)))"
  from m g r show ?goal
  proof (cases rule: fails_fastD)
    case (over g1)
    then show ?thesis using r pass by (auto simp: budget_error_def)
  next
    case (within g1)
    show ?thesis
    proof (cases "\<exists>e m'. r = Inl e \<and> h e = Some m'")
      case True
      then obtain e m' where e: "r = Inl e" "h e = Some m'" by blast
      obtain r2 w2 where "m' w1 = (r2, w2)" by (cases "m' w1")
      moreover from h [OF e(2)] within(1) this have "\<exists>g2. current_guard w2 = Inr g2 \<and>
          (within_budget g1 g2 \<or> one_more_bill g1 g2 \<and> budget_error r2)"
        by (cases rule: fails_fastD) auto
      ultimately show ?thesis
        using r e within(2) by (auto intro: within_budget_trans within_budget_one_more)
    next
      case False
      then have "io_catch m h w = (r, w1)" using r by (cases r) auto
      with within show ?thesis by auto
    qed
  qed
qed

subsection \<open>The agents stop at the limit\<close>

text \<open>One bill: what it costs is added, and if that is too much the guard raises.\<close>

lemma fails_fast_bill: "fails_fast (bill h cost)"
  unfolding fails_fast_def
proof (intro allI impI)
  fix w g assume g: "current_guard w = Inr g"
  let ?now = "h_now h w" and ?cny = "lit ''CNY''"
  obtain r g' where acc: "accumulate ?now cost ?cny g = (r, g')" by (cases "accumulate ?now cost ?cny g")
  have bill: "bill h cost w = (r, w\<lparr>guard := Some g'\<rparr>)" using g acc by (simp add: bill_def)
  have now: "current_guard (w\<lparr>guard := Some g'\<rparr>) = Inr g'" by (simp add: get_cost_guard_def)
  have "within_budget g g' \<or> one_more_bill g g' \<and> budget_error r"
  proof (cases "guard_currency g = ?cny")
    case True
    have run: "g' = guard_run g [(?now, cost)]" using acc True by simp
    show ?thesis
    proof (cases "over_budget g'")
      case True
      with accumulate_outcome [of ?cny g ?now cost] \<open>guard_currency g = ?cny\<close> acc
      have "budget_error r" by simp
      with run show ?thesis unfolding one_more_bill_def using within_budget_refl by blast
    next
      case False
      with run show ?thesis unfolding within_budget_def by blast
    qed
  next
    case False
    then have "g' = g" using accumulate_mismatch [of ?cny g ?now cost] acc by auto
    then show ?thesis by simp
  qed
  with bill now show "\<exists>g'. current_guard (snd (bill h cost w)) = Inr g' \<and>
      (within_budget g g' \<or> one_more_bill g g' \<and> budget_error (fst (bill h cost w)))"
    by auto
qed

lemma fails_fast_provider: "fails_fast (provider_complete name table h ms model t agent k temp)"
  unfolding fails_fast_def
proof (intro allI impI)
  fix w g assume g: "current_guard w = Inr g"
  obtain r w' where run: "provider_complete name table h ms model t agent k temp w = (r, w')"
    by (cases "provider_complete name table h ms model t agent k temp w")
  from run have "\<exists>g'. current_guard w' = Inr g' \<and> (within_budget g g' \<or> one_more_bill g g' \<and> budget_error r)"
  proof (cases rule: provider_cases)
    case (answered out w1 cost resp rb)
    from invoke_with_retry_frame [OF answered(1)] g have "current_guard w1 = Inr g" by simp
    from fails_fastD [OF fails_fast_bill this answered(6)] show ?thesis
      using answered(7) by (metis budget_error_def sum.simps(5))
  qed (use g invoke_with_retry_frame in auto)
  with run show "\<exists>g'. current_guard (snd (provider_complete name table h ms model t agent k temp w)) = Inr g' \<and>
      (within_budget g g' \<or> one_more_bill g g' \<and>
         budget_error (fst (provider_complete name table h ms model t agent k temp w)))"
    by simp
qed

lemma fails_fast_ask [fails_fast_intros]: "fails_fast (ask (provider_client h p) cfg name t msgs)"
  by (cases p) (simp_all add: ask_def provider_client_def ark_complete_def glm_complete_def fails_fast_provider)

lemma fails_fast_script [fails_fast_intros]:
  "fails_fast (complete_script_artifact h (provider_client h p) cfg msgs name t)"
  unfolding complete_script_artifact_def ask_artifact_def
  by (intro fails_fast_intros) (auto split: option.split intro!: fails_fast_intros)

lemma agents_fail_fast:
  "fails_fast (ag_diagnosis (production_agents h b) s)"
  "fails_fast (ag_supervisor (production_agents h b) s)"
  "fails_fast (ag_code_fixer (production_agents h b) s)"
  "fails_fast (ag_infra_sre (production_agents h b) s)"
  "fails_fast (ag_security_reviewer (production_agents h b) s)"
  unfolding production_agents_simps diagnosis_run_def supervisor_run_def code_fixer_run_def infra_sre_run_def
    security_reviewer_run_def Let_def split_beta
  by (intro fails_fast_intros; auto split: exn.splits intro!: fails_fast_intros)+

subsection \<open>Nodes\<close>

text \<open>The nodes up to the reviewer ask a model, or lead to one that does.\<close>

fun asking :: "status \<Rightarrow> bool" where
  "asking (Running m) \<longleftrightarrow> m \<in> {Dispatch, ParseLog, DiagnosisNode, SupervisorRoute, CodeFixerNode, InfraSreNode, SecurityReviewer}"
| "asking _ \<longleftrightarrow> False"

lemma asking_never_again:
  assumes "\<not> asking (Running m)"
  shows "\<not> asking (th_status (step_node h ag m s w))"
proof -
  have "\<not> asking (th_status (follow m us s u))" for us u
    using assms by (cases m) (simp_all add: follow_def)
  then show ?thesis
    using assms by (auto simp: step_node_def split: prod.split sum.split option.split)
qed

text \<open>A node over the shared guard: within the budget, or one more bill and the incident asks no more.\<close>

lemma node_stops_asking:
  assumes t: "t = step_node h (production_agents h b) m s w" and g: "current_guard w = Inr g"
  shows "\<exists>g'. current_guard (th_world t) = Inr g' \<and>
    (within_budget g g' \<or> one_more_bill g g' \<and> asking (Running m) \<and> \<not> asking (th_status t))"
proof (cases "m \<in> {DiagnosisNode, SupervisorRoute, CodeFixerNode, InfraSreNode, SecurityReviewer}")
  case True
  then obtain agent where agent: "run_node h (production_agents h b) m = guarded agent" "fails_fast (agent s)"
    using agents_fail_fast [of h b s] by auto
  obtain r w' where r: "agent s w = (r, w')" by (cases "agent s w")
  have world: "th_world t = w'"
    unfolding t step_node_def using True agent(1) r
    by (auto simp: guarded_def io_catch_def follow_def Let_def split: sum.split option.split exn.split)
  from agent(2) g r show ?thesis
  proof (cases rule: fails_fastD)
    case (within g')
    with world show ?thesis by auto
  next
    case (over g')
    then have "guarded agent s w = (Inr [UCostExhausted True], w')"
      using r by (auto simp: budget_error_def guarded_def io_catch_def)
    then have "t = follow m [UCostExhausted True] s w'" using t True agent(1) by (auto simp: step_node_def)
    then have "\<not> asking (th_status t)"
      using True by (auto simp: follow_def or_cost_exhausted_def route_to_specialist_def)
    with over world True show ?thesis by auto
  qed
next
  case False
  have "current_guard (th_world t) = Inr g"
  proof (cases "m = SecurityGate")
    case True
    with g t show ?thesis by (auto simp: step_node_def follow_def security_gate_def Let_def split: option.split)
  next
    case gate: False
    obtain r w' where r: "run_node h (production_agents h b) m s w = (r, w')"
      by (cases "run_node h (production_agents h b) m s w")
    have "th_world t = w'"
      unfolding t step_node_def using gate r by (auto simp: follow_def Let_def split: sum.split option.split)
    moreover have "current_guard w' = Inr g"
    proof (cases m)
      case ParseLog
      with r g show ?thesis by (auto elim: parse_log_cases)
    next
      case VerifierNode
      with r g verifier_log show ?thesis by (fastforce simp: production_agents_simps only_docker_def)
    next
      case FormatReport
      with r g format_report_frame show ?thesis by fastforce
    next
      case CostExhausted
      with r g show ?thesis by (auto simp: cost_exhausted_node_def get_cost_guard_def)
    qed (use False gate r g in \<open>auto simp: dispatch_def\<close>)
    ultimately show ?thesis by simp
  qed
  then show ?thesis using within_budget_refl by blast
qed

subsection \<open>Every interleaving\<close>

text \<open>The incidents that ask no more, and the bill from the last moment within the budget on.\<close>

definition silent :: "nat \<Rightarrow> incidents \<Rightarrow> nat set" where
  "silent n c = {i. i < n \<and> \<not> asking (in_status (is_threads c i))}"

definition overshoot :: "nat \<Rightarrow> cost_guard \<Rightarrow> incidents \<Rightarrow> bool" where
  "overshoot n g c \<longleftrightarrow>
     (\<exists>paid late. current_guard (is_world c) = Inr (guard_run g (paid @ late)) \<and>
        \<not> over_budget (guard_run g paid) \<and> length late \<le> card (silent n c))"

lemma finite_silent [simp]: "finite (silent n c)"
  by (simp add: silent_def)

lemma silent_put:
  assumes "\<not> asking (in_status (is_threads c i)) \<Longrightarrow> \<not> asking (th_status t)"
  shows "silent n c \<subseteq> silent n (put_thread i r t c)"
proof
  fix j assume "j \<in> silent n c"
  with assms show "j \<in> silent n (put_thread i r t c)" by (cases "j = i") (simp_all add: silent_def)
qed

lemma overshoot_step:
  assumes ok: "overshoot n g c" and "i < n"
    and stays: "\<not> asking (in_status (is_threads c i)) \<Longrightarrow> \<not> asking (th_status t)"
    and g0: "current_guard (is_world c) = Inr g0" and g': "current_guard (th_world t) = Inr g'"
    and bill: "within_budget g0 g' \<or>
      one_more_bill g0 g' \<and> asking (in_status (is_threads c i)) \<and> \<not> asking (th_status t)"
  shows "overshoot n g (put_thread i r t c)"
proof -
  let ?c' = "put_thread i r t c"
  obtain paid late where now: "g0 = guard_run g (paid @ late)" "\<not> over_budget (guard_run g paid)"
    "length late \<le> card (silent n c)"
    using ok g0 by (auto simp: overshoot_def)
  have grows: "card (silent n c) \<le> card (silent n ?c')"
    using silent_put [OF stays] by (intro card_mono) simp_all
  text \<open>Up to a state within the budget the late bills start again from none.\<close>
  have split: "\<exists>paid late. g1 = guard_run g (paid @ late) \<and> \<not> over_budget (guard_run g paid) \<and>
      length late \<le> card (silent n c)" if within: "within_budget g0 g1" for g1
  proof -
    from within obtain bills where bills: "g1 = guard_run g0 bills" "bills = [] \<or> \<not> over_budget g1"
      by (auto simp: within_budget_def)
    show ?thesis
    proof (cases "bills = []")
      case True
      with bills now show ?thesis by auto
    next
      case False
      with bills now(1) show ?thesis
        by (intro exI [of _ "paid @ late @ bills"] exI [of _ "[]"]) (simp add: guard_run_append)
    qed
  qed
  from bill show ?thesis
  proof
    assume "within_budget g0 g'"
    from split [OF this] obtain p l where "g' = guard_run g (p @ l)" "\<not> over_budget (guard_run g p)"
      "length l \<le> card (silent n c)" by blast
    with grows show ?thesis
      unfolding overshoot_def put_thread_simps g' by (intro exI [of _ p] exI [of _ l]) simp
  next
    assume over: "one_more_bill g0 g' \<and> asking (in_status (is_threads c i)) \<and> \<not> asking (th_status t)"
    then obtain g1 b where g1: "within_budget g0 g1" "g' = guard_run g1 [b]" by (auto simp: one_more_bill_def)
    from split [OF g1(1)] obtain p l where pl: "g1 = guard_run g (p @ l)" "\<not> over_budget (guard_run g p)"
      "length l \<le> card (silent n c)" by blast
    have "i \<notin> silent n c" "i \<in> silent n ?c'" using over \<open>i < n\<close> by (simp_all add: silent_def)
    then have "silent n c \<subset> silent n ?c'" using silent_put [OF stays] by blast
    then have "card (silent n c) < card (silent n ?c')" by (intro psubset_card_mono) simp_all
    with pl g1(2) show ?thesis
      unfolding overshoot_def put_thread_simps g'
      by (intro exI [of _ p] exI [of _ "l @ [b]"]) (simp add: guard_run_append)
  qed
qed

lemma overshoot_reach:
  assumes "incidents_reach h (production_agents h b) n (incidents_start s w) c"
    and g: "current_guard w = Inr g" "\<not> over_budget g"
  shows "overshoot n g c"
  using assms(1) unfolding incidents_reach_def
proof (induction rule: rtranclp_induct)
  case base
  show ?case unfolding overshoot_def
    by (intro exI [of _ "[]"]) (simp add: incidents_start_def g)
next
  case (step c c')
  note ok = step.IH
  then obtain g0 where g0: "current_guard (is_world c) = Inr g0" by (auto simp: overshoot_def)
  from step.hyps(2) show ?case
  proof (cases rule: incidents_step_cases)
    case (node i m t)
    obtain g' where g': "current_guard (th_world t) = Inr g'"
      "within_budget g0 g' \<or> one_more_bill g0 g' \<and> asking (Running m) \<and> \<not> asking (th_status t)"
      using node_stops_asking [OF node(3) g0] by blast
    have "\<not> asking (in_status (is_threads c i)) \<Longrightarrow> \<not> asking (th_status t)"
      using asking_never_again node(2,3) by simp
    from overshoot_step [OF ok node(1) this g0 g'(1)] g'(2) node(2,4) show ?thesis by simp
  next
    case (resume i)
    show ?thesis unfolding resume(3)
      by (rule overshoot_step [OF ok resume(1) _ g0, where g' = g0]) (simp_all add: g0)
  qed
qed

subsection \<open>A run over a tripped guard\<close>

text \<open>
  The guard has no check before a call.  With a provider that replies, the first request is sent
  and paid, and only then the exception comes.
\<close>

lemma tripped_bill:
  assumes "current_guard w = Inr g" "guard_ok g" "guard_currency g = lit ''CNY''" "over_budget g" "0 \<le> dec_coeff cost"
  shows "\<exists>e. budget_error (Inl e :: unit result) \<and>
    bill h cost w = (Inl e, w\<lparr>guard := Some (guard_run g [(h_now h w, cost)])\<rparr>)"
proof -
  let ?now = "h_now h w"
  obtain r g' where acc: "accumulate ?now cost (guard_currency g) g = (r, g')"
    by (cases "accumulate ?now cost (guard_currency g) g")
  have g': "g' = guard_run g [(?now, cost)]" by (simp add: acc)
  have "dec_val (total_spent g) \<le> dec_val (total_spent g')"
    using accumulate_mono [OF assms(2,5), of ?now "guard_currency g"] acc by simp
  then have "over_budget g'"
    using assms(4) accumulate_frame(1) [of ?now cost "guard_currency g" g] acc by (simp add: over_budget_def)
  then obtain e where "r = Inl e" "budget_error (Inl e :: unit result)"
    using accumulate_outcome [of "guard_currency g" g ?now cost] acc by auto
  then show ?thesis using assms(1,3) acc by (simp add: bill_def flip: g')
qed

lemma tripped_diagnosis:
  assumes answers: "replying h reply p c" "askable (b ''diagnosis'')" "call_cost (b ''diagnosis'') p c = Some cost"
    and guard: "current_guard w = Inr g" "guard_ok g" "guard_currency g = lit ''CNY''" "over_budget g" "0 \<le> dec_coeff cost"
    and tid: "trace_id_ok (state_trace_id s)"
  shows "\<exists>req w' now. guarded (ag_diagnosis (production_agents h b)) s w = (Inr [UCostExhausted True], w') \<and>
    rq_agent_name req = lit ''diagnosis'' \<and>
    w' = w\<lparr>sdk_log := sdk_log w @ [req], guard := Some (guard_run g [(now, cost)])\<rparr>"
proof -
  let ?p = "fst (b ''diagnosis'')" and ?cfg = "snd (b ''diagnosis'')"
  define ms where "ms = system_user diagnosis_system_prompt
      (diagnosis_user_prompt
        (py_str (log_get (or_else (st_error_log s) []) ''service_name'' (JStr (lit ''unknown''))))
        (py_str (log_get (or_else (st_error_log s) []) ''error_type'' (JStr (lit ''unknown''))))
        (py_str (log_get (or_else (st_error_log s) []) ''message'' (JStr [])))
        (if truthy (log_get (or_else (st_error_log s) []) ''stack_trace'' JNull)
         then py_str (log_get (or_else (st_error_log s) []) ''stack_trace'' JNull) else lit ''(none)''))"
  define req where "req = request_of ms (cf_model ?cfg) (state_trace_id s) (lit ''diagnosis'') (cf_max_tokens ?cfg) (cf_temperature ?cfg)"
  define w1 where "w1 = w\<lparr>sdk_log := sdk_log w @ [req]\<rparr>"
  have "lit ''diagnosis'' \<noteq> []" "ms \<noteq> []" by (simp_all add: ms_def system_user_def)
  note req_ok = askable_request [OF answers(2) tid this]
  have "\<exists>resp. ask (provider_client h ?p) ?cfg (lit ''diagnosis'') (state_trace_id s) ms w =
      io_bind (bill h cost) (\<lambda>_. io_return resp) w1"
    using provider_replies [OF answers(1) req_ok _ guard(5), of "provider_prices ?p"] answers(3)
    unfolding w1_def req_def
    by (cases ?p)
      (auto simp: ask_def provider_client_def ark_complete_def glm_complete_def call_cost_def provider_prices_def
        split_beta)
  then obtain resp where ask: "ask (provider_client h ?p) ?cfg (lit ''diagnosis'') (state_trace_id s) ms w =
      io_bind (bill h cost) (\<lambda>_. io_return resp) w1" by blast
  have "current_guard w1 = Inr g" using guard(1) by (simp add: w1_def)
  from tripped_bill [OF this guard(2-5), of h] obtain e now
    where e: "budget_error (Inl e :: unit result)"
      and bill: "bill h cost w1 = (Inl e, w1\<lparr>guard := Some (guard_run g [(now, cost)])\<rparr>)" by blast
  have "ag_diagnosis (production_agents h b) s w = (Inl e, w1\<lparr>guard := Some (guard_run g [(now, cost)])\<rparr>)"
    unfolding production_agents_simps diagnosis_run_def Let_def ms_def [symmetric]
    by (intro io_bind_Inl) (simp add: ask bill)
  then have "guarded (ag_diagnosis (production_agents h b)) s w =
      (Inr [UCostExhausted True], w1\<lparr>guard := Some (guard_run g [(now, cost)])\<rparr>)"
    using e by (auto simp: guarded_def budget_error_def)
  then show ?thesis
    by (intro exI [of _ req] exI [of _ "w1\<lparr>guard := Some (guard_run g [(now, cost)])\<rparr>"] exI [of _ now])
      (simp add: w1_def req_def request_of_def)
qed

lemma tripped_run:
  fixes h b log_path tid w
  defines "t \<equiv> pipeline_thread h (production_agents h b) log_path (Some tid) w"
  assumes answers: "replying h reply p c" "askable (b ''diagnosis'')" "call_cost (b ''diagnosis'') p c = Some cost"
    and guard: "current_guard w = Inr g" "guard_ok g" "guard_currency g = lit ''CNY''" "over_budget g" "0 \<le> dec_coeff cost"
    and tid: "trace_id_ok tid" and log: "files w (path_str log_path) \<noteq> None"
      "parse_log h (initial_state (path_str log_path) (Some tid)) w = (Inr [UErrorLog (Some elog), UParseError None], w)"
  shows "run_pipeline h (production_agents h b) log_path (Some tid) w = (Inl path_of_none, th_world t)"
    and "st_agent_trace (th_state t) = [lit ''cost_guard_triggered'']"
    and "\<exists>req. sdk_log (th_world t) = sdk_log w @ [req] \<and> rq_agent_name req = lit ''diagnosis''"
    and "\<exists>now. current_guard (th_world t) = Inr (guard_run g [(now, cost)])"
    and "docker_log (th_world t) = docker_log w" "files (th_world t) = files w"
proof -
  let ?ag = "production_agents h b" and ?to = "\<lambda>k n u v. graph_run h (production_agents h b) k (thread_at (Running n) u v)"
  define s where "s = initial_state (path_str log_path) (Some tid)"
  define s1 where "s1 = merge_updates [UErrorLog (Some elog), UParseError None] s"
  define s2 where "s2 = merge_updates [UCostExhausted True] s1"
  have s: "st_trace_id s = Some tid" "st_agent_trace s = []" "st_report_path s = None" "st_analysis_error s = None"
    using tid by (auto simp: s_def initial_state_def nonempty_def trace_id_ok_def)
  have named: "nonempty (st_trace_id s)" "trace_id_ok (state_trace_id s1)"
    using s(1) tid by (auto simp: nonempty_def trace_id_ok_def s1_def state_trace_id_def)
  from tripped_diagnosis [of h reply p c b, OF answers guard named(2)] obtain req w1 now
    where diag: "guarded (ag_diagnosis ?ag) s1 w = (Inr [UCostExhausted True], w1)"
      and req: "rq_agent_name req = lit ''diagnosis''"
      and w1: "w1 = w\<lparr>sdk_log := sdk_log w @ [req], guard := Some (guard_run g [(now, cost)])\<rparr>" by blast
  define s3 where "s3 = merge_updates
      [UCost (fl_of_decimal (total_spent (guard_run g [(now, cost)]))), UAgentTrace [lit ''cost_guard_triggered'']] s2"
  have fuel: "graph_fuel = Suc (Suc (Suc (Suc 5)))" by (simp add: graph_fuel_def)
  have "?to (Suc k) Dispatch s w = ?to k ParseLog s w" for k
    using named(1) graph_run_answer [of Dispatch h ?ag s w "[]" w ParseLog] by (simp add: dispatch_def)
  moreover have "?to (Suc k) ParseLog s w = ?to k DiagnosisNode s1 w" for k
    unfolding s1_def using log(2) by (intro graph_run_answer) (simp_all add: s_def route_after_parse_def nonempty_def)
  moreover have "?to (Suc k) DiagnosisNode s1 w = ?to k CostExhausted s2 w1" for k
    unfolding s2_def using diag by (intro graph_run_answer) (simp_all add: or_cost_exhausted_def)
  moreover have "?to (Suc 5) CostExhausted s2 w1 = thread_at Finished s3 w1"
    by (simp add: step_node_def cost_exhausted_node_def get_cost_guard_def w1 follow_def s3_def numeral_eq_Suc)
  ultimately have t: "t = thread_at Finished s3 w1"
    unfolding t_def pipeline_thread_def graph_invoke_def fuel s_def [symmetric] by (simp only:)
  have s3: "st_agent_trace s3 = [lit ''cost_guard_triggered'']" "st_report_path s3 = None"
    "st_parse_error s3 = None" "st_analysis_error s3 = None"
    using s by (simp_all add: s3_def s2_def s1_def)
  then have "pipeline_outcome t = Inl path_of_none" by (simp add: t pipeline_outcome_def nonempty_def)
  then show "run_pipeline h ?ag log_path (Some tid) w = (Inl path_of_none, th_world t)"
    using log(1) by (auto simp: run_pipeline_def Let_def simp flip: t_def)
  show "st_agent_trace (th_state t) = [lit ''cost_guard_triggered'']" using s3(1) by (simp add: t)
  show "\<exists>req. sdk_log (th_world t) = sdk_log w @ [req] \<and> rq_agent_name req = lit ''diagnosis''"
    using req by (auto simp: t w1)
  show "\<exists>now. current_guard (th_world t) = Inr (guard_run g [(now, cost)])"
    by (auto simp: t w1 get_cost_guard_def)
  show "docker_log (th_world t) = docker_log w" "files (th_world t) = files w" by (simp_all add: t w1)
qed

end
