(* ===== verification/Spec2Isabelle.thy ===== *)
theory Spec2Isabelle
  imports Samples Scripts Lifecycle GuardThreads Overshoot
begin

text \<open>
  A verification development for AutoSentinel, a LangGraph pipeline that reads the crash log of
  a service, lets language-model agents classify it and write a repair script, reviews the
  script, runs it in a Docker sandbox and files a report.

  \<^bold>\<open>The program and the theories.\<close>  One incident is one run of a graph of nodes over a shared
  state (\<^verbatim>\<open>src/autosentinel/multi_agent_graph.py\<close>).  The nodes call agents, the agents call
  clients, and every client bills one process-wide cost guard.

  \<^item> \<open>Prelude\<close>, \<open>PyText\<close>, \<open>PyDecimal\<close>, \<open>PyFloat\<close>, \<open>PyExn\<close>, \<open>PyJson\<close>, \<open>PyJsonLaws\<close>, \<open>PyPath\<close>: the
    parts of Python the program uses.  Texts are lists of code points (\<open>ustr\<close>); \<open>decimal\<close> is
    \<^verbatim>\<open>decimal.Decimal\<close> at 28 digits, half to even; \<open>pyfloat\<close> is IEEE binary64; a computation is a
    function from a world to a result or an exception (\<open>exn\<close>) and the next world, so what was
    done before an exception stays done.  \<open>PyJson\<close> has the decoder and encoder of \<^verbatim>\<open>json\<close>, and
    \<open>PyJsonLaws\<close> the round trip between them.
  \<^item> \<open>CostGuard\<close>: \<^verbatim>\<open>llm/cost_guard.py\<close>, the budget state and its operations, each atomic.
    \<open>GuardThreads\<close>: the same code in single steps under its two locks, for any number of threads.
  \<^item> \<open>LlmProtocol\<close>: \<^verbatim>\<open>llm/protocol.py\<close>, \<^verbatim>\<open>llm/errors.py\<close>.  The \<^verbatim>\<open>LLMClient\<close> protocol is the locale
    \<open>llm_client\<close>, and \<open>metered_client\<close> extends it by the laws of billing.
  \<^item> \<open>World\<close>: the state the process shares (environment, guard, files, the calls made so far to
    the providers and the container engine) and \<open>host\<close>, the behaviour of everything outside.
  \<^item> \<open>LlmClients\<close>: \<^verbatim>\<open>llm/ark_client.py\<close>, \<^verbatim>\<open>llm/glm_client.py\<close>, \<^verbatim>\<open>llm/mock_client.py\<close>, interpreted as
    clients.  \<open>Factory\<close>: \<^verbatim>\<open>llm/factory.py\<close>, routing configuration and construction.
  \<^item> \<open>Models\<close>: \<^verbatim>\<open>models.py\<close>, the state of an incident and the merge of a node's answer.
  \<^item> \<open>Artifacts\<close>, \<open>Prompts\<close>, \<open>Agents\<close>, \<open>Verifier\<close>: \<^verbatim>\<open>agents/\<close>, one definition per step, one \<open>run\<close>
    function per agent.  \<open>Nodes\<close>: \<^verbatim>\<open>nodes/\<close>, the log parser and the report.
  \<^item> \<open>Graph\<close>: the nodes, routers, edges, interrupt and resumption; execution as a function with
    fuel and as the step relation \<open>graph_step\<close>.  \<open>Team\<close>: what the graph relies on in its agents, the
    locale \<open>agent_team\<close>, with the invariants that follow from it.  \<open>Production\<close>: the agents the module
    builds, a team, and what they spend.  \<open>Checkpoints\<close>: where suspended threads are kept.
    \<open>Incidents\<close>: several runs of that graph interleaved over one process.  \<open>Completion\<close>: a run in
    which nothing goes wrong.  \<open>Overshoot\<close>: what is paid beyond the budget.
  \<^item> \<open>Pipeline\<close>: \<^verbatim>\<open>__init__.py\<close>, \<^verbatim>\<open>__main__.py\<close>.  \<open>Tracing\<close>: \<^verbatim>\<open>tracing.py\<close>, the call of it in
    \<^verbatim>\<open>run_pipeline\<close>, and the spans of the clients.
  \<^item> \<open>Results\<close>, \<open>GatewayLog\<close>, \<open>Queue\<close>, \<open>Gateway\<close>, \<open>Lifecycle\<close>: \<^verbatim>\<open>api/\<close>, the sidecar store and its search,
    the log formatter, the job queue and its worker, the HTTP handlers, and the end of the process.
  \<^item> \<open>PyRound\<close>: error bounds of the floating-point operations.  \<open>Benchmark\<close>, \<open>BenchmarkRunner\<close>,
    \<open>Scripts\<close>: \<^verbatim>\<open>benchmark.py\<close> and \<^verbatim>\<open>scripts/\<close>.  \<open>Samples\<close>: the instances of the parameters on which
    the properties with hypotheses are applied.

  \<^bold>\<open>What the lemmas show.\<close>  The client laws (\<open>client_laws\<close>, the locale lemmas and the
  interpretations \<open>ark\<close>, \<open>glm\<close>, \<open>mock\<close>, \<open>built\<close>) say what one call does to the guard and to the
  log of requests.  The agent laws (\<open>*_answer\<close>, \<open>*_tripped\<close>, \<open>agent_steps\<close>) say which keys a node
  may answer and that it only spends.  \<open>Graph\<close> proves the step relation deterministic and every
  run finite; \<open>Team\<close> proves the stage invariant (which keys are set where), that a failure is always
  a node's own exception and never a router's (\<open>node_raised\<close>), the trace of identifiers and the safety
  of the sandbox by induction over the steps, for the production agents (\<open>prod\<close>) and the mock ones
  (\<open>mocked\<close>); \<open>Production\<close> proves the billing invariant, \<open>Pipeline\<close> what is on disk and in the state
  of a completed run (\<open>filed\<close>, \<open>completed_keys\<close>).
  \<open>Incidents\<close> lifts these to every interleaving of several runs.  \<open>GuardThreads\<close> proves that each call
  of the guard takes effect at once (\<open>in_order\<close>), that no update is lost and that the locks cannot
  deadlock.  \<open>Tracing\<close> proves \<^verbatim>\<open>run_pipeline\<close> the same with and without tracing.  \<open>Completion\<close> shows that a run in
  which nothing fails reaches its report, with the production agents, every call and cost accounted
  for, and (\<open>BenchmarkRunner\<close>) with the mock ones.  \<open>Overshoot\<close> shows that an agent stops at the call that
  crosses the limit (\<open>fails_fast\<close>), which bounds what any number of incidents pays beyond it.
  \<open>Gateway\<close> proves the invariant of the service and what the status route makes of a run's state;
  \<open>Lifecycle\<close> that a job lost by a restart stays lost whatever comes later (\<open>later_step\<close>, \<open>unserved\<close>).  The numbered properties follow from
  these; the unnumbered ones are smaller laws of single operations.

  \<^bold>\<open>Threads.\<close>  The program has two kinds of shared state: the guard, whose every access is a step of
  \<open>GuardThreads\<close>, and the rest of the world, where the grain is one node of one incident
  (\<open>Incidents\<close>) or one request of the gateway (\<open>Gateway\<close>).

  \<^bold>\<open>Bounds and fuel.\<close>  \<open>graph_run\<close> takes fuel; \<open>remaining\<close> measures the longest way to a stop and is
  at most nine, which is \<open>graph_fuel\<close>, and \<open>graph_run_enough\<close> says that more changes nothing.  The
  JSON decoder takes twice the length of its input and two; \<open>parse_not_starved\<close> says that this is
  never used up.

  \<^bold>\<open>Not modelled.\<close>  What is outside the repository is a parameter: the provider SDK, the container
  engine, the file system's failures, the tracing packages, \<^verbatim>\<open>git\<close>, the YAML reader, \<^verbatim>\<open>load_dotenv\<close>, the HTTP framework
  with its validation of requests.  Left out: log handlers and printed tables, argument parsing;
  what the SDK does with its settings; interleavings inside a node other than the guard's;
  interpreter limits (recursion depth, digits of an integer); the final-sigma rule of \<^verbatim>\<open>str.lower\<close>;
  \<^verbatim>\<open>str.isprintable\<close> above U+00FF beyond surrogates and separators; pydantic's refusal of lone
  surrogates; what LangGraph does with a resume command for a thread that is not suspended.
\<close>

section \<open>The pipeline\<close>

text \<open>
  C1 Safety of the approval gate.  Run the production graph from any state and any world, over
  any behaviour of the providers, the compiler and the container engine.  When it stops, either
  no container call was made at all, or the calls are one sandbox session of the state's own
  normalised artifact, and then neither the artifact nor the code that ran matches the deny
  list and the verdict was SAFE or CAUTION.  A HIGH_RISK or denied fix never runs before a
  human resumes the thread.
\<close>

theorem denied_fix_never_runs:
  "let t = graph_invoke h (production_agents h built) s w in
   docker_log (th_world t) = docker_log w \<or>
   (\<exists>artifact code evs.
      st_fix_artifact (th_state t) = Some artifact \<and> executed_code h (th_state t) = Some code \<and>
      docker_log (th_world t) = docker_log w @ evs \<and> sandbox_session code evs \<and>
      \<not> deny_listed artifact \<and> \<not> deny_listed code \<and>
      st_security_verdict (th_state t) \<in> {Some (lit ''SAFE''), Some (lit ''CAUTION'')})"
  using thread_safe_executes [OF prod.invoke_safe] by (simp add: Let_def)

text \<open>
  C2 Every outcome of \<^verbatim>\<open>run_pipeline\<close> on an existing log.  The thread completed, and then the
  report and the sidecar are on disk and the resolved report path is returned; or the log did
  not parse and \<^verbatim>\<open>DiagnosticError\<close> is raised before any agent signed the trace; or the budget
  stopped it, or it waits for approval, and then \<^verbatim>\<open>Path(None)\<close> raises \<^verbatim>\<open>TypeError\<close>; or a node
  raised, and the pipeline raises that exception.
\<close>

theorem pipeline_outcome_cases:
  "let t = pipeline_thread h (production_agents h built) log_path trace_id w; s = th_state t in
   (th_status t = Finished \<and> completed s \<and> filed h s (th_world t) \<and>
      pipeline_outcome t = Inr (path_str (h_resolve h (report_file s)))) \<or>
   (th_status t = Finished \<and> parse_failure s \<and>
      pipeline_outcome t = Inl (DiagnosticError (the (st_parse_error s)))) \<or>
   (th_status t = Finished \<and> budget_stop s \<and> pipeline_outcome t = Inl path_of_none) \<or>
   (th_status t = Suspended \<and> stage SecurityGate s \<and> pipeline_outcome t = Inl path_of_none) \<or>
   (\<exists>n e. th_status t = Failed n e \<and> stage n s \<and> pipeline_outcome t = Inl e)"
  by (rule pipeline_cases [OF refl, of h built log_path trace_id w]) (simp_all add: Let_def)

text \<open>
  The resume decision is ignored.  Whatever two values a suspended thread is resumed with,
  approval or rejection, the result is the same thread: state, world and container calls.
\<close>

lemma resume_decision_ignored:
  "graph_resume h ag approve t = graph_resume h ag reject t"
  by (simp add: graph_resume_def security_gate_def Let_def split: status.split)

text \<open>
  C3 Resuming executes.  The container calls of a resumed thread are those of the verifier on
  the suspended artifact, whatever the decision was; a thread that is not suspended is not
  resumed.
\<close>

theorem resume_runs_verifier:
  "map_option (\<lambda>t'. docker_log (th_world t')) (graph_resume h (production_agents h built) decision t) =
   (if th_status t = Suspended
    then Some (docker_log (snd (verifier_run h (approved (th_state t)) (th_world t))))
    else None)"
proof (cases "th_status t = Suspended")
  case True
  then obtain t' where "graph_resume h (production_agents h built) decision t = Some t'"
    by (simp add: resume_eq)
  with True show ?thesis using resume_docker by fastforce
qed (simp add: graph_resume_def split: status.split)

text \<open>
  C4 Trace identifiers.  The state ends with the trace id it was given, or with the one the
  dispatch node drew, and every provider request of the run carries that same id.
\<close>

theorem requests_carry_trace_id:
  "let t = graph_invoke h (production_agents h built) s w in
   st_trace_id (th_state t) = Some (run_trace_id h s w) \<and>
   (\<exists>reqs. sdk_log (th_world t) = sdk_log w @ reqs \<and>
      list_all (\<lambda>r. rq_trace_id r = run_trace_id h s w) reqs)"
  using prod.invoke_traced [of h s w built] by (simp add: Let_def thread_traced_def list_all_iff)

text \<open>
  Termination.  Whatever the agents are, \<^verbatim>\<open>graph.invoke\<close> stops: the thread has finished,
  failed or is suspended at the gate, never still at a node.
\<close>

lemma graph_invoke_stops: "th_status (graph_invoke h ag s w) \<noteq> Running n"
  by (rule invoke_stops)

text \<open>
  C5 The shape of a run.  The thread of a pipeline run satisfies the stage invariant of where it
  stopped: parsed log, valid category, specialist, routing sentence and verdict once their node has
  passed, a trimmed artifact, and an \<^verbatim>\<open>agent_trace\<close> that is the prefix of the roll of agents up
  to there, closed by the budget marker exactly when the budget stopped it.  A failed thread got
  its exception from a node: the run reached that node in that state, and the node's own call, not
  the gate and not a router, raised the exception and left the world as the thread has it.  So no
  router of the graph ever raises, whatever the providers answer.
\<close>

theorem pipeline_staged:
  "let ag = production_agents h built;
       start = thread_at (Running Dispatch) (initial_state (path_str log_path) trace_id) w;
       t = pipeline_thread h ag log_path trace_id w in
   thread_staged t \<and>
   (case th_status t of
      Failed n e \<Rightarrow> n \<noteq> SecurityGate \<and>
        (\<exists>w'. graph_reaches h ag start (thread_at (Running n) (th_state t) w') \<and>
              run_node h ag n (th_state t) w' = (Inl e, th_world t))
    | _ \<Rightarrow> True)"
  using prod.invoke_staged [OF initial_fresh] prod.invoke_blames [OF initial_fresh]
  by (simp add: pipeline_thread_def node_raised_def Let_def)

text \<open>
  C6 A budget stop is honest.  A pipeline thread marked as exhausted runs over a guard whose
  total exceeds its budget, and when it has finished the state mirrors that total.
\<close>

theorem budget_stop_mirrors_guard:
  "thread_billed (pipeline_thread h (production_agents h built) log_path trace_id w)"
  unfolding pipeline_thread_def by (rule invoke_billed [OF initial_fresh])

text \<open>
  C7 A run that goes right, and what it costs.  Let the providers answer every request, the budget
  cover one call of each of the four agents on the way, and the log parse; let the generated fix
  compile and match no deny-list keyword, the reviewer's verdict be anything but HIGH_RISK, and
  nothing fail in the sandbox.  Then \<^verbatim>\<open>run_pipeline\<close> goes through every node: it returns the report's
  path, or raises what writing the report raised.  The state has the specialist and the fix the
  replies chose and the exit code of the container; the providers saw four requests, in the order
  of the agents; the container engine saw one session of that fix; and the guard holds its old
  total plus exactly the four costs, four calls more, still within its limit.
\<close>

theorem production_run_accounted:
  assumes "answering h b reply p c cost" "affordable w (map cost (agents_asked reply))"
    and "trace_id_ok tid" "files w (path_str log_path) \<noteq> None"
    and "parse_log h (initial_state (path_str log_path) (Some tid)) w = (Inr [UErrorLog (Some elog), UParseError None], w)"
    and "\<not> deny_listed (fix_reply reply)" "h_compile h (fix_reply reply) = Compiles" "strip (fix_reply reply) \<noteq> []"
    and "parse_verdict (reply (lit ''security_reviewer'')) \<noteq> lit ''HIGH_RISK''"
    and "calm_sandbox h code"
  shows "let t = pipeline_thread h (production_agents h b) log_path (Some tid) w; s' = th_state t; w' = th_world t in
    (\<exists>r. run_pipeline h (production_agents h b) log_path (Some tid) w = (r, w') \<and>
       (th_status t = Finished \<and> r = Inr (path_str (the (st_report_path s'))) \<or>
        (\<exists>e. th_status t = Failed FormatReport e \<and> r = Inl e))) \<and>
    st_specialist s' = Some (fst (parse_routing (reply (lit ''supervisor'')))) \<and>
    st_fix_artifact s' = Some (fix_reply reply) \<and>
    map_option ex_return_code (st_execution_result s') = Some (Some code) \<and>
    (\<exists>reqs. sdk_log w' = sdk_log w @ reqs \<and> map rq_agent_name reqs = map lit (agents_asked reply)) \<and>
    (\<exists>evs. docker_log w' = docker_log w @ evs \<and> sandbox_session (fix_reply reply) evs) \<and>
    (\<exists>g g'. current_guard w = Inr g \<and> current_guard w' = Inr g' \<and>
       total_spent g' = foldl dec_add (total_spent g) (map cost (agents_asked reply)) \<and>
       call_count g' = call_count g + 4 \<and> \<not> over_budget g')"
  using production_run_completes [OF assms] unfolding Let_def by blast

theorem production_run_accounted_witness:
  "let w' = snd (run_pipeline (calm_host 0) (production_agents (calm_host 0) sample_built) (lit ''log.json'')
        (Some (replicate 32 97)) logged_world) in
     length (sdk_log w') = 4 \<and> docker_log w' \<noteq> [] \<and>
     (\<exists>g. current_guard w' = Inr g \<and> call_count g = 4 \<and> total_spent g = Dec 144 (- 6))"
proof -
  let ?w = logged_world and ?tid = "replicate 32 97 :: ustr"
  let ?w' = "th_world (pipeline_thread (calm_host 0) (production_agents (calm_host 0) sample_built)
    (lit ''log.json'') (Some ?tid) ?w)"
  have log: "files ?w (path_str (lit ''log.json'')) \<noteq> None" using sample_path by (simp add: logged_world_def)
  have fixed: "h_compile (calm_host 0) (fix_reply sample_reply) = Compiles" "strip (fix_reply sample_reply) \<noteq> []"
    "\<not> deny_listed (fix_reply sample_reply)" "parse_verdict (sample_reply (lit ''security_reviewer'')) \<noteq> lit ''HIGH_RISK''"
    using sample_reply_allowed by (simp_all add: calm_host_def sample_reply_facts sample_reply_def)
  note run = production_run_accounted [OF sample_answering sample_affordable sample_token log sample_log_text fixed(3,1,2,4) sample_calm,
      unfolded Let_def]
  from run have "snd (run_pipeline (calm_host 0) (production_agents (calm_host 0) sample_built) (lit ''log.json'')
      (Some ?tid) ?w) = ?w'" by auto
  moreover from run obtain reqs where "sdk_log ?w' = reqs" "map rq_agent_name reqs = map lit (agents_asked sample_reply)"
    using logged_world_untouched by auto
  then have "length (sdk_log ?w') = 4"
    by (auto simp: sample_reply_facts map_eq_Cons_conv)
  moreover from run obtain evs where "docker_log ?w' = evs" "sandbox_session (fix_reply sample_reply) evs"
    using logged_world_untouched by auto
  then have "docker_log ?w' \<noteq> []" by (auto simp: sandbox_session_def)
  moreover have "current_guard ?w = Inr sample_guard"
    by (simp add: logged_world_def sample_world_def get_cost_guard_def)
  with run have "\<exists>g. current_guard ?w' = Inr g \<and> call_count g = 4 \<and> total_spent g = Dec 144 (- 6)"
    using sample_total by (auto simp: sample_guard_def)
  ultimately show ?thesis by (simp only: Let_def) blast
qed

section \<open>Several incidents at once\<close>

text \<open>
  C8 Safety under interleaving.  Let any number of incidents run over one process, node by node
  in any order, some of them resumed by a human on the way.  The container calls since the start
  are one sandbox session after the other, at most one per incident, each of that incident's own
  normalised artifact; an incident that was not resumed has neither a denied artifact nor a
  verdict other than SAFE or CAUTION.
\<close>

theorem incidents_containers_safe:
  assumes "incidents_reach h (production_agents h built) n (incidents_start s w) c"
  shows "\<exists>sessions. distinct (map fst sessions) \<and>
    docker_log (is_world c) = docker_log w @ concat (map (snd \<circ> snd) sessions) \<and>
    list_all (\<lambda>(i, code, evs).
      sandbox_session code evs \<and> executed_code h (in_state (is_threads c i)) = Some code \<and>
      (in_resumed (is_threads c i) \<or>
       \<not> deny_listed code \<and>
       st_security_verdict (in_state (is_threads c i)) \<in> {Some (lit ''SAFE''), Some (lit ''CAUTION'')})) sessions"
  using containers_ok_sessions [OF incidents_containers [OF assms]] .

theorem incidents_containers_safe_witness:
  "\<exists>sessions :: (nat \<times> ustr \<times> docker_event list) list. distinct (map fst sessions) \<and>
     docker_log (is_world lone_incident) = concat (map (snd \<circ> snd) sessions)"
  using incidents_containers_safe [OF lone_incident_reached] unfolding logged_world_untouched append_Nil by blast

text \<open>
  C9 Requests have owners.  Under every interleaving each provider request made since the start
  carries the trace id of one of the incidents that have left the dispatch node.
\<close>

theorem incidents_requests_owned:
  assumes "incidents_reach h (production_agents h built) n (incidents_start s w) c"
  shows "\<exists>reqs. sdk_log (is_world c) = sdk_log w @ reqs \<and>
    list_all (\<lambda>r. \<exists>i < n. in_status (is_threads c i) \<noteq> Running Dispatch \<and>
      st_trace_id (in_state (is_threads c i)) = Some (rq_trace_id r)) reqs"
  using incidents_traced [OF assms] by (auto simp: requests_owned_def list_all_iff)

theorem incidents_requests_owned_witness:
  "list_all (\<lambda>r. \<exists>i < 1. in_status (is_threads lone_incident i) \<noteq> Running Dispatch \<and>
      st_trace_id (in_state (is_threads lone_incident i)) = Some (rq_trace_id r)) (sdk_log (is_world lone_incident))"
  using incidents_requests_owned [OF lone_incident_reached] unfolding logged_world_untouched append_Nil by auto

text \<open>
  C10 Every interleaving ends.  However the incidents' nodes and resumptions interleave, and
  whatever the agents are, \<open>n\<close> incidents make at most \<open>18 * n\<close> steps, and as long as one of them is
  at a node some incident can go on.
\<close>

theorem incidents_all_stop:
  assumes "(incidents_step h ag n ^^ k) (incidents_start s w) c"
  shows "k \<le> 18 * n \<and>
    ((\<forall>i < n. \<forall>m. in_status (is_threads c i) \<noteq> Running m) \<or> (\<exists>c'. incidents_step h ag n c c'))"
  using assms by (rule incidents_stop)

theorem incidents_all_stop_witness:
  "\<exists>c'. incidents_step (calm_host 0) (production_agents (calm_host 0) sample_built) 2
     (incidents_start (\<lambda>_. initial_state [] None) (sample_world sample_guard)) c'"
  using incidents_all_stop [where n = 2 and k = 0 and s = "\<lambda>_. initial_state [] None" and h = "calm_host 0"
      and ag = "production_agents (calm_host 0) sample_built" and w = "sample_world sample_guard"]
  by (force simp: incidents_start_def dest: spec [of _ 0])

text \<open>
  C11 One budget for all.  Under every interleaving the total never falls and a guard that is over
  its budget stays so; once it is, an incident at a node that needs a model's answer goes to the
  budget stop or fails there, whichever incident spent the money.
\<close>

theorem incidents_share_budget:
  assumes "incidents_reach h (production_agents h built) n c c'" "world_ok (is_world c)"
    and "t = step_node h (production_agents h built) m s (is_world c')"
    and "m \<in> {DiagnosisNode, SupervisorRoute, CodeFixerNode, InfraSreNode}"
  shows "world_spent (is_world c) \<le> world_spent (is_world c') \<and>
    (world_tripped (is_world c) \<longrightarrow>
      world_tripped (is_world c') \<and> (th_status t = Running CostExhausted \<or> (\<exists>e. th_status t = Failed m e)))"
  using incidents_metered [OF assms(1,2)] tripped_node_stops [OF _ _ assms(4,3)] by (auto simp: metered_def)

theorem incidents_share_budget_witness:
  "let w = sample_world (sample_guard\<lparr>total_spent := Dec 151 0\<rparr>);
       t = step_node (calm_host 0) (production_agents (calm_host 0) sample_built) DiagnosisNode (initial_state [] None) w
   in th_status t = Running CostExhausted \<or> (\<exists>e. th_status t = Failed DiagnosisNode e)"
proof -
  let ?w = "sample_world (sample_guard\<lparr>total_spent := Dec 151 0\<rparr>)"
  have w: "world_ok ?w" "world_tripped ?w"
    by (simp_all add: sample_world_def sample_guard_def world_ok_def world_tripped_def guard_ok_def
        dec_wf_def dec_prec_def currencies_def over_budget_def dec_val_def)
  let ?c = "incidents_start (\<lambda>_. initial_state [] None) ?w"
  have "is_world ?c = ?w" by (simp add: incidents_start_def)
  moreover have "incidents_reach (calm_host 0) (production_agents (calm_host 0) sample_built) 1 ?c ?c"
    by (simp add: incidents_reach_def)
  ultimately show ?thesis
    using incidents_share_budget [where c = ?c and c' = ?c and m = DiagnosisNode and n = 1 and h = "calm_host 0"
        and built = sample_built and s = "initial_state [] None", OF _ _ refl] w by (simp add: Let_def)
qed

text \<open>
  C12 The overshoot is bounded.  Start \<open>n\<close> incidents over a guard that is within its budget and
  interleave their nodes in any order.  Then the bills since the start are some that left the guard
  within its budget, followed by at most one for each incident that asks no model any more; so at
  most \<open>n\<close> calls are paid from the one that crosses the limit on, and a single run overshoots by
  its last call only.
\<close>

theorem overshoot_bounded:
  assumes "incidents_reach h (production_agents h b) n (incidents_start s w) c"
    and "current_guard w = Inr g" "\<not> over_budget g"
  shows "\<exists>paid late. current_guard (is_world c) = Inr (guard_run g (paid @ late)) \<and>
    \<not> over_budget (guard_run g paid) \<and>
    length late \<le> card {i. i < n \<and> \<not> asking (in_status (is_threads c i))} \<and> length late \<le> n"
proof -
  have "{i. i < n \<and> \<not> asking (in_status (is_threads c i))} \<subseteq> {..<n}" by auto
  from card_mono [OF _ this] have "card (silent n c) \<le> n" by (simp add: silent_def)
  with overshoot_reach [OF assms] show ?thesis unfolding overshoot_def silent_def by (meson le_trans)
qed

theorem overshoot_bounded_witness:
  "let g = sample_guard\<lparr>total_spent := dec_zero, budget_limit := Dec 1 (-4)\<rparr>; w = funded_world dec_zero (Dec 1 (-4));
       t = graph_invoke (calm_host 0) (production_agents (calm_host 0) sample_built) sample_incident w
   in \<exists>paid late. current_guard (th_world t) = Inr (guard_run g (paid @ late)) \<and>
        \<not> over_budget (guard_run g paid) \<and> length late \<le> 1"
proof -
  have "\<not> over_budget (sample_guard\<lparr>total_spent := dec_zero, budget_limit := Dec 1 (-4)\<rparr>)"
    by (simp add: over_budget_def dec_val_def dec_zero_def)
  from overshoot_bounded [OF sole_invoke funded_world_simps(3) this, where s = "\<lambda>_. sample_incident"]
  show ?thesis unfolding Let_def put_thread_simps by blast
qed

section \<open>Sandbox and review\<close>

text \<open>
  The verifier's containers.  One verification makes either no container call, or the calls
  of one session on the normalised code of the state: a run with the network off, the memory
  limit and the read-only mount, and, once a container exists, its removal as the last call.
\<close>

lemma verifier_one_session:
  "\<exists>evs. docker_log (snd (verifier_run h s w)) = docker_log w @ evs \<and>
     (evs = [] \<or> (\<exists>code. executed_code h s = Some code \<and> sandbox_session code evs))"
  using verifier_log [of h s w "fst (verifier_run h s w)" "snd (verifier_run h s w)"] by simp

text \<open>
  C13 The normaliser.  It raises what compiling raises; otherwise a rejected artifact has no code
  and a reason, and everything else has no reason and code that compiles.
\<close>

theorem normalizer_sound:
  "case normalize_fix_artifact h a of
     Inl e \<Rightarrow> (\<exists>c m. e = OtherError c m)
   | Inr na \<Rightarrow>
       if na_outcome na = Rejected then na_code na = [] \<and> na_reason na \<noteq> None
       else na_reason na = None \<and> h_compile h (na_code na) = Compiles \<and>
            na_code na \<in> {a, wrap_artifact a}"
proof (cases "normalize_fix_artifact h a")
  case (Inl e)
  then show ?thesis
    by (auto simp: normalize_fix_artifact_def compile_error_def res_bind_def
        split: if_splits compile_outcome.splits sum.splits)
next
  case (Inr na)
  note ok = this
  show ?thesis
    unfolding Inr sum.case using ok by (cases rule: normalize_cases) (simp_all add: rejected_def)
qed

text \<open>
  Wrapping is transparent to the review.  The deny list finds a keyword in the wrapped code
  exactly when it finds one in the artifact, so the verdict on the artifact is the verdict on
  what runs.
\<close>

lemma wrapper_keeps_verdict: "deny_listed (wrap_artifact a) \<longleftrightarrow> deny_listed a"
  by (rule deny_listed_wrap)

section \<open>Budget\<close>

text \<open>
  Exact totals.  As long as no cost is finer than \<open>10 ^ - k\<close> and the sum stays below
  \<open>10 ^ (28 - k)\<close>, the guard's total after any sequence of calls is the exact sum: no addition
  rounds, so the order of concurrent calls does not matter.
\<close>

lemma guard_total_exact:
  assumes "fine_grained k (total_spent g)" "\<forall>(now, c) \<in> set calls. fine_grained k c" "k \<le> dec_prec"
    and "dec_val (total_spent g) + (\<Sum>(now, c) \<leftarrow> calls. dec_val c) < 10 ^ (dec_prec - k)"
  shows "dec_val (total_spent (guard_run g calls)) =
         dec_val (total_spent g) + (\<Sum>(now, c) \<leftarrow> calls. dec_val c)"
  by (rule guard_run_exact [OF assms])

lemma guard_total_exact_example:
  "dec_val (total_spent (guard_run sample_guard [([], Dec 5 (-3)), ([], Dec 25 (-2))])) =
   dec_val (Dec 5 (-3)) + dec_val (Dec 25 (-2))"
  using guard_total_exact [of 3 sample_guard "[([], Dec 5 (-3)), ([], Dec 25 (-2))]"]
  by (simp add: sample_guard_def fine_grained_def dec_zero_def dec_val_def dec_prec_def power_int_minus)

text \<open>
  C14 The call that trips.  Under the same bounds, the next call after any sequence of calls raises
  exactly when the exact sum of all costs so far, its own included, is strictly above the budget,
  and the raised error carries the new total; the total is updated whether it raises or not.
\<close>

theorem budget_trips_exactly:
  assumes "fine_grained k (total_spent g)" "\<forall>(now, c) \<in> set (calls @ [(now, c)]). fine_grained k c" "k \<le> dec_prec"
    and "dec_val (total_spent g) + (\<Sum>(now, c) \<leftarrow> calls @ [(now, c)]. dec_val c) < 10 ^ (dec_prec - k)"
  shows "let spent = dec_val (total_spent g) + (\<Sum>(now, c) \<leftarrow> calls. dec_val c) + dec_val c;
      (r, g') = accumulate now c (guard_currency g) (guard_run g calls)
    in dec_val (total_spent g') = spent \<and>
      r = (if dec_val (budget_limit g) < spent
           then Inl (CostGuardError (total_spent g') c (budget_limit g) (guard_currency g)) else Inr ())"
proof -
  have run: "guard_run g (calls @ [(now, c)]) = snd (accumulate now c (guard_currency g) (guard_run g calls))" for now c
    by (induction g calls rule: guard_run.induct) (simp_all add: accumulate_frame)
  obtain r g' where a: "accumulate now c (guard_currency g) (guard_run g calls) = (r, g')"
    by (cases "accumulate now c (guard_currency g) (guard_run g calls)")
  have "dec_val (total_spent g') = dec_val (total_spent g) + (\<Sum>(now, c) \<leftarrow> calls. dec_val c) + dec_val c"
    using guard_run_exact [OF assms] run [of now c] a by simp
  moreover have "r = (if dec_val (budget_limit g) < dec_val (total_spent g')
           then Inl (CostGuardError (total_spent g') c (budget_limit g) (guard_currency g)) else Inr ())"
    using a guard_run_frame [of g calls] by (auto simp: accumulate_def dec_less_val Let_def split: if_splits)
  ultimately show ?thesis by (simp add: a)
qed

theorem budget_trips_exactly_witness:
  "fst (accumulate [] (Dec 1 (-2)) (lit ''CNY'') (guard_run sample_guard [([], Dec 150 0)])) \<noteq> Inr ()"
  using budget_trips_exactly [of 2 sample_guard "[([], Dec 150 0)]" "[]" "Dec 1 (-2)"]
  by (auto simp: sample_guard_def fine_grained_def dec_zero_def dec_val_def dec_prec_def power_int_minus
      split: prod.splits)

text \<open>
  After a trip nothing succeeds.  Over a tripped guard no client the factory builds returns a
  response any more.
\<close>

lemma tripped_client_raises:
  assumes "world_ok w" "world_tripped w"
  shows "\<exists>e. fst (provider_client h p ms model trace agent k temp w) = Inl e"
  using built.tripped_never_succeeds [OF assms] by metis

lemma tripped_client_raises_example:
  "\<forall>h p ms model trace agent k temp. \<exists>e.
     fst (provider_client h p ms model trace agent k temp
            (sample_world (sample_guard\<lparr>total_spent := Dec 151 0\<rparr>))) = Inl e"
proof (intro allI)
  fix h p ms model trace agent k temp
  let ?w = "sample_world (sample_guard\<lparr>total_spent := Dec 151 0\<rparr>)"
  have "world_ok ?w" "world_tripped ?w"
    by (simp_all add: sample_world_def sample_guard_def world_ok_def world_tripped_def guard_ok_def
        dec_wf_def dec_prec_def currencies_def over_budget_def dec_val_def)
  then show "\<exists>e. fst (provider_client h p ms model trace agent k temp ?w) = Inl e"
    by (rule tripped_client_raises)
qed

text \<open>
  C15 A tripped guard does not stop the next request.  Nothing looks at the guard before a call, so
  over a guard that is already above its limit, with a provider that replies and a log that parses,
  every run of \<^verbatim>\<open>run_pipeline\<close> still sends one request, the diagnosis, and pays it: the total grows by
  its cost.  Only then the run stops, with no agent on the trace, no file and no container touched,
  and \<^verbatim>\<open>Path(None)\<close> raises.
\<close>

theorem tripped_run_pays_again:
  assumes "replying h reply p c" "askable (b ''diagnosis'')" "call_cost (b ''diagnosis'') p c = Some cost"
    and "current_guard w = Inr g" "guard_ok g" "guard_currency g = lit ''CNY''"
      "over_budget g" "0 \<le> dec_coeff cost"
    and "trace_id_ok tid" "files w (path_str log_path) \<noteq> None"
    and "parse_log h (initial_state (path_str log_path) (Some tid)) w = (Inr [UErrorLog (Some elog), UParseError None], w)"
  shows "let (r, w') = run_pipeline h (production_agents h b) log_path (Some tid) w in
    r = Inl path_of_none \<and> docker_log w' = docker_log w \<and> files w' = files w \<and>
    st_agent_trace (th_state (pipeline_thread h (production_agents h b) log_path (Some tid) w)) = [lit ''cost_guard_triggered''] \<and>
    (\<exists>req. sdk_log w' = sdk_log w @ [req] \<and> rq_agent_name req = lit ''diagnosis'') \<and>
    (\<exists>g'. current_guard w' = Inr g' \<and>
       total_spent g' = dec_add (total_spent g) cost \<and> call_count g' = call_count g + 1)"
proof -
  note run = tripped_run [of h reply p c b, OF assms]
  have "total_spent (guard_run g [(now, cost)]) = dec_add (total_spent g) cost"
    "call_count (guard_run g [(now, cost)]) = call_count g + 1" for now
    by (simp_all only: guard_run_total guard_run_count) simp_all
  with run(4) show ?thesis unfolding run(1) using run(2,3,5,6) by auto
qed

theorem tripped_run_pays_again_witness:
  "let (r, w') = run_pipeline (calm_host 0) (production_agents (calm_host 0) sample_built) (lit ''log.json'')
      (Some (replicate 32 97)) (funded_world (Dec 151 0) (Dec 150 0))
   in r = Inl path_of_none \<and> length (sdk_log w') = 1 \<and>
     (\<exists>g'. current_guard w' = Inr g' \<and> call_count g' = 1)"
proof -
  let ?g = "sample_guard\<lparr>total_spent := Dec 151 0, budget_limit := Dec 150 0\<rparr>"
  have g: "guard_ok ?g" "guard_currency ?g = lit ''CNY''" "over_budget ?g"
    by (simp_all add: guard_ok_def sample_guard_def dec_wf_def dec_prec_def currencies_def over_budget_def dec_val_def)
  have answers: "replying (calm_host 0) sample_reply 100 10" "askable (sample_built ''diagnosis'')"
    using sample_answering [of 0] by (simp_all add: answering_def)
  have log: "files (funded_world (Dec 151 0) (Dec 150 0)) (path_str (lit ''log.json'')) \<noteq> None"
    using sample_path by (simp add: logged_world_def)
  from tripped_run_pays_again [of "calm_host 0" sample_reply 100 10 sample_built, OF answers sample_cost funded_world_simps(3) g _ sample_token log sample_log_text]
  show ?thesis by (auto simp: sample_guard_def split: prod.splits)
qed

text \<open>
  C16 The guard under threads.  Let \<open>n\<close> calls of \<^verbatim>\<open>get_cost_guard().<operation>\<close> interleave step by
  step in any order.  When the budget text is no amount, no guard exists and every call that ends
  raises that error.  Otherwise at most one guard is ever built, and there is an order of calls in
  which each that has ended got the answer of the operation run alone at its place, and the guard
  is what those calls make of it whenever nobody is inside its lock: no torn snapshot, no lost
  update.
\<close>

theorem guard_calls_linearize:
  assumes "guards_reach env ops n c"
  shows "case get_cost_guard env None of
      Inl e \<Rightarrow> gs_heap c = [] \<and> (\<forall>i res. gs_pc c i = Done res \<longrightarrow> res = Inl e)
    | Inr g0 \<Rightarrow> length (gs_heap c) \<le> 1 \<and>
        (\<exists>calls. distinct calls \<and> set calls \<subseteq> {..<n} \<and>
          (\<forall>i res. gs_pc c i = Done res \<longrightarrow> answered ops g0 calls i res) \<and>
          (gs_heap c = [] \<or> gs_locks c 0 \<noteq> None \<or> gs_heap c = [guard_seq ops g0 calls]))"
proof (cases "get_cost_guard env None")
  case (Inl e)
  with bad_budget_answers [OF assms] show ?thesis by simp
next
  case (Inr g0)
  with guards_linearize [OF assms] show ?thesis by simp
qed

theorem guard_calls_linearize_witness:
  "let ops = (\<lambda>i. if i = 0 then Accumulate [] (Dec 5 (-3)) (lit ''CNY'') else Snapshot);
       c = run_schedule None ops [0, 1, 1, 0, 1, 0, 0, 1] guards_start
   in length (gs_heap c) \<le> 1 \<and>
      (\<exists>calls. set calls \<subseteq> {..<2} \<and>
        (\<forall>i res. gs_pc c i = Done res \<longrightarrow> answered ops sample_guard calls i res))"
proof -
  have "\<forall>i \<in> set [0, 1, 1, 0, 1, 0, 0, 1]. i < (2 :: nat)" by simp
  from guard_calls_linearize [OF schedule_reaches [OF this, where env = None]]
  show ?thesis unfolding default_guard sum.case Let_def by blast
qed

text \<open>
  C17 No update is lost.  When \<open>n\<close> concurrent calls of \<^verbatim>\<open>accumulate\<close> have all ended, in whatever order
  their steps fell, there is one guard, it has counted \<open>n\<close> calls, and as long as the amounts fit
  into 28 digits its total is the exact sum of all costs.
\<close>

theorem concurrent_total_exact:
  assumes "guards_reach env ops n c" "\<forall>i < n. \<exists>res. gs_pc c i = Done res" "0 < n"
    and "get_cost_guard env None = Inr g0"
    and "\<forall>i < n. ops i = Accumulate (now i) (cost i) (lit ''CNY'')"
    and "\<forall>i < n. fine_grained k (cost i)" "k \<le> dec_prec" "(\<Sum>i < n. dec_val (cost i)) < 10 ^ (dec_prec - k)"
  shows "\<exists>g. gs_heap c = [g] \<and> dec_val (total_spent g) = (\<Sum>i < n. dec_val (cost i)) \<and> call_count g = n"
  using assms by (rule concurrent_total)

theorem concurrent_total_exact_witness:
  "\<exists>c g. guards_reach None (\<lambda>i. Accumulate [] (Dec (int i + 1) (-2)) (lit ''CNY'')) 3 c \<and>
     gs_heap c = [g] \<and> dec_val (total_spent g) = 6 / 100 \<and> call_count g = 3"
proof -
  let ?ops = "\<lambda>i. Accumulate [] (Dec (int i + 1) (-2)) (lit ''CNY'')"
  have "guards_reach None ?ops 3 guards_start" by (simp add: guards_reach_def)
  from calls_can_finish [OF this] obtain c where c: "guards_reach None ?ops 3 c" "\<forall>i < 3. \<exists>res. gs_pc c i = Done res"
    by blast
  have sum: "(\<Sum>i < 3. dec_val (Dec (int i + 1) (-2))) = 6 / 100"
    by (simp add: numeral_3_eq_3 dec_val_def power_int_minus)
  from concurrent_total_exact [OF c _ default_guard, where k = 2 and now = "\<lambda>_. []" and cost = "\<lambda>i. Dec (int i + 1) (-2)"]
  obtain g where "gs_heap c = [g]" "dec_val (total_spent g) = 6 / 100" "call_count g = 3"
    unfolding sum by (auto simp: fine_grained_def dec_prec_def)
  with c show ?thesis by blast
qed

text \<open>
  C18 The locks cannot deadlock.  \<open>n\<close> calls make at most \<open>14 * n\<close> steps in every interleaving, and
  as long as one of them has not ended, some call can move.
\<close>

theorem guard_calls_finish:
  assumes "(guards_step env ops n ^^ k) guards_start c"
  shows "k \<le> 14 * n \<and> ((\<forall>i < n. \<exists>res. gs_pc c i = Done res) \<or> (\<exists>c'. guards_step env ops n c c'))"
  using assms by (rule calls_finish)

theorem guard_calls_finish_witness:
  "\<exists>c'. guards_step None (\<lambda>_. Snapshot) 2 guards_start c'"
  using guard_calls_finish [where n = 2 and k = 0 and env = None and ops = "\<lambda>_. Snapshot"]
  by (force simp: guards_start_def dest: spec [of _ 0])

section \<open>Configuration\<close>

text \<open>
  C19 The routing configurations that validate.  The model validator accepts exactly the
  configurations in which no model is declared twice and every agent's model is declared, and
  then writes the declaring endpoint into every agent.
\<close>

theorem routing_validates_iff:
  "link_routing rc = Inr rc' \<longleftrightarrow>
   registry_ok rc \<and>
   rc' = rc\<lparr>rt_agents := map (\<lambda>(n, c).
            (n, c\<lparr>cf_endpoint_alias := the (map_of (declared (rt_endpoints rc)) (cf_model c))\<rparr>)) (rt_agents rc)\<rparr>"
  by (rule link_routing_Inr)

section \<open>Tracing\<close>

text \<open>
  C20 Tracing is transparent to the pipeline.  Whatever the tracing packages do, \<^verbatim>\<open>run_pipeline\<close> has the
  result and the effects it has without them.  Langfuse is asked nothing for a run without trace
  id or log; otherwise it is asked, in order and up to a first failure, for a client, for one
  trace of exactly that id with its two tags, and for a flush, and at most one line is logged.
\<close>

theorem tracing_transparent:
  "\<exists>calls lines. run_pipeline_traced h tg ag log_path trace_id (w, tr) =
     (fst (run_pipeline h ag log_path trace_id w), snd (run_pipeline h ag log_path trace_id w),
      tr\<lparr>tr_calls := tr_calls tr @ calls, tr_logged := tr_logged tr @ lines\<rparr>) \<and>
     (if nonempty trace_id \<and> files w (path_str log_path) \<noteq> None
      then trace_session (the trace_id) (lit ''auto-sentinel'') (lit ''pipeline'') calls \<and> length lines \<le> 1
      else calls = [] \<and> lines = [])"
  by (rule traced_pipeline)

text \<open>
  C21 A span that fails costs money nobody counts.  When the tracer raises as it is told the costs,
  a call whose provider has answered raises that exception: the request was sent, and the guard
  is as it was.
\<close>

theorem failing_span_unbilled:
  assumes "sp_installed sp" "sp_has_costs sp" "\<And>e cs. \<not> sp_swallows sp e cs"
    and "\<And>call cs. sp_call sp call cs = (case call of SpanCosts _ _ _ \<Rightarrow> Some boom | _ \<Rightarrow> None)"
    and "mk_request (request_of ms model trace agent k temp) = Inr req" "h_sdk h req w = SdkOk content prompt completion"
  shows "\<exists>cs'. complete_spanned sp name table h ms model trace agent k temp (w, cs) =
    (Inl boom, w\<lparr>sdk_log := sdk_log w @ [req]\<rparr>, cs')"
  using assms by (rule failing_costs_unbilled)

theorem failing_span_unbilled_witness:
  "let sp = \<lparr>sp_installed = True, sp_has_tokens = True, sp_has_costs = True,
        sp_call = \<lambda>call _. (case call of SpanCosts _ _ _ \<Rightarrow> Some (TypeError []) | _ \<Rightarrow> None),
        sp_swallows = \<lambda>_ _. False\<rparr>;
       ms = [\<lparr>msg_role = User, msg_content = lit ''ping''\<rparr>];
       w = sample_world sample_guard
   in \<exists>w' cs'. complete_spanned sp (lit ''Ark'') ark_pricing (calm_host 0) ms (lit ''m'') (replicate 32 97)
        (lit ''diagnosis'') 9 fl_zero (w, []) = (Inl (TypeError []), w', cs') \<and>
      length (sdk_log w') = 1 \<and> guard w' = Some sample_guard"
proof -
  let ?req = "request_of [\<lparr>msg_role = User, msg_content = lit ''ping''\<rparr>] (lit ''m'') (replicate 32 97) (lit ''diagnosis'') 9 fl_zero"
  have req: "mk_request ?req = Inr ?req"
    using sample_token zero_temperature by (simp add: mk_request_def request_errors_def)
  let ?sp = "\<lparr>sp_installed = True, sp_has_tokens = True, sp_has_costs = True,
      sp_call = \<lambda>call _. (case call of SpanCosts _ _ _ \<Rightarrow> Some (TypeError []) | _ \<Rightarrow> None),
      sp_swallows = \<lambda>_ _. False\<rparr>"
  have "h_sdk (calm_host 0) ?req (sample_world sample_guard) = SdkOk (Some (lit ''print(1)'')) 100 10"
    by (simp add: calm_host_def)
  with failing_span_unbilled [where sp = ?sp, OF _ _ _ _ req] show ?thesis
    by (fastforce simp: Let_def sample_world_def)
qed

section \<open>The event gateway\<close>

text \<open>
  C22 What \<^verbatim>\<open>POST /alerts\<close> does.  A malformed trace header is refused with 400 and a failed write
  raises, and both leave the gateway as it was.  Otherwise the answer is 202, exactly one job is
  appended to the queue, under the caller's id or the drawn one, its log is on disk, and the
  pipeline's log parser reads from it the five fields of the payload, or reports a parse error
  when a required text was empty.
\<close>

theorem ingest_alert_outcome:
  assumes "deployment_ok d" "payload_text_ok payload" "\<And>q w. h_read (dp_host d) q w = None"
  shows "case ingest_alert d payload header gw of
     (Inl e, gw') \<Rightarrow> gw' = gw
   | (Inr (HttpError code msg), gw') \<Rightarrow>
       code = 400 \<and> gw' = gw \<and> (\<exists>t. header = Some t \<and> \<not> trace_id_ok t)
   | (Inr (HttpOk code resp), gw') \<Rightarrow>
       code = 202 \<and>
       (\<exists>job us. q_items (gw_queue gw') = q_items (gw_queue gw) @ [job] \<and> job_ready gw' job \<and>
          job_id job = jr_job_id resp \<and> job_id job = or_else header (h_token (dp_host d) (gw_world gw)) \<and>
          parse_log (dp_host d) (initial_state (path_str (job_log_path job)) (Some (job_trace job))) (gw_world gw') =
            (Inr us, gw_world gw') \<and>
          (if payload_complete payload then us = [UErrorLog (Some (payload_log payload)), UParseError None]
           else \<exists>msg. msg \<noteq> [] \<and> us = parse_failed msg))"
  using assms by (rule ingest_outcome)

theorem ingest_alert_outcome_witness:
  "case ingest_alert (calm_deployment 0) sample_payload None started_gateway of
     (Inr (HttpOk code resp), gw') \<Rightarrow> code = 202 | (r, gw') \<Rightarrow> gw' = started_gateway"
proof -
  have "payload_text_ok sample_payload"
    by (simp add: payload_text_ok_def sample_payload_def text_ok_literal)
  moreover have "h_read (dp_host (calm_deployment 0)) q w = None" for q w
    by (simp add: calm_deployment_def calm_host_def)
  ultimately show ?thesis
    using ingest_alert_outcome [where d = "calm_deployment 0" and payload = sample_payload and header = None
        and gw = started_gateway] calm_deployment_ok
    by (auto split: prod.splits sum.splits http.splits split del: if_split)
qed

text \<open>
  C23 The invariant of the gateway, over every sequence of requests and rounds of the worker: the
  worker task is alive, the unfinished count of the queue is its length, and every waiting job
  carries a valid id that is also its trace id, with its log on disk.
\<close>

theorem gateway_invariant:
  assumes "gateway_reaches d gw" "deployment_ok d"
  shows "gw_worker gw = None \<and> q_unfinished (gw_queue gw) = length (q_items (gw_queue gw)) \<and>
    list_all (job_ready gw) (q_items (gw_queue gw))"
  using gateway_reaches_inv [OF assms] by (simp add: gateway_inv_def queue_balanced_def list_all_iff)

theorem gateway_invariant_witness:
  "gw_worker alerted_gateway = None \<and> list_all (job_ready alerted_gateway) (q_items (gw_queue alerted_gateway))"
  using gateway_invariant [OF alerted_reached calm_deployment_ok] by simp

text \<open>
  C24 The worker drains the queue.  From any reached gateway, as many rounds as there are waiting
  jobs empty the queue, account for all of them, leave the worker alive, and have served the
  jobs in the order of their arrival.
\<close>

theorem worker_drains:
  assumes "gateway_reaches d gw" "deployment_ok d"
  shows "let gw' = worker_rounds d (length (q_items (gw_queue gw))) gw in
    q_items (gw_queue gw') = [] \<and> q_unfinished (gw_queue gw') = 0 \<and> gw_worker gw' = None \<and>
    gw_process gw' = fold (\<lambda>job p. snd (snd (process_job d job p))) (q_items (gw_queue gw)) (gw_process gw)"
  using gateway_works_off [OF assms order_refl] by (simp add: serve_jobs_def Let_def)

theorem worker_drains_witness:
  "q_items (gw_queue (worker_rounds (calm_deployment 0) (length (q_items (gw_queue alerted_gateway))) alerted_gateway)) = []"
  using worker_drains [OF alerted_reached calm_deployment_ok] by (simp add: Let_def)

text \<open>
  C25 Jobs that wait at a shutdown are lost.  A shutdown of a running gateway succeeds.  After a
  restart over the same files, and whatever happens then (alerts under other identifiers and their
  jobs, status and search requests, resumptions while no DSN is configured, cancellations, further
  restarts, in any order and number), the status route answers \<open>processing\<close> for a job that was
  waiting, as if it still were.  Only an alert accepted under the same identifier, or, with a DSN,
  the resumption of some incident, can change that.
\<close>

theorem restart_loses_waiting_jobs:
  assumes "gateway_reaches d gw" "deployment_ok d" "job \<in> set (q_items (gw_queue gw))"
    and "files (gw_world gw) (result_path (job_id job)) = None"
    and "restarts_to d (snd (lifespan_shutdown gw)) gw'"
    and "(later_step d (job_id job))\<^sup>*\<^sup>* gw' gw''"
  shows "fst (lifespan_shutdown gw) = Inr () \<and>
    fst (get_alert_status d (job_id job) gw'') = Inr (HttpOk 200
      \<lparr>as_job_id = job_id job, as_trace_id = job_id job, as_status = lit ''processing'', as_diagnosis = None,
       as_fix = None, as_report_path = None\<rparr>)"
  using waiting_job_lost [OF assms] shutdown_alive [OF assms(1,2)] by simp

text \<open>The sample gateway is restarted, gets another alert and serves it; the first stays lost.\<close>

theorem restart_loses_waiting_jobs_witness:
  "\<exists>job gw'. job \<in> set (q_items (gw_queue alerted_gateway)) \<and>
     restarts_to (calm_deployment 0) (snd (lifespan_shutdown alerted_gateway)) gw' \<and>
     (\<exists>r. fst (get_alert_status (calm_deployment 0) (job_id job)
          (worker_round (calm_deployment 0)
            (snd (ingest_alert (calm_deployment 0) sample_payload (Some (replicate 32 98)) gw')))) =
        Inr (HttpOk 200 r) \<and> as_status r = lit ''processing'')"
proof -
  let ?d = "calm_deployment 0" and ?other = "replicate 32 98 :: ustr"
  obtain job where job: "q_items (gw_queue alerted_gateway) = [job]" "job_id job = replicate 32 97"
    "files (gw_world alerted_gateway) (result_path (job_id job)) = None" by (rule alerted_waiting)
  let ?p = "sample_process\<lparr>pr_world := gw_world alerted_gateway\<rparr>"
  let ?gw' = "started_gateway\<lparr>gw_process := ?p\<rparr>"
  have "gw_world (snd (lifespan_shutdown alerted_gateway)) = gw_world alerted_gateway"
    by (simp add: lifespan_shutdown_def gw_world_def split: option.split)
  moreover have "process_ok ?p" using sample_process_ok by (simp add: process_ok_def)
  ultimately have restart: "restarts_to ?d (snd (lifespan_shutdown alerted_gateway)) ?gw'"
    unfolding restarts_to_def
    by (intro exI [of _ ?p]) (simp add: lifespan_start_def calm_deployment_def calm_host_def started_gateway_def)
  have "later_step ?d (job_id job) ?gw' (snd (ingest_alert ?d sample_payload (Some ?other) ?gw'))"
    by (rule later_alert [where header = "Some ?other", OF _ surjective_pairing]) (simp add: job(2) numeral_eq_Suc)
  then have "(later_step ?d (job_id job))\<^sup>*\<^sup>* ?gw'
      (worker_round ?d (snd (ingest_alert ?d sample_payload (Some ?other) ?gw')))"
    using later_work by (blast intro: rtranclp.intros)
  with restart_loses_waiting_jobs [OF alerted_reached calm_deployment_ok _ job(3) restart this] job(1) restart
  show ?thesis by auto
qed

text \<open>
  C26 What the status route answers for a processed job, on a file system that does not fail and
  without a checkpointer DSN.  When the pipeline raised: failed, and nothing else.  When it
  returned: completed, and the answer is the one of the final state \<open>s\<close>.  The diagnosis has the
  category of the diagnosis agent (CODE as runtime, INFRA as infra, CONFIG as config, SECURITY as
  unknown), the supervisor's routing sentence as its summary and medium severity; the fix is the
  artifact, at the risk of the reviewer's verdict (SAFE as low, CAUTION as medium; a HIGH_RISK run
  does not complete); the report path is the one returned.  The trace id is the job's own.
\<close>

theorem status_of_processed_job:
  assumes "process_ok p" "\<not> nonempty (environ (pr_world p) dsn_env)"
    and "trace_id_ok (job_id job)" "job_trace job = job_id job" "job_log_path job = incoming_path (job_id job)"
    and "\<And>q w. h_mkdir (dp_host d) q w = None" "\<And>q w. h_write (dp_host d) q w = None"
      "\<And>q w. h_read (dp_host d) q w = None"
    and "text_ok (job_service job)"
      "\<And>e. fst (run_on d (job_log_path job) (Some (job_trace job)) p) = Inl e \<Longrightarrow> text_ok (exn_str (dp_host d) e)"
    and "\<And>v. sidecar (th_state (pipeline_thread (dp_host d) (production_agents (dp_host d) (dp_built d))
           (job_log_path job) (Some (job_trace job)) (pr_world p))) (job_id job)
         (h_resolve (dp_host d) (output_file (job_id job) ''-report.md'')) = Inr v \<Longrightarrow> json_ok v"
    and "gw_process gw = snd (snd (process_job d job p))"
  shows "\<exists>r. fst (get_alert_status d (job_id job) gw) = Inr (HttpOk 200 r) \<and>
    as_job_id r = job_id job \<and> as_trace_id r = job_id job \<and>
    (case fst (run_on d (job_log_path job) (Some (job_trace job)) p) of
       Inl e \<Rightarrow> as_status r = lit ''failed'' \<and> as_diagnosis r = None \<and> as_fix r = None \<and> as_report_path r = None
     | Inr path \<Rightarrow>
         (let s = th_state (pipeline_thread (dp_host d) (production_agents (dp_host d) (dp_built d))
                (job_log_path job) (Some (job_trace job)) (pr_world p));
              report = h_resolve (dp_host d) (output_file (job_id job) ''-report.md'')
          in \<exists>c cat ra art v risk.
               st_error_category s = Some c \<and>
               map_of [(lit ''CODE'', lit ''runtime''), (lit ''INFRA'', lit ''infra''),
                       (lit ''CONFIG'', lit ''config''), (lit ''SECURITY'', lit ''unknown'')] c = Some cat \<and>
               st_routing_decision s = Some ra \<and> st_fix_artifact s = Some art \<and>
               st_security_verdict s = Some v \<and>
               map_of [(lit ''SAFE'', lit ''low''), (lit ''CAUTION'', lit ''medium'')] v = Some risk \<and>
               as_status r = lit ''completed'' \<and>
               as_diagnosis r = Some \<lparr>dg_category = cat, dg_severity = lit ''medium'', dg_summary = ra\<rparr> \<and>
               as_fix r = Some \<lparr>fx_fix_plan = art, fx_risk_level = risk, fx_code_diff = []\<rparr> \<and>
               as_report_path r = Some report \<and> path_str report = path))"
  using job_status_reported [OF assms]
  unfolding diagnosis_categories_def completed_risks_def by (simp only: Let_def)

text \<open>
  The sample job twice: without its log it fails, with it the run completes, and the status route
  shows what the sample replies come to.
\<close>

theorem status_of_processed_job_witness:
  "(\<exists>r. fst (get_alert_status (calm_deployment 0) (replicate 32 97)
       (started_gateway\<lparr>gw_process := snd (snd (process_job (calm_deployment 0) sample_job sample_process))\<rparr>)) =
     Inr (HttpOk 200 r) \<and> as_status r = lit ''failed'') \<and>
   (\<exists>r. fst (get_alert_status (calm_deployment 0) (replicate 32 97)
       (started_gateway\<lparr>gw_process := snd (snd (process_job (calm_deployment 0) sample_job stored_process))\<rparr>)) =
     Inr (HttpOk 200 r) \<and> as_status r = lit ''completed'' \<and>
     as_diagnosis r = Some \<lparr>dg_category = lit ''runtime'', dg_severity = lit ''medium'', dg_summary = fallback_rationale\<rparr> \<and>
     as_fix r = Some \<lparr>fx_fix_plan = lit ''print(1)'', fx_risk_level = lit ''medium'', fx_code_diff = []\<rparr> \<and>
     as_report_path r = Some (output_file (replicate 32 97) ''-report.md''))"
proof (intro conjI)
  let ?d = "calm_deployment 0" and ?jid = "replicate 32 97 :: ustr"
  have dep: "dp_host ?d = calm_host 0" "dp_built ?d = sample_built" by (simp_all add: calm_deployment_def)
  have calm: "h_mkdir (calm_host 0) q u = None" "h_write (calm_host 0) q u = None" "h_read (calm_host 0) q u = None"
    "h_resolve (calm_host 0) q = q" for q u by (simp_all add: calm_host_def)
  have job: "job_id sample_job = ?jid" "job_trace sample_job = ?jid" "job_log_path sample_job = incoming_path ?jid"
    "text_ok (job_service sample_job)"
    by (simp_all add: sample_job_def text_ok_literal)
  show "\<exists>r. fst (get_alert_status ?d ?jid
       (started_gateway\<lparr>gw_process := snd (snd (process_job ?d sample_job sample_process))\<rparr>)) =
     Inr (HttpOk 200 r) \<and> as_status r = lit ''failed''"
  proof -
    let ?gw = "started_gateway\<lparr>gw_process := snd (snd (process_job ?d sample_job sample_process))\<rparr>"
    have out: "fst (run_on ?d (job_log_path sample_job) (Some (job_trace sample_job)) sample_process) =
        Inl (FileNotFoundError (lit ''Log file not found: '' @ incoming_path ?jid))"
      by (simp add: run_on_def sample_process_def sample_world_def job sample_paths)
    have log: "st_error_log (th_state (pipeline_thread (calm_host 0) (production_agents (calm_host 0) sample_built)
        (incoming_path ?jid) (Some ?jid) (pr_world sample_process))) = None"
      by (rule missing_log_thread) (simp_all add: sample_process_def sample_world_def calm)
    have none: "sidecar s stem q \<noteq> Inr v" if "st_error_log s = None" for s stem q v
      using that by (auto simp: sidecar_def res_bind_def log_index_def split: sum.splits)
    show ?thesis
      using status_of_processed_job [of sample_process sample_job ?d ?gw] out none [OF log] sample_process_ok sample_no_dsn
        sample_token sample_paths(3)
      by (auto simp: job dep calm)
  qed
  show "\<exists>r. fst (get_alert_status ?d ?jid
       (started_gateway\<lparr>gw_process := snd (snd (process_job ?d sample_job stored_process))\<rparr>)) =
     Inr (HttpOk 200 r) \<and> as_status r = lit ''completed'' \<and>
     as_diagnosis r = Some \<lparr>dg_category = lit ''runtime'', dg_severity = lit ''medium'', dg_summary = fallback_rationale\<rparr> \<and>
     as_fix r = Some \<lparr>fx_fix_plan = lit ''print(1)'', fx_risk_level = lit ''medium'', fx_code_diff = []\<rparr> \<and>
     as_report_path r = Some (output_file ?jid ''-report.md'')"
  proof -
    let ?gw = "started_gateway\<lparr>gw_process := snd (snd (process_job ?d sample_job stored_process))\<rparr>"
    let ?t = "pipeline_thread (calm_host 0) (production_agents (calm_host 0) sample_built)
        (incoming_path ?jid) (Some ?jid) (pr_world stored_process)"
    obtain ms rep where t: "th_status ?t = Finished"
      "th_state ?t = (sample_delivery ms)\<lparr>st_report_text := Some rep, st_report_path := Some (output_file ?jid ''-report.md'')\<rparr>"
      by (rule stored_run_filed)
    have out: "fst (run_on ?d (incoming_path ?jid) (Some ?jid) stored_process) =
        Inr (path_str (output_file ?jid ''-report.md''))"
      by (rule stored_run_returns)
    have json: "json_ok v" if "sidecar (th_state ?t) ?jid (output_file ?jid ''-report.md'') = Inr v" for v
      using that sample_delivery_sidecar [of ms _ v] sample_output_ok by (simp add: t sidecar_report_keys)
    have "\<exists>r. fst (get_alert_status ?d (job_id sample_job) ?gw) = Inr (HttpOk 200 r) \<and>
      as_status r = lit ''completed'' \<and>
     as_diagnosis r = Some \<lparr>dg_category = lit ''runtime'', dg_severity = lit ''medium'', dg_summary = fallback_rationale\<rparr> \<and>
     as_fix r = Some \<lparr>fx_fix_plan = lit ''print(1)'', fx_risk_level = lit ''medium'', fx_code_diff = []\<rparr> \<and>
     as_report_path r = Some (output_file ?jid ''-report.md'')"
      using status_of_processed_job [of stored_process sample_job ?d ?gw] stored_process_ok sample_token out json
      by (auto simp: job dep calm t sample_delivery_keys Let_def)
    then show ?thesis by (simp add: job)
  qed
qed

text \<open>
  C27 Resuming without a DSN.  While no checkpointer DSN is configured, every build of the graph
  has its own in-memory saver, so \<^verbatim>\<open>POST /incidents/{id}/resume\<close> answers 404 for every incident,
  suspended ones included.
\<close>

theorem resume_without_dsn:
  assumes "process_ok (gw_process gw)" "\<not> nonempty (environ (gw_world gw) dsn_env)"
  shows "fst (resume_incident d iid body gw) =
    Inr (HttpError 404 (lit ''no resumable incident '' @ repr_str iid))"
  using assms by (rule resume_needs_dsn)

theorem resume_without_dsn_witness:
  "fst (resume_incident (calm_deployment 0) (lit ''x'') \<lparr>rq_decision = lit ''approve'', rq_reviewer_notes = []\<rparr>
      started_gateway) = Inr (HttpError 404 (lit ''no resumable incident '' @ repr_str (lit ''x'')))"
  using sample_process_ok sample_no_dsn
  by (intro resume_without_dsn) (simp_all add: started_gateway_def gw_world_def)

text \<open>
  C28 Resuming with a DSN.  A suspended incident of an open checkpointer is resumed whatever the
  decision in the request says: the container calls are those of the verifier on the suspended
  artifact.
\<close>

theorem resume_ignores_body:
  assumes "environ (gw_world gw) dsn_env = Some dsn" "dsn \<noteq> []"
    and "map_of (sv_cache (pr_savers (gw_process gw))) dsn = Some c"
    and "pr_store (gw_process gw) c iid = Some (Suspended, s)"
  shows "docker_log (gw_world (snd (resume_incident d iid body gw))) =
    docker_log (snd (verifier_run (dp_host d) (approved s) (gw_world gw)))"
  using assms by (rule resume_executes)

theorem resume_ignores_body_witness:
  "let w = (sample_world sample_guard)\<lparr>environ := \<lambda>_. Some (lit ''db'')\<rparr>;
       s = (initial_state [] None)\<lparr>st_fix_artifact := Some (lit ''print(1)'')\<rparr>;
       gw = started_gateway\<lparr>gw_process :=
         \<lparr>pr_world = w, pr_savers = no_savers\<lparr>sv_cache := [(lit ''db'', PostgresSaver (lit ''db''))]\<rparr>,
          pr_store = \<lambda>_ _. Some (Suspended, s)\<rparr>\<rparr>
   in docker_log (gw_world (snd (resume_incident (calm_deployment 0) (lit ''x'')
        \<lparr>rq_decision = lit ''reject'', rq_reviewer_notes = []\<rparr> gw))) =
      docker_log (snd (verifier_run (calm_host 0) (approved s) w))"
  unfolding Let_def
  by (subst resume_ignores_body [where dsn = "lit ''db''" and c = "PostgresSaver (lit ''db'')"])
    (simp_all add: gw_world_def calm_deployment_def text_simps)

text \<open>
  C29 The gateway's pipeline is the pipeline of the command line: without a DSN, \<^verbatim>\<open>run_pipeline\<close>
  in the worker's process gives the outcome and the world of \<^verbatim>\<open>run_pipeline\<close> over the production
  agents.
\<close>

theorem gateway_runs_pipeline:
  assumes "process_ok p" "\<not> nonempty (environ (pr_world p) dsn_env)"
  shows "run_pipeline (dp_host d) (production_agents (dp_host d) (dp_built d)) log_path trace_id (pr_world p) =
    (fst (run_on d log_path trace_id p), pr_world (snd (run_on d log_path trace_id p)))"
  by (rule run_on_plain [OF assms]) simp

theorem gateway_runs_pipeline_witness:
  "\<forall>d log_path trace_id.
     run_pipeline (dp_host d) (production_agents (dp_host d) (dp_built d)) log_path trace_id (pr_world sample_process) =
     (fst (run_on d log_path trace_id sample_process), pr_world (snd (run_on d log_path trace_id sample_process)))"
  using gateway_runs_pipeline [OF sample_process_ok sample_no_dsn] by blast

section \<open>The incident store\<close>

text \<open>
  C30 The search.  It never changes the world.  It raises only when reading or scoring one of the
  sidecars raises; otherwise the answer is the first \<open>clamp_limit\<close> entries of a ranking of
  exactly the sidecars with a hit: sorted by falling score and then by id, every score positive.
\<close>

theorem search_ranked:
  "let hits = List.map_filter (hit h (split_ws (lower q)) w) (corpus listing w) in
   case search_incidents h listing q limit w of
     (Inl e, w') \<Rightarrow> w' = w \<and> (\<exists>name e'. name \<in> set (corpus listing w) \<and>
         fst (score_entry h (split_ws (lower q)) name w) = Inl e')
   | (Inr res, w') \<Rightarrow> w' = w \<and> length res \<le> 50 \<and>
       (\<exists>ranked. mset ranked = mset hits \<and> sorted (map rank ranked) \<and>
          list_all (\<lambda>(n, i). 0 < n) ranked \<and> res = map snd (take (clamp_limit limit) ranked))"
proof (cases "search_incidents h listing q limit w")
  case (Pair r w')
  show ?thesis
  proof (cases r)
    case (Inl e)
    have "\<exists>name e'. name \<in> set (corpus listing w) \<and> fst (score_entry h (split_ws (lower q)) name w) = Inl e'"
      using Pair Inl
      by (cases rule: score_entries_cases [of h "split_ws (lower q)" "corpus listing w" w])
        (auto simp: search_incidents_def)
    moreover have "w' = w" using search_frame [of h listing q limit w] Pair by simp
    ultimately show ?thesis unfolding Pair Inl Let_def by simp
  next
    case (Inr res)
    note ans = search_answer [OF Pair [unfolded Inr]]
    then have "length res \<le> 50" using clamp_bounds [of limit] by auto
    with ans show ?thesis unfolding Pair Inr Let_def by simp
  qed
qed

text \<open>
  C31 One stray file breaks the search: a sidecar whose content is valid JSON but no object makes
  every search raise, whatever the query.
\<close>

theorem search_broken_by_stray_json:
  assumes "name \<in> set (listing w)" "suffix result_suffix name"
    "read_json h (path_join output_dir name) w = (Inr v, w)" "\<And>kvs. v \<noteq> JObj kvs"
  shows "\<exists>e. search_incidents h listing q limit w = (Inl e, w)"
  using assms by (rule search_broken)

theorem search_broken_by_stray_json_witness:
  "\<forall>q limit. \<exists>e w. search_incidents (calm_host 0) (\<lambda>_. [lit ''x-result.json'']) q limit w = (Inl e, w)"
proof (intro allI)
  fix q limit
  let ?w = "(sample_world sample_guard)\<lparr>files := \<lambda>_. Some (dumps None JNull)\<rparr>"
  have "read_json (calm_host 0) (path_join output_dir (lit ''x-result.json'')) ?w = (Inr JNull, ?w)"
    by (rule written_json_reads [where ind = None]) (simp_all add: calm_host_def json_ok.intros)
  then have "\<exists>e. search_incidents (calm_host 0) (\<lambda>_. [lit ''x-result.json'']) q limit ?w = (Inl e, ?w)"
    by (rule search_broken_by_stray_json [rotated 2])
      (auto simp: result_suffix_def suffix_def text_simps)
  then show "\<exists>e w. search_incidents (calm_host 0) (\<lambda>_. [lit ''x-result.json'']) q limit w = (Inl e, w)" by blast
qed

section \<open>Logs and checkpointers\<close>

text \<open>
  C32 A log line is one line of JSON: it holds no line feed, and decoding it gives the seven
  fields of the record, with the logger's prefix removed from the component.
\<close>

theorem log_line_reads_back:
  assumes "record_ok r" "text_ok now"
  shows "10 \<notin> set (format_record now r) \<and> loads (format_record now r) = Some (log_object now r)"
  using format_record_line [OF assms] by blast

theorem log_line_reads_back_witness:
  "10 \<notin> set (format_record (lit ''now'') (log_event ''INFO'' ''alert_queued'' (lit ''a'') (lit ''b'') []))"
proof -
  have "json_ok (JObj [])" by (auto intro: json_ok.intros)
  then show ?thesis
    using log_line_reads_back [of "log_event ''INFO'' ''alert_queued'' (lit ''a'') (lit ''b'') []" "lit ''now''"]
    by (simp add: record_ok_def log_event_def gateway_logger_def text_ok_literal json_ok.intros)
qed

text \<open>
  One connection per DSN.  A DSN that has been resolved once is answered from the cache with
  the same saver from then on, without a call to the database, whatever the database does.
\<close>

lemma checkpointer_cached:
  assumes "resolve_checkpointer ph (Some dsn) None sv = (Inr c, sv')" "dsn \<noteq> []"
  shows "resolve_checkpointer ph' (Some dsn) None sv' = (Inr c, sv')"
  using assms by (rule resolve_again)

lemma checkpointer_cached_example:
  "resolve_checkpointer \<lparr>pg_enter = \<lambda>_ _. Some (RuntimeError []), pg_setup = \<lambda>_ _. None, pg_exit = \<lambda>_ _. None\<rparr>
     (Some (lit ''db'')) None (snd (resolve_checkpointer calm_pg (Some (lit ''db'')) None no_savers)) =
   (Inr (PostgresSaver (lit ''db'')), snd (resolve_checkpointer calm_pg (Some (lit ''db'')) None no_savers))"
  by (rule checkpointer_cached [where ph = calm_pg and sv = no_savers])
    (simp_all add: resolve_checkpointer_def nonempty_def no_savers_def pg_call_def calm_pg_def keep_saver_def
      io_bind_def text_simps)

text \<open>
  The exit hook.  Whatever closing a connection raises, the hook ends with no open connection
  and an empty cache, and a database that lets go is told to close each of them once, the last
  one first.
\<close>

lemma exit_hook_closes_all:
  "let sv' = close_open_checkpointers ph sv in
   sv_open sv' = [] \<and> sv_cache sv' = [] \<and>
   sv_calls (close_open_checkpointers calm_pg sv) = sv_calls sv @ map PgExit (rev (sv_open sv))"
proof -
  have "pg_exit calm_pg d sv = None" for d sv by (simp add: calm_pg_def)
  from close_each_all [of calm_pg, OF this] close_releases [of ph sv] show ?thesis
    by (simp add: close_open_checkpointers_def Let_def)
qed

section \<open>Benchmarks\<close>

text \<open>
  C33 Percentiles.  Over a non-empty list of latencies, the interpolated percentile computed in
  floating point exists and lies between the smallest and the largest latency.
\<close>

theorem percentile_between:
  assumes "ms \<noteq> []" "list_all (\<lambda>v. 0 \<le> v \<and> v < 2 ^ 53) ms" "length ms < 2 ^ 46" "pct \<le> 100"
  shows "\<exists>p. percentile ms pct = Inr p \<and> Min (set ms) \<le> p \<and> p \<le> Max (set ms)"
  using assms by (intro percentile_bounds) (simp_all add: list_all_iff)

theorem percentile_between_witness:
  "\<exists>p. percentile [30, 10, 20, 10] 95 = Inr p \<and> 10 \<le> p \<and> p \<le> 30"
  using percentile_between [of "[30, 10, 20, 10]" 95] by simp

text \<open>
  C34 Neither runner reports a success that did not happen.  If no container ever exits with 0,
  the smoke benchmark resolves nothing, and no result of a full run over the production agents
  has passed.
\<close>

theorem no_false_success:
  assumes "\<And>w. h_docker_wait (dp_host d) w \<noteq> Inr 0"
  shows "resolved_count (fst (run_details d scs p)) = 0 \<and>
    (case fst (run_all d False scs p) of Inl e \<Rightarrow> True | Inr (rs, vs) \<Rightarrow> list_all (\<lambda>r. \<not> br_passed r) rs)"
  using no_success_without_exit_0 [OF assms] by blast

theorem no_false_success_witness:
  "\<forall>scs p. resolved_count (fst (run_details (calm_deployment 1) scs p)) = 0"
  using no_false_success [of "calm_deployment 1"] by (simp add: calm_deployment_def calm_host_def)

text \<open>
  C35 The report of the smoke benchmark.  With no scenario the average divides by zero; otherwise
  the average duration lies between the bounds of the single durations and the resolution rate
  between 0 and 1.
\<close>

theorem benchmark_report_sound:
  assumes "length xs = length scs" "list_all (\<lambda>x. lo \<le> dt_duration_ms x \<and> dt_duration_ms x \<le> hi) xs" "hi < 2 ^ 53"
  shows "if scs = [] then benchmark_report scs xs = Inl zero_division
    else \<exists>avg rate rest. benchmark_report scs xs = Inr (JObj
        ([(lit ''scenario_count'', JInt (int (length scs))), (lit ''resolution_rate'', JFloat rate),
          (lit ''avg_ms'', JInt (int avg))] @ rest)) \<and>
      lo \<le> avg \<and> avg \<le> hi \<and> fl_between 0 1 rate"
  using assms by (rule report_sound)

theorem benchmark_report_sound_witness:
  "\<exists>avg rate rest. benchmark_report [sample_scenario]
       [\<lparr>dt_resolved = True, dt_duration_ms = 7, dt_agent_trace = [], dt_security_verdict = None,
         dt_routing_decision = None, dt_interrupted = False\<rparr>] = Inr (JObj
        ([(lit ''scenario_count'', JInt 1), (lit ''resolution_rate'', JFloat rate),
          (lit ''avg_ms'', JInt (int avg))] @ rest)) \<and> 7 \<le> avg \<and> avg \<le> 7 \<and> fl_between 0 1 rate"
  using benchmark_report_sound [of "[\<lparr>dt_resolved = True, dt_duration_ms = 7, dt_agent_trace = [], dt_security_verdict = None,
         dt_routing_decision = None, dt_interrupted = False\<rparr>]" "[sample_scenario]" 7 7] by simp

text \<open>
  C36 A scenario that goes right.  With the mock agents, a readable log, a fix that compiles and is
  not deny-listed, a SAFE or CAUTION ground truth and a sandbox in which nothing fails, the run
  goes through every node up to the report without suspending or failing on the way, ends with the
  ground truth of the scenario, and counts as resolved exactly when the report was written and
  the container exited with 0.
\<close>

theorem mock_scenario_completes:
  assumes "trace_id_ok tid" "sc_classification sc \<in> set valid_categories"
      "sc_verdict sc \<in> {lit ''SAFE'', lit ''CAUTION''}"
    and "\<not> deny_listed (mock_artifact sc)" "h_compile h (mock_artifact sc) = Compiles"
    and "calm_sandbox h code"
    and "parse_log h (bench_state sc tid) w = (Inr [UErrorLog (Some elog), UParseError None], w)"
  shows "let t = graph_invoke h (build_mock_agents h sc) (bench_state sc tid) w; s' = th_state t in
    (th_status t = Finished \<or> (\<exists>e. th_status t = Failed FormatReport e)) \<and>
    st_error_category s' = Some (sc_classification sc) \<and> st_specialist s' = Some (mock_specialist sc) \<and>
    st_fix_artifact s' = Some (mock_artifact sc) \<and> st_security_verdict s' = Some (sc_verdict sc) \<and>
    map_option ex_return_code (st_execution_result s') = Some (Some code) \<and>
    bench_resolved s' = (th_status t = Finished \<and> code = 0)"
  by (rule mock_run_completes [OF assms])

theorem mock_scenario_completes_witness:
  "let s = bench_state sample_scenario (replicate 32 97);
       t = graph_invoke (calm_host 0) (build_mock_agents (calm_host 0) sample_scenario) s logged_world in
    st_error_category (th_state t) = Some (lit ''CODE'') \<and> st_security_verdict (th_state t) = Some (lit ''SAFE'') \<and>
    bench_resolved (th_state t) = (th_status t = Finished)"
proof -
  have "h_compile (calm_host 0) (mock_artifact sample_scenario) = Compiles" by (simp add: calm_host_def)
  moreover have "sc_classification sample_scenario \<in> set valid_categories"
    "sc_verdict sample_scenario \<in> {lit ''SAFE'', lit ''CAUTION''}"
    by (simp_all add: sample_scenario_def valid_categories_def)
  ultimately show ?thesis
    using mock_scenario_completes [OF sample_token _ _ sample_not_denied _ sample_calm sample_log_parses]
    by (simp add: Let_def sample_scenario_def)
qed

text \<open>
  The approval gate holds in a mock benchmark as well: the scripted agents are a team, so a scenario
  whose fix is denied never reaches the sandbox.
\<close>

lemma mock_fix_never_denied:
  "let t = graph_invoke h (build_mock_agents h sc) s w in
   docker_log (th_world t) = docker_log w \<or>
   (\<exists>artifact code evs.
      st_fix_artifact (th_state t) = Some artifact \<and> executed_code h (th_state t) = Some code \<and>
      docker_log (th_world t) = docker_log w @ evs \<and> sandbox_session code evs \<and>
      \<not> deny_listed artifact \<and> \<not> deny_listed code \<and>
      st_security_verdict (th_state t) \<in> {Some (lit ''SAFE''), Some (lit ''CAUTION'')})"
  using thread_safe_executes [OF mocked.invoke_safe] by (simp add: Let_def)

section \<open>Clients and agents\<close>

text \<open>
  C37 Retries are bounded.  One call of a factory-built client sends at most two requests, both the
  request of its arguments, so both carry the caller's trace id and agent name; it reads and
  writes no file and makes no container call.
\<close>

theorem at_most_two_requests:
  "let w' = snd (provider_client h p ms model trace agent k temp w) in
   (\<exists>n \<le> 2. sdk_log w' = sdk_log w @ replicate n (request_of ms model trace agent k temp)) \<and>
   files w' = files w \<and> docker_log w' = docker_log w \<and> environ w' = environ w"
proof -
  have "llm_only trace w w' \<and> (\<exists>n \<le> 2. sdk_log w' = sdk_log w @ replicate n (request_of ms model trace agent k temp))"
    if "provider_client h p ms model trace agent k temp w = (r, w')" for r w'
    using that by (cases p) (auto simp: provider_client_def ark_complete_def glm_complete_def
        dest: provider_complete_traffic)
  then show ?thesis
    by (cases "provider_client h p ms model trace agent k temp w") (auto simp: llm_only_def)
qed

text \<open>
  The budget is a latch.  No sequence of calls lowers the total, and a guard that is over
  budget stays so until it is reset.
\<close>

lemma budget_is_a_latch:
  assumes "guard_ok g" "list_all (\<lambda>(now, c). 0 \<le> dec_coeff c) calls"
  shows "dec_val (total_spent g) \<le> dec_val (total_spent (guard_run g calls)) \<and>
    (over_budget (guard_run g calls) \<or> \<not> over_budget g) \<and>
    call_count (guard_run g calls) = call_count g + length calls"
proof -
  have "dec_val (total_spent g) \<le> dec_val (total_spent (guard_run g calls))"
    using assms by (intro guard_run_mono) (simp_all add: list_all_iff)
  moreover have "budget_limit (guard_run g calls) = budget_limit g" by (simp add: guard_run_frame)
  ultimately show ?thesis by (auto simp: over_budget_def guard_run_count)
qed

lemma budget_is_a_latch_example:
  "over_budget (guard_run (sample_guard\<lparr>total_spent := Dec 151 0\<rparr>) [([], Dec 5 (-3))])"
  using budget_is_a_latch [of "sample_guard\<lparr>total_spent := Dec 151 0\<rparr>" "[([], Dec 5 (-3))]"]
  by (simp add: sample_guard_def guard_ok_def dec_wf_def dec_prec_def currencies_def over_budget_def dec_val_def)

text \<open>
  A validated configuration resolves.  Over a linked configuration, asking for a client fails
  with \<^verbatim>\<open>ConfigurationError\<close> or gives the agent's own settings and a client of the endpoint that
  declares the agent's model, with a key that is not empty; its SDK has that key and URL and makes
  no attempts of its own.
\<close>

lemma linked_routing_resolves:
  assumes "link_routing rc0 = Inr rc"
  shows "case client_for rc env name of
      Inl e \<Rightarrow> \<exists>m. e = ConfigurationError m
    | Inr (p, cfg) \<Rightarrow>
        \<exists>ep key. map_of (rt_agents rc) name = Some cfg \<and>
          map_of (rt_endpoints rc) (cf_endpoint_alias cfg) = Some ep \<and>
          env (ep_api_key_env ep) = Some key \<and> key \<noteq> [] \<and>
          p \<in> {ArkProvider key (ep_base_url ep), GlmProvider key (ep_base_url ep)} \<and>
          provider_sdk p = \<lparr>sdk_api_key = key, sdk_base_url = ep_base_url ep, sdk_timeout = 45, sdk_max_retries = 0\<rparr>"
proof (cases "client_for rc env name")
  case (Inl e)
  with client_for_linked [OF assms Inl] show ?thesis by simp
next
  case (Inr r)
  obtain p cfg where r: "r = (p, cfg)" by (cases r)
  from client_for_cases [OF Inr [unfolded r]] obtain ep key where
    "map_of (rt_agents rc) name = Some cfg" "map_of (rt_endpoints rc) (cf_endpoint_alias cfg) = Some ep"
    "env (ep_api_key_env ep) = Some key" "key \<noteq> []"
    and p: "p \<in> {ArkProvider key (ep_base_url ep), GlmProvider key (ep_base_url ep)}" by auto blast+
  with provider_sdk_settings [OF p] show ?thesis unfolding Inr r by simp
qed

definition sample_routing :: routing_config where
  "sample_routing =
     \<lparr>rt_agents = [(lit ''diagnosis'', \<lparr>cf_model = lit ''m'', cf_temperature = fl_zero, cf_max_tokens = 9,
         cf_endpoint_alias = []\<rparr>)],
      rt_endpoints = [(lit ''ark'', \<lparr>ep_base_url = lit ''u'', ep_api_key_env = lit ''K'', ep_models = [lit ''m'']\<rparr>)]\<rparr>"

lemma linked_routing_resolves_example:
  "\<exists>rc. link_routing sample_routing = Inr rc \<and>
     (case client_for rc (\<lambda>_. Some (lit ''key'')) (lit ''diagnosis'') of
        Inl e \<Rightarrow> \<exists>m. e = ConfigurationError m
      | Inr (p, cfg) \<Rightarrow> cf_model cfg = lit ''m'')"
proof -
  let ?rc = "sample_routing\<lparr>rt_agents := [(lit ''diagnosis'', \<lparr>cf_model = lit ''m'', cf_temperature = fl_zero,
      cf_max_tokens = 9, cf_endpoint_alias = lit ''ark''\<rparr>)]\<rparr>"
  have link: "link_routing sample_routing = Inr ?rc"
    by (simp add: link_routing_Inr registry_ok_def sample_routing_def)
  from linked_routing_resolves [OF this, where env = "\<lambda>_. Some (lit ''key'')" and name = "lit ''diagnosis''"] link
  show ?thesis by (auto simp: sample_routing_def split: sum.splits)
qed

text \<open>
  C38 What an agent is answered is what it reads.  A reply that is a JSON object with the expected
  key is read as that value when it belongs to the vocabulary, and falls back to CODE and CAUTION
  when it does not.
\<close>

theorem agent_replies_read_back:
  assumes "text_ok v" "text_ok note"
  shows "parse_category (dumps ind (JObj [(lit ''category'', JStr v), (lit ''reasoning'', JStr note)])) =
      (if v \<in> set valid_categories then v else lit ''CODE'') \<and>
    parse_verdict (dumps ind (JObj [(lit ''verdict'', JStr v), (lit ''reasoning'', JStr note)])) =
      (if v \<in> set valid_verdicts then v else lit ''CAUTION'')"
proof -
  have "string_field k (dumps ind (JObj [(lit k, JStr v), (lit ''reasoning'', JStr note)])) = Some v"
    if "k \<noteq> ''reasoning''" for k
    using assms that by (intro string_field_dumps) (auto intro!: json_ok.intros simp: text_ok_literal)
  then show ?thesis by (simp add: parse_category_def parse_verdict_def)
qed

theorem agent_replies_read_back_witness:
  "parse_verdict (dumps None (JObj [(lit ''verdict'', JStr (lit ''HIGH_RISK'')), (lit ''reasoning'', JStr [])])) =
   lit ''HIGH_RISK''"
  using agent_replies_read_back [of "lit ''HIGH_RISK''" "[]" None]
  by (simp add: text_ok_literal valid_verdicts_def text_ok_def [of "[]"])

text \<open>
  Fences.  A script in a Markdown fence, with or without a language tag, is unwrapped to the
  script itself, trimmed.
\<close>

lemma fence_round_trip:
  assumes "list_all is_lang_char lang"
  shows "strip_markdown_fence (fence @ lang @ newline @ script @ newline @ fence) = strip script"
  using assms by (intro strip_markdown_fence_fenced) (simp add: list_all_iff)

lemma fence_round_trip_example:
  "strip_markdown_fence (fence @ lit ''python'' @ newline @ lit ''print(1)'' @ newline @ fence) = strip (lit ''print(1)'')"
  by (rule fence_round_trip) (simp add: is_lang_char_def text_simps)

text \<open>
  The vocabulary of the sidecar.  The derived category is one of the four its readers know (only
  a textual analysis, which no node of this graph writes, makes the derivation raise), the
  risk is high exactly for a HIGH_RISK verdict, and the severity is high exactly for that or
  for a run a human approved.
\<close>

lemma sidecar_vocabulary:
  "(case derive_category s of Inl e \<Rightarrow> (\<exists>t. st_analysis_result s = Some (AnaText t) \<and> t \<noteq> []) | Inr c \<Rightarrow> c \<in> set category_vocabulary) \<and>
   (risk_of s = lit ''high'') = (st_security_verdict s = Some (lit ''HIGH_RISK'')) \<and>
   derive_severity s = (if st_security_verdict s = Some (lit ''HIGH_RISK'') \<or> st_approval_required s
     then lit ''high'' else lit ''medium'')"
  using derive_category_vocabulary [of s] risk_of_high high_risk_is_high
  by (auto simp: derive_severity_def derive_category_def res_bind_def analysis_dict_def
      split: sum.splits option.splits analysis.splits)

section \<open>Scripts\<close>

text \<open>
  C39 The authorship gate.  It raises only when a call of \<^verbatim>\<open>git\<close> failed; otherwise its exit code is 0
  exactly when every scenario added since the merge base was introduced by a commit whose message
  holds the trailer, and 1 when one was not.
\<close>

theorem authorship_gate:
  "case authorship_main g env argv of
     Inl e \<Rightarrow> \<exists>args e'. g args = Inl e'
   | Inr out \<Rightarrow> \<exists>added. added_scenario_yamls g (authorship_base env argv) = Inr added \<and>
       cli_code out = (if list_all (human_authored g) added then 0 else 1)"
  by (rule authorship_cases)

text \<open>
  C40 The routing evaluation scores each incident of the file once, in order, against the specialist
  of its category; up to \<open>2 ^ 48\<close> incidents, the floating-point threshold 0.70 passes exactly when
  seven tenths of the incidents were hits.  After \<^verbatim>\<open>load_dotenv\<close> it changes no environment variable
  and no file and starts no container, whether it returns or raises.
\<close>

theorem holdout_eval_exact:
  "let w = load_dotenv dotenv w0 in
   case holdout_main dotenv yaml dp read path h w0 of
     (Inl e, w') \<Rightarrow> talks_only w w'
   | (Inr rep, w') \<Rightarrow> talks_only w w' \<and>
       (\<exists>raw incs. fst (read_text h path w) = Inr raw \<and> read raw = Inr incs \<and> incs \<noteq> [] \<and>
          map (Some \<circ> hs_id) (hr_scores rep) = map ho_id incs \<and>
          list_all2 (\<lambda>inc x. Option.bind (ho_category inc) (map_of category_to_specialist) = Some (hs_expected x))
            incs (hr_scores rep) \<and>
          hr_hits rep = length (filter (\<lambda>x. hs_actual x = hs_expected x) (hr_scores rep)) \<and>
          (hr_pass rep = (7 * length incs \<le> 10 * hr_hits rep) \<or> 2 ^ 48 < length incs))"
  unfolding Let_def by (rule holdout_cases)

text \<open>
  The endpoint probe tries its three agents whatever happens to one of them, sends at most six
  requests, all under one trace id, and exits with 0 exactly when each agent was answered at a
  positive cost.
\<close>

lemma endpoint_probe:
  "let w = load_dotenv dotenv w0;
       (code, w') = endpoints_main dotenv yaml dp h w0;
       rs = fst (probe_all yaml dp h (h_token h w) probed_agents w)
   in length rs = 3 \<and> code = (if list_all (\<lambda>r. \<exists>resp. r = Inr resp \<and> 0 < dec_val (rs_cost resp)) rs then 0 else 1) \<and>
      (\<exists>reqs. sdk_log w' = sdk_log w0 @ reqs \<and> length reqs \<le> 6 \<and>
         list_all (\<lambda>r. rq_trace_id r = h_token h w \<and> rq_agent_name r \<in> set probed_agents) reqs)"
  unfolding Let_def by (rule endpoints_cases [unfolded Let_def])

end
